(* ===== verification/Postfix_Prelude.thy ===== *)
theory Postfix_Prelude
  imports Complex_Main
begin

text \<open>
  Shared vocabulary of the development: the result type of operations that may call
  \<^verbatim>\<open>msg_panic()\<close> or loop, invariants of transition systems as a locale, and the generic
  lemmas on lists that the components use. Nothing in this theory models a particular source file.
\<close>

section \<open>Results of operations\<close>

text \<open>
  Postfix aborts the process with \<^verbatim>\<open>msg_panic()\<close> (internal inconsistency) or
  \<^verbatim>\<open>msg_fatal()\<close> (environment error). \<open>Ret\<close> is a normal return, \<open>Panic\<close> an abort
  with the name of the function that gave up, \<open>Diverge\<close> a loop that never ends.
\<close>

datatype 'a outcome = Ret 'a | Panic string | Diverge

fun obind :: "'a outcome \<Rightarrow> ('a \<Rightarrow> 'b outcome) \<Rightarrow> 'b outcome" where
  "obind (Ret x) f = f x"
| "obind (Panic m) f = Panic m"
| "obind Diverge f = Diverge"

definition oguard :: "bool \<Rightarrow> string \<Rightarrow> unit outcome" where
  "oguard ok who = (if ok then Ret () else Panic who)"

lemma obind_Ret_iff [simp]:
  "obind m f = Ret y \<longleftrightarrow> (\<exists>x. m = Ret x \<and> f x = Ret y)"
  by (cases m) auto

lemma obind_assoc: "obind (obind m f) g = obind m (\<lambda>x. obind (f x) g)"
  by (cases m) auto

lemma oguard_Ret_iff [simp]: "oguard ok who = Ret u \<longleftrightarrow> ok"
  by (simp add: oguard_def)

lemma oguard_True [simp]: "oguard True who = Ret ()"
  by (simp add: oguard_def)

lemma obind_oguard: "obind (oguard ok who) f = (if ok then f () else Panic who)"
  by (simp add: oguard_def)

text \<open>The result of an operation that returns.\<close>

definition ret_of :: "'a outcome \<Rightarrow> 'a \<Rightarrow> 'a" where
  "ret_of m x = (case m of Ret y \<Rightarrow> y | _ \<Rightarrow> x)"

lemma ret_ofI: "case m of Ret _ \<Rightarrow> True | _ \<Rightarrow> False \<Longrightarrow> m = Ret (ret_of m x)"
  by (cases m) (simp_all add: ret_of_def)

text \<open>Weakest precondition style: the operation returns, and its result satisfies \<open>P\<close>.\<close>

definition returns :: "'a outcome \<Rightarrow> ('a \<Rightarrow> bool) \<Rightarrow> bool" where
  "returns m P \<longleftrightarrow> (\<exists>x. m = Ret x \<and> P x)"

lemma returns_Ret [simp]: "returns (Ret x) P \<longleftrightarrow> P x"
  by (simp add: returns_def)

lemma returns_Panic [simp]: "\<not> returns (Panic m) P"
  by (simp add: returns_def)

lemma returns_Diverge [simp]: "\<not> returns Diverge P"
  by (simp add: returns_def)

lemma returns_obind: "returns (obind m f) P \<longleftrightarrow> returns m (\<lambda>x. returns (f x) P)"
  by (cases m) auto

lemma returns_mono: "returns m P \<Longrightarrow> (\<And>x. P x \<Longrightarrow> Q x) \<Longrightarrow> returns m Q"
  by (auto simp: returns_def)

text \<open>
  Partial and total correctness for operations that may abort: an operation that returns satisfies
  \<open>P\<close>, and with \<open>loop\<close> false it does not diverge.
\<close>

definition yields :: "bool \<Rightarrow> 'a outcome \<Rightarrow> ('a \<Rightarrow> bool) \<Rightarrow> bool" where
  "yields loop m P \<longleftrightarrow> (case m of Ret x \<Rightarrow> P x | Panic _ \<Rightarrow> True | Diverge \<Rightarrow> loop)"

lemma yields_simps [simp]:
  "yields loop (Ret x) P \<longleftrightarrow> P x" "yields loop (Panic m) P" "yields loop Diverge P \<longleftrightarrow> loop"
  by (simp_all add: yields_def)

lemma yields_obind [simp]: "yields loop (obind m f) P \<longleftrightarrow> yields loop m (\<lambda>x. yields loop (f x) P)"
  by (cases m) auto

lemma yields_mono: "yields loop m P \<Longrightarrow> (\<And>x. P x \<Longrightarrow> Q x) \<Longrightarrow> yields loop m Q"
  by (cases m) auto

lemma yields_obindI:
  "yields loop m Q \<Longrightarrow> (\<And>x. Q x \<Longrightarrow> yields loop (f x) P) \<Longrightarrow> yields loop (obind m f) P"
  by (cases m) auto

lemma yields_False_iff: "yields False m (\<lambda>_. True) \<longleftrightarrow> m \<noteq> Diverge"
  by (cases m) auto

section \<open>Invariants of transition systems\<close>

text \<open>
  Several daemons are event driven: an initial state and a step relation. The locale is the
  contract \<open>an invariant holds initially and every step keeps it\<close>; the client lemma is that
  it then holds in every state the daemon can reach.
\<close>

locale transition_system =
  fixes init :: "'s \<Rightarrow> bool"
    and step :: "'s \<Rightarrow> 's \<Rightarrow> bool"
    and inv :: "'s \<Rightarrow> bool"
  assumes inv_init: "init s \<Longrightarrow> inv s"
    and inv_step: "inv s \<Longrightarrow> step s s' \<Longrightarrow> inv s'"
begin

lemma inv_steps:
  assumes "step\<^sup>*\<^sup>* s s'" and "inv s"
  shows "inv s'"
  using assms by (induction rule: rtranclp_induct) (auto intro: inv_step)

lemma inv_reachable: "init s \<Longrightarrow> step\<^sup>*\<^sup>* s s' \<Longrightarrow> inv s'"
  by (blast intro: inv_steps inv_init)

end

section \<open>Lists\<close>

lemma fold_preserves:
  "P s \<Longrightarrow> (\<And>x s. P s \<Longrightarrow> P (f x s)) \<Longrightarrow> P (fold f xs s)"
  by (induction xs arbitrary: s) auto

lemma remove1_split:
  "x \<notin> set xs \<Longrightarrow> remove1 x (xs @ x # ys) = xs @ ys"
  by (simp add: remove1_append)

lemma length_remove1_int:
  "x \<in> set xs \<Longrightarrow> int (length (remove1 x xs)) = int (length xs) - 1"
  by (induction xs) auto

lemma set_remove1_distinct [simp]:
  "distinct xs \<Longrightarrow> set (remove1 x xs) = set xs - {x}"
  by (simp add: set_remove1_eq)

end
