(* ===== verification/Qmgr_List.thy ===== *)
theory Qmgr_List
  imports Postfix_Prelude
begin

text \<open>
  The queue manager keeps every collection (transports, queues, entries, peers, jobs) on
  doubly-linked lists that it updates with the macros of \<^verbatim>\<open>qmgr.h\<close>. This theory models the
  macros at the level of the pointers they write, gives the list a well-formed head represents,
  and proves that each macro implements the corresponding operation on lists. The other
  theories of the queue manager use the list operations.
\<close>

section \<open>The macros of qmgr.h, pointer by pointer\<close>

text \<open>
  An object is an address; a null pointer is \<open>None\<close>. \<open>nxt\<close> and \<open>prv\<close> are the two
  fields of the objects' linkage, \<open>head_next\<close> and \<open>head_prev\<close> those of the list head.
\<close>

type_synonym addr = nat

record qmgr_list =
  head_next :: "addr option"
  head_prev :: "addr option"
  nxt :: "addr \<Rightarrow> addr option"
  prv :: "addr \<Rightarrow> addr option"

definition set_nxt :: "addr option \<Rightarrow> addr option \<Rightarrow> qmgr_list \<Rightarrow> qmgr_list" where
  "set_nxt a v h = (case a of None \<Rightarrow> h | Some x \<Rightarrow> h\<lparr>nxt := (nxt h)(x := v)\<rparr>)"

definition set_prv :: "addr option \<Rightarrow> addr option \<Rightarrow> qmgr_list \<Rightarrow> qmgr_list" where
  "set_prv a v h = (case a of None \<Rightarrow> h | Some x \<Rightarrow> h\<lparr>prv := (prv h)(x := v)\<rparr>)"

definition QMGR_LIST_INIT :: "qmgr_list \<Rightarrow> qmgr_list" where
  "QMGR_LIST_INIT h = h\<lparr>head_prev := None, head_next := None\<rparr>"

definition QMGR_LIST_APPEND :: "addr \<Rightarrow> qmgr_list \<Rightarrow> qmgr_list" where
  "QMGR_LIST_APPEND x h =
     (let h = h\<lparr>prv := (prv h)(x := head_prev h)\<rparr>;
          h = h\<lparr>nxt := (nxt h)(x := None)\<rparr>;
          h = (case head_prev h of
                 Some l \<Rightarrow> h\<lparr>nxt := (nxt h)(l := Some x)\<rparr>
               | None \<Rightarrow> h\<lparr>head_next := Some x\<rparr>)
      in h\<lparr>head_prev := Some x\<rparr>)"

definition QMGR_LIST_PREPEND :: "addr \<Rightarrow> qmgr_list \<Rightarrow> qmgr_list" where
  "QMGR_LIST_PREPEND x h =
     (let h = h\<lparr>nxt := (nxt h)(x := head_next h)\<rparr>;
          h = h\<lparr>prv := (prv h)(x := None)\<rparr>;
          h = (case head_next h of
                 Some f \<Rightarrow> h\<lparr>prv := (prv h)(f := Some x)\<rparr>
               | None \<Rightarrow> h\<lparr>head_prev := Some x\<rparr>)
      in h\<lparr>head_next := Some x\<rparr>)"

definition QMGR_LIST_LINK :: "addr option \<Rightarrow> addr \<Rightarrow> addr option \<Rightarrow> qmgr_list \<Rightarrow> qmgr_list" where
  "QMGR_LIST_LINK pred x succ h =
     (let h = h\<lparr>prv := (prv h)(x := pred)\<rparr>;
          h = h\<lparr>nxt := (nxt h)(x := succ)\<rparr>;
          h = (case pred of
                 Some p \<Rightarrow> h\<lparr>nxt := (nxt h)(p := Some x)\<rparr>
               | None \<Rightarrow> h\<lparr>head_next := Some x\<rparr>)
      in (case succ of
            Some n \<Rightarrow> h\<lparr>prv := (prv h)(n := Some x)\<rparr>
          | None \<Rightarrow> h\<lparr>head_prev := Some x\<rparr>))"

definition QMGR_LIST_UNLINK :: "addr \<Rightarrow> qmgr_list \<Rightarrow> qmgr_list" where
  "QMGR_LIST_UNLINK x h =
     (let next = nxt h x;
          prev = prv h x;
          h = (case prev of
                 Some p \<Rightarrow> h\<lparr>nxt := (nxt h)(p := next)\<rparr>
               | None \<Rightarrow> h\<lparr>head_next := next\<rparr>);
          h = (case next of
                 Some n \<Rightarrow> h\<lparr>prv := (prv h)(n := prev)\<rparr>
               | None \<Rightarrow> h\<lparr>head_prev := prev\<rparr>)
      in h\<lparr>nxt := (nxt h)(x := None), prv := (prv h)(x := None)\<rparr>)"

text \<open>The six assignments of the macro, in order. It is only used on non-empty lists.\<close>

definition QMGR_LIST_ROTATE :: "addr \<Rightarrow> qmgr_list \<Rightarrow> qmgr_list" where
  "QMGR_LIST_ROTATE x h =
     (let h = set_prv (head_next h) (head_prev h) h;
          h = set_nxt (head_prev h) (head_next h) h;
          h = h\<lparr>head_next := nxt h x\<rparr>;
          h = set_prv (head_next h) None h;
          h = h\<lparr>head_prev := Some x\<rparr>
      in h\<lparr>nxt := (nxt h)(x := None)\<rparr>)"

text \<open>The loops of the queue manager start at \<open>head_next\<close> and follow \<open>nxt\<close>; \<open>n\<close> bounds the walk.\<close>

fun walk :: "nat \<Rightarrow> (addr \<Rightarrow> addr option) \<Rightarrow> addr option \<Rightarrow> addr list" where
  "walk 0 nx a = []"
| "walk (Suc n) nx None = []"
| "walk (Suc n) nx (Some x) = x # walk n nx (nx x)"

section \<open>Representation\<close>

fun first_opt :: "'a list \<Rightarrow> 'a option" where
  "first_opt [] = None"
| "first_opt (x # xs) = Some x"

fun last_opt :: "'a list \<Rightarrow> 'a option" where
  "last_opt [] = None"
| "last_opt [x] = Some x"
| "last_opt (x # y # xs) = last_opt (y # xs)"

text \<open>\<open>first_or a xs\<close> is the first element of \<open>xs\<close>, or the pointer \<open>a\<close> that follows it.\<close>

definition first_or :: "'a option \<Rightarrow> 'a list \<Rightarrow> 'a option" where
  "first_or a xs = (case xs of [] \<Rightarrow> a | x # _ \<Rightarrow> Some x)"

definition last_or :: "'a option \<Rightarrow> 'a list \<Rightarrow> 'a option" where
  "last_or a xs = (case last_opt xs of None \<Rightarrow> a | Some x \<Rightarrow> Some x)"

fun segment :: "(addr \<Rightarrow> addr option) \<Rightarrow> (addr \<Rightarrow> addr option) \<Rightarrow>
    addr option \<Rightarrow> addr list \<Rightarrow> addr option \<Rightarrow> bool" where
  "segment nx pv before [] after = True"
| "segment nx pv before (x # xs) after \<longleftrightarrow>
     pv x = before \<and> nx x = first_or after xs \<and> segment nx pv (Some x) xs after"

definition represents :: "qmgr_list \<Rightarrow> addr list \<Rightarrow> bool" where
  "represents h xs \<longleftrightarrow> distinct xs \<and> head_next h = first_or None xs \<and> head_prev h = last_or None xs
     \<and> segment (nxt h) (prv h) None xs None"

lemma first_or_simps [simp]:
  "first_or a [] = a" "first_or a (x # xs) = Some x"
  by (simp_all add: first_or_def)

lemma last_opt_append [simp]:
  "last_opt (xs @ y # ys) = last_opt (y # ys)"
proof (induction xs)
  case (Cons x xs)
  then show ?case by (cases xs) auto
qed simp

lemma last_opt_None_iff [simp]: "last_opt xs = None \<longleftrightarrow> xs = []"
  by (induction xs rule: last_opt.induct) auto

lemma last_opt_Some: "last_opt xs = Some l \<Longrightarrow> \<exists>ys. xs = ys @ [l]"
  by (cases xs rule: rev_cases) auto

lemma last_or_simps [simp]:
  "last_or a [] = a" "last_or a (xs @ [x]) = Some x" "last_or a [x] = Some x"
  "last_or a (x # xs) = last_or (Some x) xs"
  "last_or a (xs @ x # ys) = last_or (Some x) ys"
proof -
  show "last_or a [] = a" "last_or a (xs @ [x]) = Some x" "last_or a [x] = Some x"
    by (simp_all add: last_or_def)
  have cons: "last_or a (x # xs) = last_or (Some x) xs" for a x and xs :: "'a list"
    by (cases xs) (auto simp: last_or_def split: option.split)
  then show "last_or a (x # xs) = last_or (Some x) xs" .
  have "last_or a (xs @ x # ys) = last_or a (x # ys)"
    by (simp add: last_or_def)
  then show "last_or a (xs @ x # ys) = last_or (Some x) ys"
    by (simp add: cons)
qed

lemma first_or_append [simp]: "first_or a (xs @ ys) = first_or (first_or a ys) xs"
  by (cases xs) auto

lemma segment_append [simp]:
  "segment nx pv b (xs @ ys) a \<longleftrightarrow>
     segment nx pv b xs (first_or a ys) \<and> segment nx pv (last_or b xs) ys a"
  by (induction xs arbitrary: b) auto

lemma segment_frame:
  assumes "\<And>x. x \<in> set xs \<Longrightarrow> nx' x = nx x \<and> pv' x = pv x"
  shows "segment nx' pv' b xs a = segment nx pv b xs a"
  using assms by (induction xs arbitrary: b) auto

lemma segment_upd_outside [simp]:
  "x \<notin> set xs \<Longrightarrow> segment (nx(x := v)) pv b xs a = segment nx pv b xs a"
  "x \<notin> set xs \<Longrightarrow> segment nx (pv(x := v)) b xs a = segment nx pv b xs a"
  by (rule segment_frame, force)+

section \<open>Each macro implements the list operation\<close>

lemma represents_init: "represents (QMGR_LIST_INIT h) []"
  by (simp add: represents_def QMGR_LIST_INIT_def)

lemma represents_append:
  assumes "represents h xs" and "x \<notin> set xs"
  shows "represents (QMGR_LIST_APPEND x h) (xs @ [x])"
  using assms
  by (cases xs rule: rev_cases) (auto simp: represents_def QMGR_LIST_APPEND_def Let_def)

lemma represents_prepend:
  assumes "represents h xs" and "x \<notin> set xs"
  shows "represents (QMGR_LIST_PREPEND x h) (x # xs)"
  using assms
  by (cases xs) (auto simp: represents_def QMGR_LIST_PREPEND_def Let_def)

lemma represents_link:
  assumes "represents h (as @ bs)" and "x \<notin> set (as @ bs)"
  shows "represents (QMGR_LIST_LINK (last_or None as) x (first_or None bs) h) (as @ x # bs)"
  using assms
  by (cases as rule: rev_cases; cases bs) (auto simp: represents_def QMGR_LIST_LINK_def Let_def)

lemma represents_unlink_split:
  assumes "represents h (as @ x # bs)"
  shows "represents (QMGR_LIST_UNLINK x h) (as @ bs)"
  using assms
  by (cases as rule: rev_cases; cases bs) (auto simp: represents_def QMGR_LIST_UNLINK_def Let_def)

lemma represents_unlink:
  assumes "represents h xs" and "x \<in> set xs"
  shows "represents (QMGR_LIST_UNLINK x h) (remove1 x xs)"
proof -
  from assms(2) obtain as bs where xs: "xs = as @ x # bs" and "x \<notin> set as"
    by (meson split_list_first)
  then show ?thesis
    using represents_unlink_split assms(1) by (simp add: remove1_split)
qed

lemma set_nxt_simps [simp]:
  "set_nxt None v h = h" "set_nxt (Some x) v h = h\<lparr>nxt := (nxt h)(x := v)\<rparr>"
  "set_prv None v h = h" "set_prv (Some x) v h = h\<lparr>prv := (prv h)(x := v)\<rparr>"
  by (simp_all add: set_nxt_def set_prv_def)

lemma two_ended_cases:
  obtains "xs = []" | x where "xs = [x]" | x ys z where "xs = x # ys @ [z]"
  by (cases xs; cases "tl xs" rule: rev_cases) auto

lemma represents_rotate:
  assumes "represents h (as @ x # bs)"
  shows "represents (QMGR_LIST_ROTATE x h) (bs @ as @ [x])"
  using assms
  by (cases as; cases bs rule: two_ended_cases)
    (auto simp: represents_def QMGR_LIST_ROTATE_def Let_def)

text \<open>Following \<open>nxt\<close> from the head visits exactly the represented list, and then stops.\<close>

lemma walk_segment:
  "segment nx pv b xs None \<Longrightarrow> length xs < n \<Longrightarrow> walk n nx (first_or None xs) = xs"
proof (induction xs arbitrary: b n)
  case Nil
  then show ?case by (cases n) auto
next
  case (Cons x xs)
  then show ?case by (cases n) auto
qed

lemma walk_represents:
  assumes "represents h xs" and "length xs < n"
  shows "walk n (nxt h) (head_next h) = xs"
  using assms walk_segment by (auto simp: represents_def)

section \<open>The interface\<close>

text \<open>
  What the queue manager relies on: a representation of lists with the operations that the
  macros provide. The client lemmas are the two idioms of the source: moving an object to the
  other end of its own list, and round-robin selection by rotation.
\<close>

locale entry_list =
  fixes rep :: "'h \<Rightarrow> 'a list \<Rightarrow> bool"
    and append_op prepend_op unlink_op rotate_op :: "'a \<Rightarrow> 'h \<Rightarrow> 'h"
  assumes rep_append: "rep h xs \<Longrightarrow> x \<notin> set xs \<Longrightarrow> rep (append_op x h) (xs @ [x])"
    and rep_prepend: "rep h xs \<Longrightarrow> x \<notin> set xs \<Longrightarrow> rep (prepend_op x h) (x # xs)"
    and rep_unlink: "rep h (as @ x # bs) \<Longrightarrow> rep (unlink_op x h) (as @ bs)"
    and rep_rotate: "rep h (as @ x # bs) \<Longrightarrow> rep (rotate_op x h) (bs @ as @ [x])"
    and rep_distinct: "rep h xs \<Longrightarrow> distinct xs"
begin

lemma move_to_end:
  assumes "rep h (as @ x # bs)"
  shows "rep (append_op x (unlink_op x h)) (as @ bs @ [x])"
proof -
  have "x \<notin> set (as @ bs)" using rep_distinct [OF assms] by auto
  then show ?thesis using rep_append [OF rep_unlink [OF assms]] by simp
qed

lemma unlink_prepend:
  assumes "rep h (x # xs)"
  shows "rep (prepend_op x (unlink_op x h)) (x # xs)"
proof -
  have "x \<notin> set xs" using rep_distinct [OF assms] by auto
  then show ?thesis using rep_prepend rep_unlink [of h "[]"] assms by simp
qed

text \<open>Rotating to every element of the list in turn restores the original order.\<close>

fun rotate_through :: "'a list \<Rightarrow> 'h \<Rightarrow> 'h" where
  "rotate_through [] h = h"
| "rotate_through (x # xs) h = rotate_through xs (rotate_op x h)"

lemma rotate_through_rep:
  "rep h (xs @ ys) \<Longrightarrow> rep (rotate_through xs h) (ys @ xs)"
proof (induction xs arbitrary: h ys)
  case (Cons x xs)
  then have "rep (rotate_op x h) (xs @ ys @ [x])"
    using rep_rotate [of h "[]" x "xs @ ys"] by simp
  then have "rep (rotate_through xs (rotate_op x h)) ((ys @ [x]) @ xs)"
    by (rule Cons.IH)
  then show ?case by simp
qed simp

lemma round_robin: "rep h xs \<Longrightarrow> rep (rotate_through xs h) xs"
  using rotate_through_rep [of h xs "[]"] by simp

end

lemma represents_distinct: "represents h xs \<Longrightarrow> distinct xs"
  by (simp add: represents_def)

interpretation qlist: entry_list represents QMGR_LIST_APPEND QMGR_LIST_PREPEND
  QMGR_LIST_UNLINK QMGR_LIST_ROTATE
  by unfold_locales
    (fact represents_append represents_prepend represents_unlink_split represents_rotate
      represents_distinct)+

section \<open>Properties\<close>

text \<open>
  C20: each list macro of qmgr.h implements its list operation on a well-formed doubly-linked
  list, so that following the next pointers afterwards visits exactly: the list with the object
  appended, prepended, linked between its neighbours, removed, or (rotation) the elements after
  the object, then those before it, then the object itself.
\<close>

theorem qmgr_list_macros_refine:
  assumes "represents h (as @ bs)" and "x \<notin> set (as @ bs)" and "represents k (cs @ y # ds)"
    and "length as + length bs + length cs + length ds + 1 < n"
  shows "walk n (nxt (QMGR_LIST_APPEND x h)) (head_next (QMGR_LIST_APPEND x h)) = as @ bs @ [x]
    \<and> walk n (nxt (QMGR_LIST_PREPEND x h)) (head_next (QMGR_LIST_PREPEND x h)) = x # as @ bs
    \<and> (let l = QMGR_LIST_LINK (last_or None as) x (first_or None bs) h
        in represents l (as @ x # bs) \<and> walk n (nxt l) (head_next l) = as @ x # bs)
    \<and> (let u = QMGR_LIST_UNLINK y k in represents u (cs @ ds) \<and> walk n (nxt u) (head_next u) = cs @ ds)
    \<and> (let r = QMGR_LIST_ROTATE y k in represents r (ds @ cs @ [y]) \<and> walk n (nxt r) (head_next r) = ds @ cs @ [y])"
  using assms represents_append [OF assms(1,2)] represents_prepend [OF assms(1,2)]
    represents_link [OF assms(1,2)] represents_unlink_split [OF assms(3)] represents_rotate [OF assms(3)]
  by (auto simp: Let_def walk_represents)

definition sample_list :: "addr list \<Rightarrow> qmgr_list" where
  "sample_list xs = fold QMGR_LIST_APPEND xs
     \<lparr>head_next = None, head_prev = None, nxt = (\<lambda>_. None), prv = (\<lambda>_. None)\<rparr>"

lemma represents_sample: "represents (sample_list [1, 2, 3]) [1, 2, 3]"
  by (simp add: sample_list_def represents_def QMGR_LIST_APPEND_def)

theorem qmgr_list_macros_refine_witness:
  "walk 9 (nxt (QMGR_LIST_ROTATE 2 (sample_list [1, 2, 3])))
     (head_next (QMGR_LIST_ROTATE 2 (sample_list [1, 2, 3]))) = [3, 1, 2]"
  using qmgr_list_macros_refine [of "sample_list [1, 2, 3]" "[1, 2]" "[3]" 7
    "sample_list [1, 2, 3]" "[1]" 2 "[3]" 9] represents_sample
  by (simp add: Let_def)

end
