(* ===== verification/Qmgr_State.thy ===== *)
theory Qmgr_State
  imports Postfix_Prelude "HOL-Library.Word"
begin

text \<open>
  The data structures of the queue manager (\<^verbatim>\<open>src/src/qmgr/qmgr.h\<close>), as records in a typed
  store. Every C struct has its record with the fields the scheduler reads and writes; pointers
  are addresses (\<open>None\<close> is the null pointer), the doubly-linked lists of the source are lists of
  addresses (theory \<open>Qmgr_List\<close> proves that the list macros implement the operations used here),
  and hash tables are maps. \<^verbatim>\<open>double\<close> is modelled by exact rationals, \<^verbatim>\<open>int\<close> and
  \<^verbatim>\<open>time_t\<close> counters by unbounded integers, flag words by 32-bit words.
\<close>

unbundle bit_operations_syntax

type_synonym transport_id = nat
type_synonym queue_id = nat
type_synonym entry_id = nat
type_synonym peer_id = nat
type_synonym job_id = nat
type_synonym message_id = nat
type_synonym alloc_id = nat
type_synonym vstream = nat

section \<open>Structures\<close>

record dsn =
  dsn_status :: string
  dsn_reason :: string

text \<open>\<^verbatim>\<open>DSN_COPY()\<close> calls \<^verbatim>\<open>dsn_create()\<close>, which insists on a status and a reason.\<close>

definition dsn_ok :: "dsn \<Rightarrow> bool" where
  "dsn_ok dsn \<longleftrightarrow> dsn_status dsn \<noteq> [] \<and> dsn_reason dsn \<noteq> []"

definition DSN_COPY :: "dsn \<Rightarrow> dsn outcome" where
  "DSN_COPY dsn = (if dsn_status dsn = [] then Panic ''dsn_create''
     else if dsn_reason dsn = [] then Panic ''dsn_create'' else Ret dsn)"

lemma DSN_COPY_ok [simp]: "dsn_ok dsn \<Longrightarrow> DSN_COPY dsn = Ret dsn"
  by (simp add: DSN_COPY_def dsn_ok_def)

text \<open>
  \<^verbatim>\<open>struct RECIPIENT\<close>; of the application-specific part the queue manager uses the
  destination queue, which is null for a recipient that is not to be delivered now.
\<close>

record recipient =
  rcpt_offset :: int
  rcpt_dsn_orcpt :: string
  rcpt_dsn_notify :: int
  rcpt_orig_addr :: string
  rcpt_address :: string
  rcpt_queue :: "nat option"

text \<open>\<^verbatim>\<open>struct QMGR_FEEDBACK\<close> and the two index values in use.\<close>

record qmgr_feedback =
  hysteresis :: int
  base :: rat
  index :: int

definition QMGR_FEEDBACK_IDX_NONE :: int where "QMGR_FEEDBACK_IDX_NONE = 0"
definition QMGR_FEEDBACK_IDX_WIN :: int where "QMGR_FEEDBACK_IDX_WIN = 1"

definition QMGR_FEEDBACK_VAL :: "qmgr_feedback \<Rightarrow> int \<Rightarrow> rat" where
  "QMGR_FEEDBACK_VAL fb win =
     (if index fb = QMGR_FEEDBACK_IDX_NONE then base fb else base fb / of_int win)"

text \<open>\<^verbatim>\<open>struct QMGR_TRANSPORT\<close>.\<close>

record transport =
  t_flags :: "32 word"
  t_pending :: int
  t_name :: string
  t_dest_concurrency_limit :: int
  t_init_dest_concurrency :: int
  t_recipient_limit :: int
  t_rcpt_per_stack :: int
  t_rcpt_unused :: int
  t_refill_limit :: int
  t_refill_delay :: int
  t_slot_cost :: int
  t_slot_loan :: int
  t_slot_loan_factor :: int
  t_min_slots :: int
  t_queue_byname :: "string \<rightharpoonup> queue_id"
  t_queue_list :: "queue_id list"
  t_job_byname :: "string \<rightharpoonup> job_id"
  t_job_list :: "job_id list"
  t_job_bytime :: "job_id list"
  t_job_current :: "job_id option"
  t_job_next_unread :: "job_id option"
  t_candidate_cache :: "job_id option"
  t_candidate_cache_current :: "job_id option"
  t_candidate_cache_time :: int
  t_blocker_tag :: int
  t_dsn :: "dsn option"
  t_pos_feedback :: qmgr_feedback
  t_neg_feedback :: qmgr_feedback
  t_fail_cohort_limit :: int
  t_xport_rate_delay :: int
  t_rate_delay :: int

definition QMGR_TRANSPORT_STAT_DEAD :: "32 word" where "QMGR_TRANSPORT_STAT_DEAD = 2"
definition QMGR_TRANSPORT_STAT_RATE_LOCK :: "32 word" where "QMGR_TRANSPORT_STAT_RATE_LOCK = 4"

definition QMGR_TRANSPORT_THROTTLED :: "transport \<Rightarrow> bool" where
  "QMGR_TRANSPORT_THROTTLED t \<longleftrightarrow> t_flags t AND QMGR_TRANSPORT_STAT_DEAD \<noteq> 0"

text \<open>\<^verbatim>\<open>struct QMGR_QUEUE\<close>; the window doubles as the queue status.\<close>

record queue =
  q_dflags :: "32 word"
  q_last_done :: int
  q_name :: string
  q_nexthop :: string
  q_todo_refcount :: int
  q_busy_refcount :: int
  q_window :: int
  q_success :: rat
  q_failure :: rat
  q_fail_cohorts :: rat
  q_transport :: transport_id
  q_todo :: "entry_id list"
  q_busy :: "entry_id list"
  q_dsn :: "dsn option"
  q_clog_time_to_warn :: int
  q_blocker_tag :: int

definition QMGR_QUEUE_STAT_THROTTLED :: int where "QMGR_QUEUE_STAT_THROTTLED = 0"
definition QMGR_QUEUE_STAT_SUSPENDED :: int where "QMGR_QUEUE_STAT_SUSPENDED = - 1"

definition QMGR_QUEUE_READY :: "queue \<Rightarrow> bool" where
  "QMGR_QUEUE_READY q \<longleftrightarrow> q_window q > 0"

definition QMGR_QUEUE_THROTTLED :: "queue \<Rightarrow> bool" where
  "QMGR_QUEUE_THROTTLED q \<longleftrightarrow> q_window q = QMGR_QUEUE_STAT_THROTTLED"

definition QMGR_QUEUE_SUSPENDED :: "queue \<Rightarrow> bool" where
  "QMGR_QUEUE_SUSPENDED q \<longleftrightarrow> q_window q = QMGR_QUEUE_STAT_SUSPENDED"

lemmas queue_status_defs =
  QMGR_QUEUE_READY_def QMGR_QUEUE_THROTTLED_def QMGR_QUEUE_SUSPENDED_def
  QMGR_QUEUE_STAT_THROTTLED_def QMGR_QUEUE_STAT_SUSPENDED_def

text \<open>\<^verbatim>\<open>struct QMGR_ENTRY\<close>.\<close>

record entry =
  e_stream :: "vstream option"
  e_message :: message_id
  e_rcpt_list :: "recipient list"
  e_queue :: queue_id
  e_peer :: peer_id

datatype which_queue = QMGR_QUEUE_TODO | QMGR_QUEUE_BUSY

text \<open>\<^verbatim>\<open>struct QMGR_PEER\<close>.\<close>

record peer =
  p_job :: job_id
  p_queue :: queue_id
  p_refcount :: int
  p_entry_list :: "entry_id list"

text \<open>\<^verbatim>\<open>struct QMGR_JOB\<close>.\<close>

record job =
  j_message :: message_id
  j_transport :: transport_id
  j_stack_parent :: "job_id option"
  j_stack_children :: "job_id list"
  j_stack_level :: int
  j_blocker_tag :: int
  j_peer_byname :: "string \<rightharpoonup> peer_id"
  j_peer_list :: "peer_id list"
  j_slots_used :: int
  j_slots_available :: int
  j_selected_entries :: int
  j_read_entries :: int
  j_rcpt_count :: int
  j_rcpt_limit :: int

text \<open>\<^verbatim>\<open>struct QMGR_MESSAGE\<close>: the fields the scheduler uses.\<close>

record message =
  m_flags :: "32 word"
  m_queue_id :: string
  m_refcount :: int
  m_queued_time :: int
  m_refill_time :: int
  m_rcpt_offset :: int
  m_rcpt_count :: int
  m_rcpt_limit :: int
  m_rcpt_unread :: int
  m_job_list :: "job_id list"
  m_fp :: bool
  m_single_rcpt :: bool
  m_rcpt_list :: "recipient list"

text \<open>\<^verbatim>\<open>struct QMGR_TRANSPORT_ALLOC\<close>: a pending delivery agent connection.\<close>

record alloc =
  a_transport :: transport_id
  a_stream :: "vstream option"

section \<open>The store\<close>

text \<open>Timer call-backs, with their context argument.\<close>

datatype timer =
    Tm_queue_resume queue_id
  | Tm_queue_unthrottle queue_id
  | Tm_transport_unthrottle transport_id
  | Tm_transport_event alloc_id
  | Tm_transport_abort alloc_id
  | Tm_transport_rate_event alloc_id
  | Tm_deliver_abort entry_id
  | Tm_deferred_run

text \<open>What kind of object an address was given to.\<close>

datatype heap_kind = Queue_obj | Entry_obj | Peer_obj | Job_obj | Message_obj | Alloc_obj | Transport_obj

record qmgr =
  transport_list :: "transport_id list"
  transport_byname :: "string \<rightharpoonup> transport_id"
  transports :: "transport_id \<Rightarrow> transport"
  queues :: "queue_id \<Rightarrow> queue"
  entries :: "entry_id \<Rightarrow> entry"
  peers :: "peer_id \<Rightarrow> peer"
  jobs :: "job_id \<Rightarrow> job"
  messages :: "message_id \<Rightarrow> message"
  allocs :: "alloc_id \<Rightarrow> alloc"
  queue_count :: int
  recipient_count :: int
  message_count :: int
  deliver_concurrency :: int
  heap_next :: nat
  heap_freed :: "(heap_kind \<times> nat) list"
  timers :: "timer \<rightharpoonup> int"
  transport_events :: "alloc_id list"
  deliver_events :: "entry_id list"
  config_dict :: "string \<rightharpoonup> string"
  event_now :: int
  sane_now :: int

text \<open>main.cf parameters that the modelled operations read directly.\<close>

record config =
  var_min_backoff_time :: int
  var_transport_retry_time :: int
  var_daemon_timeout :: int
  var_qmgr_rcpt_limit :: int
  var_qmgr_active_limit :: int
  var_helpful_warnings :: bool
  var_qmgr_clog_warn_time :: int
  var_dest_con_limit :: int
  var_dest_rcpt_limit :: int
  var_init_dest_concurrency :: int
  var_xport_rate_delay :: int
  var_dest_rate_delay :: int
  var_delivery_slot_cost :: int
  var_delivery_slot_loan :: int
  var_delivery_slot_discount :: int
  var_min_delivery_slots :: int
  var_xport_rcpt_limit :: int
  var_stack_rcpt_limit :: int
  var_xport_refill_limit :: int
  var_xport_refill_delay :: int
  var_conc_pos_feedback :: string
  var_conc_neg_feedback :: string
  var_conc_cohort_limit :: int

text \<open>
  \<^verbatim>\<open>mymalloc()\<close> returns an address that was never used; \<^verbatim>\<open>myfree()\<close> retires one.
  \<^verbatim>\<open>event_request_timer()\<close> sets a timer or changes its time, \<^verbatim>\<open>event_cancel_timer()\<close>
  removes it if it is set.
\<close>

definition mymalloc :: "qmgr \<Rightarrow> nat \<times> qmgr" where
  "mymalloc s = (heap_next s, s\<lparr>heap_next := Suc (heap_next s)\<rparr>)"

definition myfree :: "heap_kind \<Rightarrow> nat \<Rightarrow> qmgr \<Rightarrow> qmgr" where
  "myfree k a s = s\<lparr>heap_freed := (k, a) # heap_freed s\<rparr>"

definition event_request_timer :: "timer \<Rightarrow> int \<Rightarrow> qmgr \<Rightarrow> qmgr" where
  "event_request_timer tm delay s = s\<lparr>timers := (timers s)(tm \<mapsto> event_now s + delay)\<rparr>"

definition event_cancel_timer :: "timer \<Rightarrow> qmgr \<Rightarrow> qmgr" where
  "event_cancel_timer tm s = s\<lparr>timers := (timers s)(tm := None)\<rparr>"

definition upd_transport :: "transport_id \<Rightarrow> (transport \<Rightarrow> transport) \<Rightarrow> qmgr \<Rightarrow> qmgr" where
  "upd_transport t f s = s\<lparr>transports := (transports s)(t := f (transports s t))\<rparr>"

definition upd_queue :: "queue_id \<Rightarrow> (queue \<Rightarrow> queue) \<Rightarrow> qmgr \<Rightarrow> qmgr" where
  "upd_queue q f s = s\<lparr>queues := (queues s)(q := f (queues s q))\<rparr>"

definition upd_entry :: "entry_id \<Rightarrow> (entry \<Rightarrow> entry) \<Rightarrow> qmgr \<Rightarrow> qmgr" where
  "upd_entry e f s = s\<lparr>entries := (entries s)(e := f (entries s e))\<rparr>"

definition upd_peer :: "peer_id \<Rightarrow> (peer \<Rightarrow> peer) \<Rightarrow> qmgr \<Rightarrow> qmgr" where
  "upd_peer p f s = s\<lparr>peers := (peers s)(p := f (peers s p))\<rparr>"

definition upd_job :: "job_id \<Rightarrow> (job \<Rightarrow> job) \<Rightarrow> qmgr \<Rightarrow> qmgr" where
  "upd_job j f s = s\<lparr>jobs := (jobs s)(j := f (jobs s j))\<rparr>"

definition upd_message :: "message_id \<Rightarrow> (message \<Rightarrow> message) \<Rightarrow> qmgr \<Rightarrow> qmgr" where
  "upd_message m f s = s\<lparr>messages := (messages s)(m := f (messages s m))\<rparr>"

definition upd_alloc :: "alloc_id \<Rightarrow> (alloc \<Rightarrow> alloc) \<Rightarrow> qmgr \<Rightarrow> qmgr" where
  "upd_alloc a f s = s\<lparr>allocs := (allocs s)(a := f (allocs s a))\<rparr>"

lemmas store_defs [simp] =
  mymalloc_def myfree_def event_request_timer_def event_cancel_timer_def
  upd_transport_def upd_queue_def upd_entry_def upd_peer_def upd_job_def upd_message_def upd_alloc_def

text \<open>
  Read events on the stream of a pending connection (\<^verbatim>\<open>qmgr_transport_event\<close>) or of a
  delivery in progress (\<^verbatim>\<open>qmgr_deliver_update\<close>) are lists of the call-back contexts.
\<close>

text \<open>The transport of a queue, of a job, and the message of a job.\<close>

abbreviation queue_transport :: "qmgr \<Rightarrow> queue_id \<Rightarrow> transport" where
  "queue_transport s q \<equiv> transports s (q_transport (queues s q))"

abbreviation job_transport :: "qmgr \<Rightarrow> job_id \<Rightarrow> transport" where
  "job_transport s j \<equiv> transports s (j_transport (jobs s j))"

abbreviation job_message :: "qmgr \<Rightarrow> job_id \<Rightarrow> message" where
  "job_message s j \<equiv> messages s (j_message (jobs s j))"

section \<open>The initial state\<close>

text \<open>Contents of addresses that have not been given out, and the state of a process that just started.\<close>

definition no_feedback :: qmgr_feedback where
  "no_feedback = \<lparr>hysteresis = 1, base = 1, index = QMGR_FEEDBACK_IDX_NONE\<rparr>"

definition blank_transport :: transport where
  "blank_transport = \<lparr>t_flags = 0, t_pending = 0, t_name = [], t_dest_concurrency_limit = 0,
     t_init_dest_concurrency = 1, t_recipient_limit = 0, t_rcpt_per_stack = 0, t_rcpt_unused = 0, t_refill_limit = 0,
     t_refill_delay = 0, t_slot_cost = 0, t_slot_loan = 0, t_slot_loan_factor = 0, t_min_slots = 0,
     t_queue_byname = Map.empty, t_queue_list = [], t_job_byname = Map.empty, t_job_list = [], t_job_bytime = [],
     t_job_current = None, t_job_next_unread = None, t_candidate_cache = None, t_candidate_cache_current = None,
     t_candidate_cache_time = 0, t_blocker_tag = 1, t_dsn = None, t_pos_feedback = no_feedback,
     t_neg_feedback = no_feedback, t_fail_cohort_limit = 0, t_xport_rate_delay = 0, t_rate_delay = 0\<rparr>"

definition blank_queue :: queue where
  "blank_queue = \<lparr>q_dflags = 0, q_last_done = 0, q_name = [], q_nexthop = [], q_todo_refcount = 0,
     q_busy_refcount = 0, q_window = 1, q_success = 0, q_failure = 0, q_fail_cohorts = 0, q_transport = 0,
     q_todo = [], q_busy = [], q_dsn = None, q_clog_time_to_warn = 0, q_blocker_tag = 0\<rparr>"

definition blank_entry :: entry where
  "blank_entry = \<lparr>e_stream = None, e_message = 0, e_rcpt_list = [], e_queue = 0, e_peer = 0\<rparr>"

definition blank_peer :: peer where
  "blank_peer = \<lparr>p_job = 0, p_queue = 0, p_refcount = 0, p_entry_list = []\<rparr>"

definition blank_job :: job where
  "blank_job = \<lparr>j_message = 0, j_transport = 0, j_stack_parent = None, j_stack_children = [], j_stack_level = 0,
     j_blocker_tag = 0, j_peer_byname = Map.empty, j_peer_list = [], j_slots_used = 0, j_slots_available = 0,
     j_selected_entries = 0, j_read_entries = 0, j_rcpt_count = 0, j_rcpt_limit = 0\<rparr>"

definition blank_message :: message where
  "blank_message = \<lparr>m_flags = 0, m_queue_id = [], m_refcount = 0, m_queued_time = 0, m_refill_time = 0,
     m_rcpt_offset = 0, m_rcpt_count = 0, m_rcpt_limit = 0, m_rcpt_unread = 0, m_job_list = [], m_fp = False,
     m_single_rcpt = False, m_rcpt_list = []\<rparr>"

definition qmgr_initial :: qmgr where
  "qmgr_initial = \<lparr>transport_list = [], transport_byname = Map.empty, transports = (\<lambda>_. blank_transport),
     queues = (\<lambda>_. blank_queue), entries = (\<lambda>_. blank_entry), peers = (\<lambda>_. blank_peer), jobs = (\<lambda>_. blank_job),
     messages = (\<lambda>_. blank_message), allocs = (\<lambda>_. \<lparr>a_transport = 0, a_stream = None\<rparr>), queue_count = 0,
     recipient_count = 0, message_count = 0, deliver_concurrency = 0, heap_next = 0, heap_freed = [],
     timers = Map.empty, transport_events = [], deliver_events = [], config_dict = Map.empty,
     event_now = 0, sane_now = 0\<rparr>"

lemmas blank_defs = no_feedback_def blank_transport_def blank_queue_def blank_entry_def blank_peer_def
  blank_job_def blank_message_def qmgr_initial_def

text \<open>The built-in values of the parameters.\<close>

definition demo_conf :: config where
  "demo_conf = \<lparr>var_min_backoff_time = 300, var_transport_retry_time = 60, var_daemon_timeout = 18000,
     var_qmgr_rcpt_limit = 20000, var_qmgr_active_limit = 20000, var_helpful_warnings = True,
     var_qmgr_clog_warn_time = 300, var_dest_con_limit = 20, var_dest_rcpt_limit = 50,
     var_init_dest_concurrency = 5, var_xport_rate_delay = 0, var_dest_rate_delay = 0,
     var_delivery_slot_cost = 5, var_delivery_slot_loan = 3, var_delivery_slot_discount = 50,
     var_min_delivery_slots = 3, var_xport_rcpt_limit = 20000, var_stack_rcpt_limit = 20000,
     var_xport_refill_limit = 100, var_xport_refill_delay = 5, var_conc_pos_feedback = ''1'',
     var_conc_neg_feedback = ''1'', var_conc_cohort_limit = 1\<rparr>"

end
