(* ===== verification/Qmgr_Queue.thy ===== *)
theory Qmgr_Queue
  imports Qmgr_State "HOL-Library.While_Combinator"
begin

text \<open>
  Per-destination queues: \<^verbatim>\<open>src/src/qmgr/qmgr_queue.c\<close> and the blocker bookkeeping of
  \<^verbatim>\<open>qmgr_job.c\<close> that the queue operations call. A queue is ready (positive window),
  throttled (window 0, back-off timer) or suspended (window -1, rate-delay timer); positive and
  negative delivery feedback adjust the window between one and the transport's limit.
\<close>

section \<open>Operations\<close>

definition qmgr_job_blocker_update :: "queue_id \<Rightarrow> qmgr \<Rightarrow> qmgr" where
  "qmgr_job_blocker_update q s =
     (let qu = queues s q; t = q_transport qu; xp = transports s t
      in if q_blocker_tag qu = t_blocker_tag xp then
           let s = (if q_window qu > q_busy_refcount qu \<and> q_todo qu \<noteq> [] then
                      upd_transport t (\<lambda>x. x\<lparr>t_blocker_tag := t_blocker_tag x + 2,
                         t_job_current := (case t_job_list x of [] \<Rightarrow> None | j # _ \<Rightarrow> Some j),
                         t_candidate_cache_current := None\<rparr>) s
                    else s)
           in if q_window qu > q_busy_refcount qu \<or> QMGR_QUEUE_THROTTLED qu
              then upd_queue q (\<lambda>x. x\<lparr>q_blocker_tag := 0\<rparr>) s
              else s
         else s)"

definition qmgr_queue_done :: "queue_id \<Rightarrow> qmgr \<Rightarrow> qmgr outcome" where
  "qmgr_queue_done q s =
     (let qu = queues s q; t = q_transport qu
      in if q_busy_refcount qu \<noteq> 0 \<or> q_todo_refcount qu \<noteq> 0 then Panic ''qmgr_queue_done''
         else if q_todo qu \<noteq> [] \<or> q_busy qu \<noteq> [] then Panic ''qmgr_queue_done''
         else if \<not> QMGR_QUEUE_READY qu then Panic ''qmgr_queue_done''
         else if q_dsn qu \<noteq> None then Panic ''qmgr_queue_done''
         else if t_queue_byname (transports s t) (q_name qu) = None then Panic ''htable_delete''
         else
           let s = upd_transport t (\<lambda>x. x\<lparr>t_queue_list := remove1 q (t_queue_list x),
                     t_queue_byname := (t_queue_byname x)(q_name qu := None)\<rparr>) s;
               s = s\<lparr>queue_count := queue_count s - 1\<rparr>
           in Ret (myfree Queue_obj q s))"

text \<open>The test that every event handler makes before it discards an empty queue.\<close>

definition queue_idle :: "queue \<Rightarrow> bool" where
  "queue_idle qu \<longleftrightarrow> QMGR_QUEUE_READY qu \<and> q_todo qu = [] \<and> q_busy qu = []"

definition qmgr_queue_resume :: "queue_id \<Rightarrow> qmgr \<Rightarrow> qmgr outcome" where
  "qmgr_queue_resume q s =
     (if \<not> QMGR_QUEUE_SUSPENDED (queues s q) then Panic ''qmgr_queue_resume''
      else let s = upd_queue q (\<lambda>x. x\<lparr>q_window := 1\<rparr>) s
           in if queue_idle (queues s q) then qmgr_queue_done q s
              else Ret (qmgr_job_blocker_update q s))"

definition qmgr_queue_suspend :: "queue_id \<Rightarrow> int \<Rightarrow> qmgr \<Rightarrow> qmgr outcome" where
  "qmgr_queue_suspend q delay s =
     (if \<not> QMGR_QUEUE_READY (queues s q) then Panic ''qmgr_queue_suspend''
      else if q_busy_refcount (queues s q) > 0 then Panic ''qmgr_queue_suspend''
      else Ret (event_request_timer (Tm_queue_resume q) delay
                  (upd_queue q (\<lambda>x. x\<lparr>q_window := QMGR_QUEUE_STAT_SUSPENDED\<rparr>) s)))"

text \<open>
  The two feedback loops, on (window, success, failure). \<open>None\<close> is a loop that does not end.
\<close>

definition success_loop :: "int \<Rightarrow> rat \<Rightarrow> int \<times> rat \<times> rat \<Rightarrow> (int \<times> rat \<times> rat) option" where
  "success_loop hyst feedback =
     while_option (\<lambda>(w, su, fa). su + feedback / 2 \<ge> of_int hyst)
       (\<lambda>(w, su, fa). (w + hyst, su - of_int hyst, 0))"

definition failure_loop :: "int \<Rightarrow> rat \<Rightarrow> int \<times> rat \<times> rat \<Rightarrow> (int \<times> rat \<times> rat) option" where
  "failure_loop hyst feedback =
     while_option (\<lambda>(w, su, fa). fa - feedback / 2 < 0)
       (\<lambda>(w, su, fa). (w - hyst, 0, fa + of_int hyst))"

text \<open>The adjustment that positive feedback makes to a ready queue.\<close>

definition positive_feedback :: "transport \<Rightarrow> queue \<Rightarrow> queue outcome" where
  "positive_feedback t qu =
     (if t_dest_concurrency_limit t = 0 \<or> t_dest_concurrency_limit t > q_window qu then
        if q_window qu < q_busy_refcount qu + t_init_dest_concurrency t then
          let feedback = QMGR_FEEDBACK_VAL (t_pos_feedback t) (q_window qu)
          in case success_loop (hysteresis (t_pos_feedback t)) feedback
                    (q_window qu, q_success qu + feedback, q_failure qu) of
               None \<Rightarrow> Diverge
             | Some (w, su, fa) \<Rightarrow>
                 Ret (qu\<lparr>q_window := (if t_dest_concurrency_limit t > 0 \<and> w > t_dest_concurrency_limit t
                                      then t_dest_concurrency_limit t else w),
                         q_success := su, q_failure := fa\<rparr>)
        else Ret qu
      else Ret qu)"

definition qmgr_queue_unthrottle :: "queue_id \<Rightarrow> qmgr \<Rightarrow> qmgr outcome" where
  "qmgr_queue_unthrottle q s =
     (let t = queue_transport s q
      in if \<not> QMGR_QUEUE_READY (queues s q) \<and> \<not> QMGR_QUEUE_THROTTLED (queues s q)
         then Panic ''qmgr_queue_unthrottle''
         else
           let s = upd_queue q (\<lambda>x. x\<lparr>q_fail_cohorts := 0\<rparr>) s
           in if QMGR_QUEUE_THROTTLED (queues s q) then
                let s = event_cancel_timer (Tm_queue_unthrottle q) s
                in if q_dsn (queues s q) = None then Panic ''qmgr_queue_unthrottle''
                   else Ret (upd_queue q (\<lambda>x. x\<lparr>q_dsn := None,
                          q_window := (if q_busy_refcount x > 0 then q_busy_refcount x
                                       else t_init_dest_concurrency t),
                          q_success := 0, q_failure := 0\<rparr>) s)
              else obind (positive_feedback t (queues s q)) (\<lambda>qu. Ret (upd_queue q (\<lambda>_. qu) s)))"

definition qmgr_queue_unthrottle_wrapper :: "queue_id \<Rightarrow> qmgr \<Rightarrow> qmgr outcome" where
  "qmgr_queue_unthrottle_wrapper q s =
     obind (qmgr_queue_unthrottle q s)
       (\<lambda>s. if queue_idle (queues s q) then qmgr_queue_done q s else Ret s)"

text \<open>The adjustment that negative feedback makes to a ready queue.\<close>

definition negative_feedback :: "transport \<Rightarrow> queue \<Rightarrow> queue outcome" where
  "negative_feedback t qu =
     (let feedback = QMGR_FEEDBACK_VAL (t_neg_feedback t) (q_window qu)
      in case failure_loop (hysteresis (t_neg_feedback t)) feedback
                (q_window qu, q_success qu, q_failure qu - feedback) of
           None \<Rightarrow> Diverge
         | Some (w, su, fa) \<Rightarrow>
             Ret (qu\<lparr>q_window := (if w < 1 then 1 else w), q_success := su, q_failure := fa\<rparr>))"

text \<open>Count the failure towards a pseudo-cohort, and declare the site dead at the limit.\<close>

definition count_fail_cohort :: "transport \<Rightarrow> queue \<Rightarrow> queue" where
  "count_fail_cohort t qu =
     (if QMGR_QUEUE_READY qu then
        let fc = q_fail_cohorts qu + 1 / of_int (q_window qu)
        in qu\<lparr>q_fail_cohorts := fc,
              q_window := (if t_fail_cohort_limit t > 0 \<and> fc \<ge> of_int (t_fail_cohort_limit t)
                           then QMGR_QUEUE_STAT_THROTTLED else q_window qu)\<rparr>
      else qu)"

definition qmgr_queue_throttle :: "config \<Rightarrow> queue_id \<Rightarrow> dsn \<Rightarrow> qmgr \<Rightarrow> qmgr outcome" where
  "qmgr_queue_throttle conf q dsn s =
     (let t = queue_transport s q
      in if \<not> QMGR_QUEUE_READY (queues s q) then Panic ''qmgr_queue_throttle''
         else if q_dsn (queues s q) \<noteq> None then Panic ''qmgr_queue_throttle''
         else
           let s = upd_queue q (count_fail_cohort t) s
           in obind (if QMGR_QUEUE_READY (queues s q) then negative_feedback t (queues s q)
                     else Ret (queues s q))
                (\<lambda>qu. let s = upd_queue q (\<lambda>_. qu) s
                      in if QMGR_QUEUE_THROTTLED qu then
                           obind (DSN_COPY dsn) (\<lambda>dsn.
                             Ret (upd_queue q (\<lambda>x. x\<lparr>q_dflags := 0\<rparr>)
                                 (event_request_timer (Tm_queue_unthrottle q) (var_min_backoff_time conf)
                                   (upd_queue q (\<lambda>x. x\<lparr>q_dsn := Some dsn\<rparr>) s))))
                         else Ret s))"

definition qmgr_queue_create :: "transport_id \<Rightarrow> string \<Rightarrow> string \<Rightarrow> qmgr \<Rightarrow> queue_id \<times> qmgr" where
  "qmgr_queue_create t name nexthop s =
     (let (q, s) = mymalloc s;
          s = s\<lparr>queue_count := queue_count s + 1\<rparr>;
          qu = \<lparr>q_dflags = 0, q_last_done = 0, q_name = name, q_nexthop = nexthop,
                q_todo_refcount = 0, q_busy_refcount = 0,
                q_window = t_init_dest_concurrency (transports s t),
                q_success = 0, q_failure = 0, q_fail_cohorts = 0, q_transport = t,
                q_todo = [], q_busy = [], q_dsn = None, q_clog_time_to_warn = 0, q_blocker_tag = 0\<rparr>;
          s = upd_queue q (\<lambda>_. qu) s
      in (q, upd_transport t (\<lambda>x. x\<lparr>t_queue_list := t_queue_list x @ [q],
               t_queue_byname := (t_queue_byname x)(name \<mapsto> q)\<rparr>) s))"

definition qmgr_queue_find :: "transport_id \<Rightarrow> string \<Rightarrow> qmgr \<Rightarrow> queue_id option" where
  "qmgr_queue_find t name s = t_queue_byname (transports s t) name"

text \<open>\<^verbatim>\<open>qmgr_enable.c\<close>: give a destination another chance, and drop it when it is empty.\<close>

definition qmgr_enable_queue :: "queue_id \<Rightarrow> qmgr \<Rightarrow> qmgr outcome" where
  "qmgr_enable_queue q s =
     obind (if QMGR_QUEUE_THROTTLED (queues s q) then qmgr_queue_unthrottle q s else Ret s)
       (\<lambda>s. if queue_idle (queues s q) then qmgr_queue_done q s else Ret s)"

section \<open>The feedback loops end\<close>

lemma ceiling_loop_decreases:
  fixes x :: rat
  assumes "0 < hyst" and "0 < x"
  shows "nat \<lceil>x - of_int hyst\<rceil> < nat \<lceil>x\<rceil>"
proof -
  have "\<lceil>x - of_int hyst\<rceil> = \<lceil>x\<rceil> - hyst" by simp
  moreover have "0 < \<lceil>x\<rceil>" using assms(2) by simp
  ultimately show ?thesis using assms(1) by linarith
qed

lemma success_loop_returns:
  assumes "0 < hyst"
  shows "\<exists>r. success_loop hyst fb st = Some r"
  unfolding success_loop_def
proof (rule measure_while_option_Some [where P = "\<lambda>_. True"
      and f = "\<lambda>(w, su, fa). nat \<lceil>su + fb / 2\<rceil>"], goal_cases)
  case (1 s)
  obtain w su fa where s: "s = (w, su, fa)" by (cases s) auto
  with 1 have "0 < su + fb / 2" using assms by (simp add: less_le_trans)
  then show ?case
    using ceiling_loop_decreases [OF assms, of "su + fb / 2"] s by (simp add: algebra_simps)
qed simp

lemma failure_loop_returns:
  assumes "0 < hyst"
  shows "\<exists>r. failure_loop hyst fb st = Some r"
  unfolding failure_loop_def
proof (rule measure_while_option_Some [where P = "\<lambda>_. True"
      and f = "\<lambda>(w, su, fa). nat \<lceil>fb / 2 - fa\<rceil>"], goal_cases)
  case (1 s)
  obtain w su fa where s: "s = (w, su, fa)" by (cases s) auto
  with 1 have "0 < fb / 2 - fa" by simp
  then show ?case
    using ceiling_loop_decreases [OF assms, of "fb / 2 - fa"] s by (simp add: algebra_simps)
qed simp

text \<open>What the loops leave: the window moved one way only, by whole hysteresis steps.\<close>

lemma success_loop_result:
  assumes "success_loop hyst fb (w, su, fa) = Some (w', su', fa')" and "0 < hyst"
  shows "w \<le> w' \<and> su' + fb / 2 < of_int hyst \<and> of_int (w' - w) + su' = su"
proof -
  let ?P = "\<lambda>(v, s', f'). w \<le> v \<and> of_int (v - w) + s' = su"
  have "?P (w', su', fa')"
    by (rule while_option_rule [OF _ assms(1) [unfolded success_loop_def]])
      (use assms(2) in \<open>auto simp: algebra_simps\<close>)
  moreover have "su' + fb / 2 < of_int hyst"
    using while_option_stop [OF assms(1) [unfolded success_loop_def]] by simp
  ultimately show ?thesis by simp
qed

lemma failure_loop_result:
  assumes "failure_loop hyst fb (w, su, fa) = Some (w', su', fa')" and "0 < hyst"
  shows "w' \<le> w \<and> fb / 2 \<le> fa' \<and> of_int (w - w') + fa = fa'"
proof -
  let ?P = "\<lambda>(v, s', f'). v \<le> w \<and> of_int (w - v) + fa = (f' :: rat)"
  have "?P (w', su', fa')"
    by (rule while_option_rule [OF _ assms(1) [unfolded failure_loop_def]])
      (use assms(2) in \<open>auto simp: algebra_simps\<close>)
  moreover have "fb / 2 \<le> fa'"
    using while_option_stop [OF assms(1) [unfolded failure_loop_def]] by simp
  ultimately show ?thesis by simp
qed

section \<open>Invariant\<close>

text \<open>
  A transport is configured consistently when its initial concurrency is positive and not above a
  limit, if there is one, a rate-limited destination is served by one process at a time, and the
  hysteresis of both feedback controls is positive.
\<close>

definition transport_ok :: "transport \<Rightarrow> bool" where
  "transport_ok t \<longleftrightarrow> 1 \<le> t_init_dest_concurrency t \<and> 0 \<le> t_dest_concurrency_limit t
     \<and> (t_dest_concurrency_limit t \<noteq> 0 \<longrightarrow> t_init_dest_concurrency t \<le> t_dest_concurrency_limit t)
     \<and> (0 < t_rate_delay t \<longrightarrow> t_dest_concurrency_limit t = 1)
     \<and> 0 < hysteresis (t_pos_feedback t) \<and> 0 < hysteresis (t_neg_feedback t)"

text \<open>
  A queue counts its entries, has one of the three documented states, keeps a reason exactly
  while it is throttled, has no delivery in progress while it is suspended, and respects the
  transport's concurrency limit.
\<close>

definition queue_ok :: "transport \<Rightarrow> queue \<Rightarrow> bool" where
  "queue_ok t qu \<longleftrightarrow> q_todo_refcount qu = int (length (q_todo qu))
     \<and> q_busy_refcount qu = int (length (q_busy qu))
     \<and> - 1 \<le> q_window qu \<and> (q_dsn qu \<noteq> None \<longleftrightarrow> QMGR_QUEUE_THROTTLED qu)
     \<and> (QMGR_QUEUE_SUSPENDED qu \<longrightarrow> q_busy qu = [])
     \<and> (t_dest_concurrency_limit t \<noteq> 0 \<longrightarrow>
          q_window qu \<le> t_dest_concurrency_limit t \<and> q_busy_refcount qu \<le> t_dest_concurrency_limit t)"

definition queue_linked :: "qmgr \<Rightarrow> queue_id \<Rightarrow> bool" where
  "queue_linked s q \<longleftrightarrow> q \<in> set (t_queue_list (queue_transport s q))"

text \<open>A back-off timer runs exactly for a throttled queue, a rate-delay timer for a suspended one.\<close>

definition queue_timers_ok :: "qmgr \<Rightarrow> queue_id \<Rightarrow> bool" where
  "queue_timers_ok s q \<longleftrightarrow>
     (timers s (Tm_queue_unthrottle q) \<noteq> None \<longleftrightarrow> queue_linked s q \<and> QMGR_QUEUE_THROTTLED (queues s q))
     \<and> (timers s (Tm_queue_resume q) \<noteq> None \<longleftrightarrow> queue_linked s q \<and> QMGR_QUEUE_SUSPENDED (queues s q))"

definition queue_good :: "qmgr \<Rightarrow> queue_id \<Rightarrow> bool" where
  "queue_good s q \<longleftrightarrow> transport_ok (queue_transport s q) \<and> queue_ok (queue_transport s q) (queues s q)
     \<and> t_queue_byname (queue_transport s q) (q_name (queues s q)) = Some q"

definition belongs :: "qmgr \<Rightarrow> transport_id \<Rightarrow> queue_id \<Rightarrow> bool" where
  "belongs s t q \<longleftrightarrow> q_transport (queues s q) = t"

definition queue_list_ok :: "qmgr \<Rightarrow> transport_id \<Rightarrow> bool" where
  "queue_list_ok s t \<longleftrightarrow> distinct (t_queue_list (transports s t))
     \<and> (\<forall>q \<in> set (t_queue_list (transports s t)).
          q < heap_next s \<and> (Queue_obj, q) \<notin> set (heap_freed s) \<and> belongs s t q)"

definition queues_inv :: "qmgr \<Rightarrow> bool" where
  "queues_inv s \<longleftrightarrow> (\<forall>q. queue_linked s q \<longrightarrow> queue_good s q) \<and> (\<forall>q. queue_timers_ok s q)
     \<and> (\<forall>t. queue_list_ok s t) \<and> (\<forall>a \<in> set (heap_freed s). snd a < heap_next s)"

lemma queues_invD:
  assumes "queues_inv s"
  shows "queue_linked s q \<Longrightarrow> queue_good s q" and "queue_timers_ok s q" and "queue_list_ok s t"
  using assms by (auto simp: queues_inv_def)

text \<open>The part of a transport that the invariant depends on.\<close>

definition t_view :: "transport \<Rightarrow> int \<times> int \<times> int \<times> int \<times> int \<times> queue_id list \<times> (string \<rightharpoonup> queue_id)" where
  "t_view t = (t_dest_concurrency_limit t, t_init_dest_concurrency t, hysteresis (t_pos_feedback t),
     hysteresis (t_neg_feedback t), t_rate_delay t, t_queue_list t, t_queue_byname t)"

lemma t_viewD:
  assumes "t_view t = t_view u"
  shows "transport_ok t = transport_ok u" "queue_ok t qu = queue_ok u qu"
    "t_queue_list t = t_queue_list u" "t_queue_byname t = t_queue_byname u"
    "t_rate_delay t = t_rate_delay u"
  using assms by (auto simp: t_view_def transport_ok_def queue_ok_def)

text \<open>Changing one linked queue, and only its own timers, keeps the invariant of all others.\<close>

lemma queues_inv_local:
  assumes inv: "queues_inv s" and linked: "queue_linked s q"
    and queues: "queues s' = (queues s)(q := qu)"
    and view: "\<And>t. t_view (transports s' t) = t_view (transports s t)"
    and heap: "heap_next s \<le> heap_next s'" "heap_freed s' = heap_freed s"
    and same: "q_transport qu = q_transport (queues s q)" "q_name qu = q_name (queues s q)"
    and ok: "queue_ok (queue_transport s q) qu"
    and tms: "\<And>p. p \<noteq> q \<Longrightarrow> timers s' (Tm_queue_unthrottle p) = timers s (Tm_queue_unthrottle p)
                    \<and> timers s' (Tm_queue_resume p) = timers s (Tm_queue_resume p)"
    and tm: "timers s' (Tm_queue_unthrottle q) \<noteq> None \<longleftrightarrow> QMGR_QUEUE_THROTTLED qu"
      "timers s' (Tm_queue_resume q) \<noteq> None \<longleftrightarrow> QMGR_QUEUE_SUSPENDED qu"
  shows "queues_inv s'"
proof -
  have xp: "q_transport (queues s' p) = q_transport (queues s p)" for p
    using queues same by simp
  have link: "queue_linked s' p = queue_linked s p" for p
    using t_viewD(3) [OF view] by (simp add: queue_linked_def xp)
  have "queue_good s' p" if "queue_linked s' p" for p
    using queues_invD(1) [OF inv, of p] queues_invD(1) [OF inv linked] that link [of p] ok same queues
      t_viewD [OF view] by (auto simp: queue_good_def xp)
  moreover have "queue_timers_ok s' p" for p
    using queues_invD(2) [OF inv, of p] tms [of p] tm link linked queues
    by (cases "p = q") (auto simp: queue_timers_ok_def)
  moreover have "queue_list_ok s' t" for t
    using queues_invD(3) [OF inv, of t] heap t_viewD(3) [OF view] xp
    by (fastforce simp: queue_list_ok_def belongs_def)
  moreover have "\<forall>a \<in> set (heap_freed s'). snd a < heap_next s'"
    using inv heap by (auto simp: queues_inv_def)
  ultimately show ?thesis by (simp add: queues_inv_def)
qed

section \<open>Every operation keeps the invariant\<close>

lemma positive_feedback_cases:
  assumes "transport_ok t" and "QMGR_QUEUE_READY qu"
  obtains w su fa where "positive_feedback t qu = Ret (qu\<lparr>q_window := w, q_success := su, q_failure := fa\<rparr>)"
    and "q_window qu \<le> w"
    and "t_dest_concurrency_limit t \<noteq> 0 \<Longrightarrow> w \<le> max (q_window qu) (t_dest_concurrency_limit t)"
proof (cases "(t_dest_concurrency_limit t = 0 \<or> t_dest_concurrency_limit t > q_window qu)
    \<and> q_window qu < q_busy_refcount qu + t_init_dest_concurrency t")
  case True
  let ?fb = "QMGR_FEEDBACK_VAL (t_pos_feedback t) (q_window qu)"
  have hyst: "0 < hysteresis (t_pos_feedback t)" and lim: "0 \<le> t_dest_concurrency_limit t"
    using assms(1) by (simp_all add: transport_ok_def)
  obtain w su fa where loop: "success_loop (hysteresis (t_pos_feedback t)) ?fb
      (q_window qu, q_success qu + ?fb, q_failure qu) = Some (w, su, fa)"
    using success_loop_returns [OF hyst] by (metis prod_cases3)
  let ?w = "if t_dest_concurrency_limit t > 0 \<and> w > t_dest_concurrency_limit t
    then t_dest_concurrency_limit t else w"
  have "positive_feedback t qu = Ret (qu\<lparr>q_window := ?w, q_success := su, q_failure := fa\<rparr>)"
    using True by (simp add: positive_feedback_def Let_def loop)
  moreover have "q_window qu \<le> w" using success_loop_result [OF loop hyst] by simp
  then have "q_window qu \<le> ?w" using True lim by auto
  moreover have "?w \<le> max (q_window qu) (t_dest_concurrency_limit t)"
    if "t_dest_concurrency_limit t \<noteq> 0" using that lim by auto
  ultimately show ?thesis by (rule that)
next
  case False
  then have "positive_feedback t qu = Ret (qu\<lparr>q_window := q_window qu, q_success := q_success qu,
    q_failure := q_failure qu\<rparr>)" by (auto simp: positive_feedback_def)
  then show ?thesis by (rule that) auto
qed

lemma negative_feedback_cases:
  assumes "transport_ok t" and "QMGR_QUEUE_READY qu"
  obtains w su fa where "negative_feedback t qu = Ret (qu\<lparr>q_window := w, q_success := su, q_failure := fa\<rparr>)"
    and "1 \<le> w" and "w \<le> q_window qu"
proof -
  let ?fb = "QMGR_FEEDBACK_VAL (t_neg_feedback t) (q_window qu)"
  have hyst: "0 < hysteresis (t_neg_feedback t)" using assms(1) by (simp add: transport_ok_def)
  obtain w su fa where loop: "failure_loop (hysteresis (t_neg_feedback t)) ?fb
      (q_window qu, q_success qu, q_failure qu - ?fb) = Some (w, su, fa)"
    using failure_loop_returns [OF hyst] by (metis prod_cases3)
  have "negative_feedback t qu = Ret (qu\<lparr>q_window := (if w < 1 then 1 else w), q_success := su, q_failure := fa\<rparr>)"
    by (simp add: negative_feedback_def Let_def loop)
  moreover have "w \<le> q_window qu" using failure_loop_result [OF loop hyst] by simp
  then have "(if w < 1 then 1 else w) \<le> q_window qu" using assms(2) by (auto simp: queue_status_defs)
  ultimately show ?thesis by (rule_tac that) auto
qed

lemma count_fail_cohort_cases:
  obtains w fc where "count_fail_cohort t qu = qu\<lparr>q_fail_cohorts := fc, q_window := w\<rparr>"
    and "w = 0 \<or> w = q_window qu"
proof (cases "QMGR_QUEUE_READY qu")
  case True
  then show ?thesis
    by (rule_tac that) (auto simp: count_fail_cohort_def Let_def QMGR_QUEUE_STAT_THROTTLED_def)
next
  case False
  then have "count_fail_cohort t qu = qu\<lparr>q_fail_cohorts := q_fail_cohorts qu, q_window := q_window qu\<rparr>"
    by (simp add: count_fail_cohort_def)
  then show ?thesis by (rule that) simp
qed

lemma queue_linkedD:
  assumes "queues_inv s" and "queue_linked s q"
  shows "transport_ok (queue_transport s q)" "queue_ok (queue_transport s q) (queues s q)"
    "t_queue_byname (queue_transport s q) (q_name (queues s q)) = Some q"
    "q < heap_next s" "(Queue_obj, q) \<notin> set (heap_freed s)"
proof -
  have "queue_good s q" using queues_invD(1) [OF assms] .
  then show "transport_ok (queue_transport s q)" "queue_ok (queue_transport s q) (queues s q)"
    "t_queue_byname (queue_transport s q) (q_name (queues s q)) = Some q"
    by (simp_all add: queue_good_def)
  have "queue_list_ok s (q_transport (queues s q))" using queues_invD(3) [OF assms(1)] .
  then show "q < heap_next s" "(Queue_obj, q) \<notin> set (heap_freed s)"
    using assms(2) unfolding queue_list_ok_def queue_linked_def by blast+
qed

text \<open>Only the status bits, the reason and the timer distinguish the two non-ready states.\<close>

lemma queue_timers_linked:
  assumes "queues_inv s" and "queue_linked s q"
  shows "timers s (Tm_queue_unthrottle q) \<noteq> None \<longleftrightarrow> QMGR_QUEUE_THROTTLED (queues s q)"
    "timers s (Tm_queue_resume q) \<noteq> None \<longleftrightarrow> QMGR_QUEUE_SUSPENDED (queues s q)"
  using queues_invD(2) [OF assms(1), of q] assms(2) by (auto simp: queue_timers_ok_def)

lemma qmgr_queue_unthrottle_inv:
  assumes inv: "queues_inv s" and linked: "queue_linked s q"
    and status: "\<not> QMGR_QUEUE_SUSPENDED (queues s q)"
  shows "returns (qmgr_queue_unthrottle q s) (\<lambda>s'. queues_inv s' \<and> queue_linked s' q
    \<and> QMGR_QUEUE_READY (queues s' q))"
proof -
  let ?t = "queue_transport s q" and ?qu = "queues s q"
  note qd = queue_linkedD [OF inv linked] and tm = queue_timers_linked [OF inv linked]
  show ?thesis
  proof (cases "QMGR_QUEUE_THROTTLED ?qu")
    case True
    let ?qu' = "?qu\<lparr>q_fail_cohorts := 0, q_dsn := None,
      q_window := (if q_busy_refcount ?qu > 0 then q_busy_refcount ?qu else t_init_dest_concurrency ?t),
      q_success := 0, q_failure := 0\<rparr>"
    let ?s' = "s\<lparr>queues := (queues s)(q := ?qu'), timers := (timers s)(Tm_queue_unthrottle q := None)\<rparr>"
    have ret: "qmgr_queue_unthrottle q s = Ret ?s'"
      using True qd(2) by (auto simp: qmgr_queue_unthrottle_def Let_def queue_ok_def queue_status_defs)
    have ok: "queue_ok ?t ?qu'" "QMGR_QUEUE_READY ?qu'"
      using qd(1,2) by (auto simp: queue_ok_def transport_ok_def queue_status_defs)
    have "queues_inv ?s'"
      by (rule queues_inv_local [OF inv linked, where qu = ?qu'])
        (use ok tm True in \<open>auto simp: queue_status_defs\<close>)
    then show ?thesis
      using ok linked unfolding ret by (simp add: queue_linked_def)
  next
    case False
    let ?qu1 = "?qu\<lparr>q_fail_cohorts := 0\<rparr>"
    have ready: "QMGR_QUEUE_READY ?qu"
      using False status qd(2) by (auto simp: queue_ok_def queue_status_defs)
    then have "QMGR_QUEUE_READY ?qu1" by (simp add: queue_status_defs)
    then obtain w su fa where
      pf: "positive_feedback ?t ?qu1 = Ret (?qu1\<lparr>q_window := w, q_success := su, q_failure := fa\<rparr>)"
      and w: "q_window ?qu1 \<le> w"
        "t_dest_concurrency_limit ?t \<noteq> 0 \<Longrightarrow> w \<le> max (q_window ?qu1) (t_dest_concurrency_limit ?t)"
      using positive_feedback_cases [OF qd(1)] by blast
    let ?qu' = "?qu1\<lparr>q_window := w, q_success := su, q_failure := fa\<rparr>"
    let ?s' = "s\<lparr>queues := (queues s)(q := ?qu')\<rparr>"
    have ret: "qmgr_queue_unthrottle q s = Ret ?s'"
      using False ready pf by (simp add: qmgr_queue_unthrottle_def Let_def queue_status_defs)
    have ok: "queue_ok ?t ?qu'" "QMGR_QUEUE_READY ?qu'"
      using qd(2) w ready by (auto simp: queue_ok_def queue_status_defs)
    have "queues_inv ?s'"
      by (rule queues_inv_local [OF inv linked, where qu = ?qu'])
        (use ok tm ready in \<open>auto simp: queue_status_defs\<close>)
    then show ?thesis
      using ok linked unfolding ret by (simp add: queue_linked_def)
  qed
qed

lemma qmgr_queue_throttle_inv:
  assumes inv: "queues_inv s" and linked: "queue_linked s q" and ready: "QMGR_QUEUE_READY (queues s q)"
    and reason: "dsn_ok dsn"
  shows "returns (qmgr_queue_throttle conf q dsn s) (\<lambda>s'. queues_inv s' \<and> queue_linked s' q
    \<and> 0 \<le> q_window (queues s' q) \<and> q_window (queues s' q) \<le> q_window (queues s q))"
proof -
  let ?t = "queue_transport s q" and ?qu = "queues s q"
  note qd = queue_linkedD [OF inv linked] and tm = queue_timers_linked [OF inv linked]
  have dsn: "q_dsn ?qu = None" using qd(2) ready by (auto simp: queue_ok_def queue_status_defs)
  obtain v fc where cf: "count_fail_cohort ?t ?qu = ?qu\<lparr>q_fail_cohorts := fc, q_window := v\<rparr>"
    and v: "v = 0 \<or> v = q_window ?qu" by (rule count_fail_cohort_cases)
  let ?qu1 = "?qu\<lparr>q_fail_cohorts := fc, q_window := v\<rparr>"
  show ?thesis
  proof (cases "v = 0")
    case True
    let ?qu' = "?qu1\<lparr>q_dsn := Some dsn, q_dflags := 0\<rparr>"
    let ?s' = "s\<lparr>queues := (queues s)(q := ?qu'),
      timers := (timers s)(Tm_queue_unthrottle q \<mapsto> event_now s + var_min_backoff_time conf)\<rparr>"
    have ret: "qmgr_queue_throttle conf q dsn s = Ret ?s'"
      using True ready dsn cf reason by (simp add: qmgr_queue_throttle_def Let_def queue_status_defs)
    have ok: "queue_ok ?t ?qu'"
      using qd(1,2) True by (auto simp: queue_ok_def transport_ok_def queue_status_defs)
    have "queues_inv ?s'"
      by (rule queues_inv_local [OF inv linked, where qu = ?qu'])
        (use ok tm ready True in \<open>auto simp: queue_status_defs\<close>)
    then show ?thesis
      using linked ready True unfolding ret by (simp add: queue_linked_def queue_status_defs)
  next
    case False
    then have "QMGR_QUEUE_READY ?qu1" using v ready by (simp add: queue_status_defs)
    then obtain w su fa where
      nf: "negative_feedback ?t ?qu1 = Ret (?qu1\<lparr>q_window := w, q_success := su, q_failure := fa\<rparr>)"
      and w: "1 \<le> w" "w \<le> q_window ?qu1"
      using negative_feedback_cases [OF qd(1)] by blast
    let ?qu' = "?qu1\<lparr>q_window := w, q_success := su, q_failure := fa\<rparr>"
    let ?s' = "s\<lparr>queues := (queues s)(q := ?qu')\<rparr>"
    have ret: "qmgr_queue_throttle conf q dsn s = Ret ?s'"
      using False v ready dsn cf nf w by (simp add: qmgr_queue_throttle_def Let_def queue_status_defs)
    have ok: "queue_ok ?t ?qu'"
      using qd(2) w v False dsn by (auto simp: queue_ok_def queue_status_defs)
    have "queues_inv ?s'"
      by (rule queues_inv_local [OF inv linked, where qu = ?qu'])
        (use ok tm ready w in \<open>auto simp: queue_status_defs\<close>)
    then show ?thesis
      using linked w v False unfolding ret by (simp add: queue_linked_def)
  qed
qed

lemma qmgr_queue_suspend_inv:
  assumes inv: "queues_inv s" and linked: "queue_linked s q" and ready: "QMGR_QUEUE_READY (queues s q)"
    and idle: "q_busy (queues s q) = []"
  shows "returns (qmgr_queue_suspend q delay s) (\<lambda>s'. queues_inv s' \<and> queue_linked s' q
    \<and> QMGR_QUEUE_SUSPENDED (queues s' q))"
proof -
  note qd = queue_linkedD [OF inv linked] and tm = queue_timers_linked [OF inv linked]
  let ?qu' = "(queues s q)\<lparr>q_window := -1\<rparr>"
  let ?s' = "s\<lparr>queues := (queues s)(q := ?qu'), timers := (timers s)(Tm_queue_resume q \<mapsto> event_now s + delay)\<rparr>"
  have ret: "qmgr_queue_suspend q delay s = Ret ?s'"
    using ready idle qd(2) by (simp add: qmgr_queue_suspend_def queue_status_defs queue_ok_def)
  have ok: "queue_ok (queue_transport s q) ?qu'"
    using qd(1,2) ready idle by (auto simp: queue_ok_def queue_status_defs transport_ok_def)
  have "queues_inv ?s'"
    by (rule queues_inv_local [OF inv linked, where qu = ?qu'])
      (use ok tm ready in \<open>auto simp: queue_status_defs\<close>)
  then show ?thesis
    using linked unfolding ret by (simp add: queue_linked_def queue_status_defs)
qed

text \<open>\<open>qmgr_job_blocker_update\<close> changes tags and the current job, nothing the invariant sees.\<close>

lemma t_view_upd [simp]:
  "t_view (x\<lparr>t_blocker_tag := b, t_job_current := c, t_candidate_cache_current := d\<rparr>) = t_view x"
  by (simp add: t_view_def)

definition blocker_tag_after :: "qmgr \<Rightarrow> queue_id \<Rightarrow> int" where
  "blocker_tag_after s q = (if q_blocker_tag (queues s q) = t_blocker_tag (queue_transport s q)
     \<and> (q_window (queues s q) > q_busy_refcount (queues s q) \<or> QMGR_QUEUE_THROTTLED (queues s q))
     then 0 else q_blocker_tag (queues s q))"

lemma blocker_tag_idem: "q_blocker_tag x = b \<Longrightarrow> x\<lparr>q_blocker_tag := b\<rparr> = x"
  by auto

lemma blocker_update_frame:
  "queues (qmgr_job_blocker_update q s) = (queues s)(q := (queues s q)\<lparr>q_blocker_tag := blocker_tag_after s q\<rparr>)"
  "timers (qmgr_job_blocker_update q s) = timers s"
  "heap_next (qmgr_job_blocker_update q s) = heap_next s"
  "heap_freed (qmgr_job_blocker_update q s) = heap_freed s"
  "entries (qmgr_job_blocker_update q s) = entries s"
  "peers (qmgr_job_blocker_update q s) = peers s"
  "jobs (qmgr_job_blocker_update q s) = jobs s"
  "messages (qmgr_job_blocker_update q s) = messages s"
  "t_view (transports (qmgr_job_blocker_update q s) t) = t_view (transports s t)"
  "t_job_byname (transports (qmgr_job_blocker_update q s) t) = t_job_byname (transports s t)"
  by (simp_all add: qmgr_job_blocker_update_def blocker_tag_after_def Let_def blocker_tag_idem)

lemma qmgr_job_blocker_update_inv:
  assumes inv: "queues_inv s" and linked: "queue_linked s q"
  shows "queues_inv (qmgr_job_blocker_update q s)"
proof -
  have ok: "queue_ok (queue_transport s q) ((queues s q)\<lparr>q_blocker_tag := b\<rparr>)" for b
    using queue_linkedD(2) [OF inv linked] by (auto simp: queue_ok_def queue_status_defs)
  show ?thesis
    by (rule queues_inv_local [OF inv linked blocker_update_frame(1)])
      (use ok queue_timers_linked [OF inv linked] in \<open>auto simp: blocker_update_frame queue_status_defs\<close>)
qed

lemma qmgr_queue_done_inv:
  assumes inv: "queues_inv s" and linked: "queue_linked s q" and idle: "queue_idle (queues s q)"
  shows "returns (qmgr_queue_done q s) (\<lambda>s'. queues_inv s' \<and> \<not> queue_linked s' q
    \<and> queues s' = queues s \<and> qmgr_queue_find (q_transport (queues s q)) (q_name (queues s q)) s' = None
    \<and> queue_count s' = queue_count s - 1)"
proof -
  let ?t = "q_transport (queues s q)" and ?qu = "queues s q"
  let ?xp = "transports s ?t"
  note qd = queue_linkedD [OF inv linked] and tm = queue_timers_linked [OF inv linked]
  let ?xp' = "?xp\<lparr>t_queue_list := remove1 q (t_queue_list ?xp),
    t_queue_byname := (t_queue_byname ?xp)(q_name ?qu := None)\<rparr>"
  let ?s' = "s\<lparr>transports := (transports s)(?t := ?xp'), queue_count := queue_count s - 1,
    heap_freed := (Queue_obj, q) # heap_freed s\<rparr>"
  have status: "QMGR_QUEUE_READY ?qu" "q_todo ?qu = []" "q_busy ?qu = []"
    using idle by (auto simp: queue_idle_def)
  have dsn: "q_dsn ?qu = None" "q_todo_refcount ?qu = 0" "q_busy_refcount ?qu = 0"
    using qd(2) status by (auto simp: queue_ok_def queue_status_defs)
  have ret: "qmgr_queue_done q s = Ret ?s'"
    using status dsn qd(3) by (simp add: qmgr_queue_done_def Let_def)
  have list: "distinct (t_queue_list ?xp)" using queues_invD(3) [OF inv, of ?t] by (simp add: queue_list_ok_def)
  have link: "queue_linked ?s' p \<longleftrightarrow> queue_linked s p \<and> p \<noteq> q" for p
    using list by (auto simp: queue_linked_def)
  have "queue_good ?s' p" if p: "queue_linked ?s' p" for p
  proof -
    have g: "queue_good s p" and pq: "p \<noteq> q" using p link queues_invD(1) [OF inv] by auto
    then have "q_transport (queues s p) = ?t \<Longrightarrow> q_name (queues s p) \<noteq> q_name ?qu"
      using qd(3) by (auto simp: queue_good_def)
    with g show ?thesis by (auto simp: queue_good_def transport_ok_def queue_ok_def)
  qed
  moreover have "queue_timers_ok ?s' p" for p
    using queues_invD(2) [OF inv, of p] tm status(1) link [of p]
    by (cases "p = q") (auto simp: queue_timers_ok_def queue_status_defs)
  moreover have "queue_list_ok ?s' u" for u
  proof -
    have "belongs ?s' u p = belongs s u p" "belongs s u q = (u = ?t)" for p by (auto simp: belongs_def)
    then show ?thesis
      using queues_invD(3) [OF inv, of u] list
      by (cases "u = ?t") (auto simp: queue_list_ok_def)
  qed
  moreover have "\<forall>a \<in> set (heap_freed ?s'). snd a < heap_next ?s'"
    using inv qd(4) by (auto simp: queues_inv_def)
  ultimately have "queues_inv ?s'" unfolding queues_inv_def by blast
  then show ?thesis using link [of q] unfolding ret by (simp add: qmgr_queue_find_def)
qed

lemma qmgr_queue_create_inv:
  assumes inv: "queues_inv s" and xp: "transport_ok (transports s t)"
    and new: "qmgr_queue_find t name s = None"
  shows "queues_inv (snd (qmgr_queue_create t name nexthop s))"
    and "queue_linked (snd (qmgr_queue_create t name nexthop s)) (fst (qmgr_queue_create t name nexthop s))"
proof -
  let ?q = "heap_next s" and ?s' = "snd (qmgr_queue_create t name nexthop s)"
  have fresh: "?q \<notin> set (t_queue_list (transports s u))" for u
    using queues_invD(3) [OF inv, of u] by (auto simp: queue_list_ok_def)
  have link: "queue_linked ?s' p \<longleftrightarrow> queue_linked s p \<or> p = ?q" for p
    using fresh by (auto simp: queue_linked_def qmgr_queue_create_def Let_def)
  have "queue_good ?s' p" if p: "queue_linked ?s' p" for p
  proof (cases "p = ?q")
    case True
    then show ?thesis using xp
      by (auto simp: queue_good_def qmgr_queue_create_def Let_def queue_ok_def transport_ok_def queue_status_defs)
  next
    case False
    then have g: "queue_good s p" using p link queues_invD(1) [OF inv] by auto
    then have "q_transport (queues s p) = t \<Longrightarrow> q_name (queues s p) \<noteq> name"
      using new by (auto simp: queue_good_def qmgr_queue_find_def)
    with g False show ?thesis
      by (auto simp: queue_good_def qmgr_queue_create_def Let_def queue_ok_def transport_ok_def)
  qed
  moreover have "queue_timers_ok ?s' p" for p
  proof (cases "p = ?q")
    case True
    have "\<not> queue_linked s ?q" using fresh by (simp add: queue_linked_def)
    then have "timers s (Tm_queue_unthrottle ?q) = None" "timers s (Tm_queue_resume ?q) = None"
      using queues_invD(2) [OF inv, of ?q] by (auto simp: queue_timers_ok_def)
    with True xp show ?thesis
      by (auto simp: queue_timers_ok_def qmgr_queue_create_def Let_def queue_status_defs transport_ok_def)
  next
    case False
    then show ?thesis using queues_invD(2) [OF inv, of p] link [of p]
      by (auto simp: queue_timers_ok_def qmgr_queue_create_def Let_def)
  qed
  moreover have "queue_list_ok ?s' u" for u
  proof -
    have b: "belongs ?s' u p = (if p = ?q then u = t else belongs s u p)" for p
      by (auto simp: belongs_def qmgr_queue_create_def Let_def)
    have l: "t_queue_list (transports ?s' u) = t_queue_list (transports s u) @ (if u = t then [?q] else [])"
      and h: "heap_next ?s' = Suc ?q" "heap_freed ?s' = heap_freed s"
      by (auto simp: qmgr_queue_create_def Let_def)
    have "(Queue_obj, ?q) \<notin> set (heap_freed s)" using inv by (auto simp: queues_inv_def)
    then show ?thesis
      using queues_invD(3) [OF inv, of u] fresh [of u] by (auto simp: queue_list_ok_def b l h)
  qed
  moreover have "\<forall>a \<in> set (heap_freed ?s'). snd a < heap_next ?s'"
    using inv by (auto simp: queues_inv_def qmgr_queue_create_def Let_def)
  ultimately show "queues_inv ?s'" unfolding queues_inv_def by blast
  show "queue_linked ?s' (fst (qmgr_queue_create t name nexthop s))"
    using link [of ?q] by (simp add: qmgr_queue_create_def Let_def)
qed

text \<open>The event loop takes an expired timer off its list before it runs the call-back.\<close>

lemma discard_idle_queue_inv:
  assumes "queues_inv s" and "queue_linked s q"
  shows "returns (if queue_idle (queues s q) then qmgr_queue_done q s else Ret s) queues_inv"
  using assms returns_mono [OF qmgr_queue_done_inv [OF assms]] by simp

lemma qmgr_queue_resume_inv:
  assumes inv: "queues_inv s" and timer: "timers s (Tm_queue_resume q) \<noteq> None"
  shows "returns (qmgr_queue_resume q (event_cancel_timer (Tm_queue_resume q) s)) queues_inv"
proof -
  have linked: "queue_linked s q" and susp: "QMGR_QUEUE_SUSPENDED (queues s q)"
    using queues_invD(2) [OF inv, of q] timer by (simp_all add: queue_timers_ok_def)
  note qd = queue_linkedD [OF inv linked] and tm = queue_timers_linked [OF inv linked]
  let ?qu = "(queues s q)\<lparr>q_window := 1\<rparr>"
  let ?s = "s\<lparr>timers := (timers s)(Tm_queue_resume q := None), queues := (queues s)(q := ?qu)\<rparr>"
  have ok: "queue_ok (queue_transport s q) ?qu"
    using qd(1,2) susp by (auto simp: queue_ok_def transport_ok_def queue_status_defs)
  have inv': "queues_inv ?s"
    by (rule queues_inv_local [OF inv linked, where qu = ?qu])
      (use ok tm susp in \<open>auto simp: queue_status_defs\<close>)
  moreover have "queue_linked ?s q" using linked by (simp add: queue_linked_def)
  ultimately have "returns (if queue_idle (queues ?s q) then qmgr_queue_done q ?s
      else Ret (qmgr_job_blocker_update q ?s)) queues_inv"
    using qmgr_job_blocker_update_inv [of ?s q] returns_mono [OF qmgr_queue_done_inv [of ?s q]] by simp
  then show ?thesis using susp by (simp add: qmgr_queue_resume_def Let_def)
qed

lemma qmgr_queue_unthrottle_wrapper_inv:
  assumes inv: "queues_inv s" and timer: "timers s (Tm_queue_unthrottle q) \<noteq> None"
  shows "returns (qmgr_queue_unthrottle_wrapper q (event_cancel_timer (Tm_queue_unthrottle q) s)) queues_inv"
proof -
  have linked: "queue_linked s q" and dead: "QMGR_QUEUE_THROTTLED (queues s q)"
    using queues_invD(2) [OF inv, of q] timer by (simp_all add: queue_timers_ok_def)
  have "\<not> QMGR_QUEUE_SUSPENDED (queues s q)" using dead by (simp add: queue_status_defs)
  then have "returns (qmgr_queue_unthrottle q s) (\<lambda>s. queues_inv s \<and> queue_linked s q)"
    by (rule returns_mono [OF qmgr_queue_unthrottle_inv [OF inv linked]]) simp
  then have "returns (obind (qmgr_queue_unthrottle q s)
      (\<lambda>s. if queue_idle (queues s q) then qmgr_queue_done q s else Ret s)) queues_inv"
    unfolding returns_obind by (rule returns_mono) (auto dest: discard_idle_queue_inv)
  moreover have "qmgr_queue_unthrottle q (event_cancel_timer (Tm_queue_unthrottle q) s) = qmgr_queue_unthrottle q s"
    using dead by (simp add: qmgr_queue_unthrottle_def Let_def queue_status_defs)
  ultimately show ?thesis by (simp add: qmgr_queue_unthrottle_wrapper_def)
qed

lemma qmgr_enable_queue_inv:
  assumes inv: "queues_inv s" and linked: "queue_linked s q"
  shows "returns (qmgr_enable_queue q s) queues_inv"
proof -
  have "returns (if QMGR_QUEUE_THROTTLED (queues s q) then qmgr_queue_unthrottle q s else Ret s)
      (\<lambda>s. queues_inv s \<and> queue_linked s q)"
    using returns_mono [OF qmgr_queue_unthrottle_inv [OF inv linked]] inv linked
    by (auto simp: queue_status_defs)
  then show ?thesis
    unfolding qmgr_enable_queue_def returns_obind
    by (rule returns_mono) (auto dest: discard_idle_queue_inv)
qed

end
