(* ===== verification/Qmgr_Peer.thy ===== *)
theory Qmgr_Peer
  imports Qmgr_Queue "HOL-Library.Signed_Division"
begin

text \<open>
  Peers and entries: \<^verbatim>\<open>src/src/qmgr/qmgr_peer.c\<close> and the creation, selection and
  unselection of \<^verbatim>\<open>src/src/qmgr/qmgr_entry.c\<close>. A peer groups the entries of one message
  (job) for one destination queue; an entry is one delivery transaction that moves from the
  queue's todo list to its busy list and back.
\<close>

section \<open>Peers\<close>

definition qmgr_peer_create :: "job_id \<Rightarrow> queue_id \<Rightarrow> qmgr \<Rightarrow> peer_id \<times> qmgr" where
  "qmgr_peer_create j q s =
     (let (p, s) = mymalloc s;
          s = upd_job j (\<lambda>x. x\<lparr>j_peer_list := j_peer_list x @ [p],
                j_peer_byname := (j_peer_byname x)(q_name (queues s q) \<mapsto> p)\<rparr>) s
      in (p, upd_peer p (\<lambda>_. \<lparr>p_job = j, p_queue = q, p_refcount = 0, p_entry_list = []\<rparr>) s))"

definition qmgr_peer_free :: "peer_id \<Rightarrow> qmgr \<Rightarrow> qmgr outcome" where
  "qmgr_peer_free p s =
     (let j = p_job (peers s p); name = q_name (queues s (p_queue (peers s p)))
      in if p_refcount (peers s p) \<noteq> 0 then Panic ''qmgr_peer_free''
         else if p_entry_list (peers s p) \<noteq> [] then Panic ''qmgr_peer_free''
         else if j_peer_byname (jobs s j) name = None then Panic ''htable_delete''
         else Ret (myfree Peer_obj p (upd_job j (\<lambda>x. x\<lparr>j_peer_list := remove1 p (j_peer_list x),
                     j_peer_byname := (j_peer_byname x)(name := None)\<rparr>) s)))"

definition qmgr_peer_find :: "job_id \<Rightarrow> queue_id \<Rightarrow> qmgr \<Rightarrow> peer_id option" where
  "qmgr_peer_find j q s = j_peer_byname (jobs s j) (q_name (queues s q))"

definition qmgr_peer_obtain :: "job_id \<Rightarrow> queue_id \<Rightarrow> qmgr \<Rightarrow> peer_id \<times> qmgr" where
  "qmgr_peer_obtain j q s =
     (case qmgr_peer_find j q s of Some p \<Rightarrow> (p, s) | None \<Rightarrow> qmgr_peer_create j q s)"

text \<open>A peer is suitable when its queue has a free delivery slot and it has a todo entry.\<close>

definition peer_suitable :: "qmgr \<Rightarrow> peer_id \<Rightarrow> bool" where
  "peer_suitable s p \<longleftrightarrow>
     q_window (queues s (p_queue (peers s p))) > q_busy_refcount (queues s (p_queue (peers s p)))
     \<and> p_entry_list (peers s p) \<noteq> []"

text \<open>The first suitable peer, and the list rotated so that it becomes the last one.\<close>

definition qmgr_peer_select :: "job_id \<Rightarrow> qmgr \<Rightarrow> peer_id option \<times> qmgr" where
  "qmgr_peer_select j s =
     (case List.extract (peer_suitable s) (j_peer_list (jobs s j)) of
        None \<Rightarrow> (None, s)
      | Some (as, p, bs) \<Rightarrow> (Some p, upd_job j (\<lambda>x. x\<lparr>j_peer_list := bs @ as @ [p]\<rparr>) s))"

section \<open>Entries\<close>

definition DEL_REQ_FLAG_CONN_LOAD :: "32 word" where "DEL_REQ_FLAG_CONN_LOAD = push_bit 11 1"
definition DEL_REQ_FLAG_CONN_STORE :: "32 word" where "DEL_REQ_FLAG_CONN_STORE = push_bit 12 1"
definition DEL_REQ_FLAG_CONN_MASK :: "32 word" where
  "DEL_REQ_FLAG_CONN_MASK = DEL_REQ_FLAG_CONN_LOAD OR DEL_REQ_FLAG_CONN_STORE"

text \<open>Opportunistic session caching: sticky while deliveries are concurrent or back to back.\<close>

definition session_caching :: "int \<Rightarrow> queue \<Rightarrow> queue" where
  "session_caching now qu =
     (let back_to_back = (q_last_done qu + 1 \<ge> now)
      in if q_dflags qu AND DEL_REQ_FLAG_CONN_STORE = 0 then
           if back_to_back then qu\<lparr>q_dflags := q_dflags qu OR DEL_REQ_FLAG_CONN_MASK\<rparr> else qu
         else if \<not> (q_busy_refcount qu > 1 \<or> back_to_back)
         then qu\<lparr>q_dflags := q_dflags qu AND NOT DEL_REQ_FLAG_CONN_STORE\<rparr> else qu)"

definition qmgr_entry_select :: "peer_id \<Rightarrow> qmgr \<Rightarrow> entry_id option \<times> qmgr" where
  "qmgr_entry_select p s =
     (case p_entry_list (peers s p) of
        [] \<Rightarrow> (None, s)
      | e # _ \<Rightarrow>
          let q = e_queue (entries s e);
              s = upd_queue q (\<lambda>x. x\<lparr>q_todo := remove1 e (q_todo x), q_todo_refcount := q_todo_refcount x - 1\<rparr>) s;
              s = upd_queue q (\<lambda>x. x\<lparr>q_busy := q_busy x @ [e], q_busy_refcount := q_busy_refcount x + 1\<rparr>) s;
              s = upd_peer p (\<lambda>x. x\<lparr>p_entry_list := remove1 e (p_entry_list x)\<rparr>) s;
              s = upd_job (p_job (peers s p)) (\<lambda>x. x\<lparr>j_selected_entries := j_selected_entries x + 1\<rparr>) s
          in (Some e, upd_queue q (session_caching (event_now s)) s))"

definition qmgr_entry_unselect :: "entry_id \<Rightarrow> qmgr \<Rightarrow> qmgr" where
  "qmgr_entry_unselect e s =
     (let p = e_peer (entries s e); q = e_queue (entries s e);
          s = upd_queue q (\<lambda>x. x\<lparr>q_busy := remove1 e (q_busy x), q_busy_refcount := q_busy_refcount x - 1\<rparr>) s;
          s = upd_queue q (\<lambda>x. x\<lparr>q_todo := q_todo x @ [e], q_todo_refcount := q_todo_refcount x + 1\<rparr>) s;
          s = upd_peer p (\<lambda>x. x\<lparr>p_entry_list := e # p_entry_list x\<rparr>) s
      in upd_job (p_job (peers s p)) (\<lambda>x. x\<lparr>j_selected_entries := j_selected_entries x - 1\<rparr>) s)"

text \<open>The warning about a destination that clogs the active queue is limited in rate.\<close>

definition clog_warning :: "config \<Rightarrow> queue_id \<Rightarrow> qmgr \<Rightarrow> qmgr" where
  "clog_warning conf q s =
     (if var_helpful_warnings conf \<and> var_qmgr_clog_warn_time conf > 0
         \<and> q_todo_refcount (queues s q) + q_busy_refcount (queues s q) > var_qmgr_active_limit conf sdiv 5
         \<and> event_now s \<ge> q_clog_time_to_warn (queues s q)
      then upd_queue q (\<lambda>x. x\<lparr>q_clog_time_to_warn := event_now s + var_qmgr_clog_warn_time conf\<rparr>) s
      else s)"

definition qmgr_entry_create :: "config \<Rightarrow> peer_id \<Rightarrow> message_id \<Rightarrow> qmgr \<Rightarrow> (entry_id \<times> qmgr) outcome" where
  "qmgr_entry_create conf p m s =
     (let q = p_queue (peers s p)
      in if QMGR_QUEUE_THROTTLED (queues s q) then Panic ''qmgr_entry_create''
         else
           let (e, s) = mymalloc s;
               s = upd_entry e (\<lambda>_. \<lparr>e_stream = None, e_message = m, e_rcpt_list = [], e_queue = q, e_peer = p\<rparr>) s;
               s = upd_message m (\<lambda>x. x\<lparr>m_refcount := m_refcount x + 1\<rparr>) s;
               s = upd_peer p (\<lambda>x. x\<lparr>p_entry_list := p_entry_list x @ [e], p_refcount := p_refcount x + 1\<rparr>) s;
               s = upd_queue q (\<lambda>x. x\<lparr>q_todo := q_todo x @ [e], q_todo_refcount := q_todo_refcount x + 1\<rparr>) s;
               s = upd_job (p_job (peers s p)) (\<lambda>x. x\<lparr>j_read_entries := j_read_entries x + 1\<rparr>) s
           in Ret (e, clog_warning conf q s))"

section \<open>Invariant\<close>

text \<open>
  An entry on a todo or busy list names that queue, its peer belongs to the same queue, and the
  queue is in core. A peer's list holds exactly the peer's entries on the queue's todo list.
\<close>

definition on_queue :: "qmgr \<Rightarrow> entry_id \<Rightarrow> queue_id \<Rightarrow> bool" where
  "on_queue s e q \<longleftrightarrow> e_queue (entries s e) = q \<and> p_queue (peers s (e_peer (entries s e))) = q
     \<and> e < heap_next s \<and> (Entry_obj, e) \<notin> set (heap_freed s)
     \<and> e_peer (entries s e) < heap_next s \<and> (Peer_obj, e_peer (entries s e)) \<notin> set (heap_freed s)"

definition on_peer :: "qmgr \<Rightarrow> entry_id \<Rightarrow> peer_id \<Rightarrow> bool" where
  "on_peer s e p \<longleftrightarrow> e_peer (entries s e) = p"

definition entries_inv :: "qmgr \<Rightarrow> bool" where
  "entries_inv s \<longleftrightarrow>
     (\<forall>q e. e \<in> set (q_todo (queues s q) @ q_busy (queues s q)) \<longrightarrow> on_queue s e q \<and> queue_linked s q)
     \<and> (\<forall>q. distinct (q_todo (queues s q) @ q_busy (queues s q)))
     \<and> (\<forall>p. distinct (p_entry_list (peers s p)))
     \<and> (\<forall>p e. e \<in> set (p_entry_list (peers s p)) \<longleftrightarrow>
           on_peer s e p \<and> e \<in> set (q_todo (queues s (p_queue (peers s p)))))"

definition qmgr_inv :: "qmgr \<Rightarrow> bool" where
  "qmgr_inv s \<longleftrightarrow> queues_inv s \<and> entries_inv s"

lemma entries_invD:
  assumes "entries_inv s"
  shows "e \<in> set (q_todo (queues s q)) \<union> set (q_busy (queues s q)) \<Longrightarrow> on_queue s e q \<and> queue_linked s q"
    and "distinct (q_todo (queues s q) @ q_busy (queues s q))"
    and "distinct (p_entry_list (peers s p))"
    and "e \<in> set (p_entry_list (peers s p)) \<longleftrightarrow>
           on_peer s e p \<and> e \<in> set (q_todo (queues s (p_queue (peers s p))))"
  using assms by (auto simp: entries_inv_def)

text \<open>Operations that leave the entry and peer lists alone.\<close>

definition lists_frame :: "qmgr \<Rightarrow> qmgr \<Rightarrow> bool" where
  "lists_frame s s' \<longleftrightarrow> entries s' = entries s \<and> peers s' = peers s \<and> heap_next s' = heap_next s
     \<and> (\<forall>k a. k \<noteq> Queue_obj \<longrightarrow> (k, a) \<in> set (heap_freed s') \<longleftrightarrow> (k, a) \<in> set (heap_freed s))
     \<and> (\<forall>q. q_todo (queues s' q) = q_todo (queues s q) \<and> q_busy (queues s' q) = q_busy (queues s q))"

lemma entries_inv_frame:
  assumes "entries_inv s" and "lists_frame s s'"
    and "\<And>q. queue_linked s q \<Longrightarrow> q_todo (queues s q) @ q_busy (queues s q) \<noteq> [] \<Longrightarrow> queue_linked s' q"
  shows "entries_inv s'"
proof -
  have "queue_linked s' q" if "e \<in> set (q_todo (queues s q) @ q_busy (queues s q))" for q e
    using assms(3) [of q] entries_invD(1) [OF assms(1), of e q] that by force
  moreover have "on_queue s' = on_queue s" "on_peer s' = on_peer s"
    using assms(2) by (auto simp: lists_frame_def on_queue_def on_peer_def fun_eq_iff)
  ultimately show ?thesis
    using assms(1,2) by (simp add: entries_inv_def lists_frame_def)
qed

text \<open>Moving entries of one peer between the lists of its queue.\<close>

lemma entries_inv_move:
  assumes inv: "entries_inv s" and queues: "queues s' = (queues s)(q := qu)"
    and peers: "peers s' = (peers s)(p := pe)" and entries: "entries s' = entries s"
    and heap: "heap_next s' = heap_next s" "heap_freed s' = heap_freed s"
    and link: "\<And>q. queue_linked s' q = queue_linked s q"
    and pq: "p_queue pe = q" "p_queue (peers s p) = q"
    and qu: "\<And>e. e \<in> set (q_todo qu @ q_busy qu) \<Longrightarrow> on_queue s e q \<and> queue_linked s q"
      "distinct (q_todo qu @ q_busy qu)"
    and pe: "distinct (p_entry_list pe)"
      "\<And>e. e \<in> set (p_entry_list pe) \<longleftrightarrow> on_peer s e p \<and> e \<in> set (q_todo qu)"
    and others: "\<And>e. \<not> on_peer s e p \<Longrightarrow> e \<in> set (q_todo qu) \<longleftrightarrow> e \<in> set (q_todo (queues s q))"
  shows "entries_inv s'"
proof -
  have pq': "p_queue (peers s' r) = p_queue (peers s r)" for r using peers pq by simp
  then have oq: "on_queue s' = on_queue s" and op: "on_peer s' = on_peer s"
    using entries heap by (auto simp: on_queue_def on_peer_def fun_eq_iff)
  have "e \<in> set (p_entry_list (peers s' r)) \<longleftrightarrow>
      on_peer s e r \<and> e \<in> set (q_todo (queues s' (p_queue (peers s r))))" for r e
  proof (cases "r = p")
    case True
    then show ?thesis using pe(2) pq peers queues by simp
  next
    case False
    then have "on_peer s e r \<Longrightarrow> \<not> on_peer s e p" by (simp add: on_peer_def)
    then show ?thesis
      using False entries_invD(4) [OF inv, of e r] others peers queues
      by (cases "p_queue (peers s r) = q") auto
  qed
  moreover have "on_queue s e r \<and> queue_linked s r"
    if "e \<in> set (q_todo (queues s' r) @ q_busy (queues s' r))" for e r
    using that qu(1) [of e] entries_invD(1) [OF inv, of e r] queues by (auto split: if_splits)
  moreover have "distinct (q_todo (queues s' r) @ q_busy (queues s' r))" for r
    using qu(2) entries_invD(2) [OF inv, of r] queues by simp
  moreover have "distinct (p_entry_list (peers s' r))" for r
    using pe(1) entries_invD(3) [OF inv, of r] peers by simp
  ultimately show ?thesis
    unfolding entries_inv_def oq op link pq' by blast
qed

section \<open>Every operation keeps the invariant\<close>

lemma session_caching_frame [simp]:
  "q_todo (session_caching now qu) = q_todo qu" "q_busy (session_caching now qu) = q_busy qu"
  "q_todo_refcount (session_caching now qu) = q_todo_refcount qu"
  "q_busy_refcount (session_caching now qu) = q_busy_refcount qu"
  "q_window (session_caching now qu) = q_window qu" "q_transport (session_caching now qu) = q_transport qu"
  "q_name (session_caching now qu) = q_name qu" "q_dsn (session_caching now qu) = q_dsn qu"
  by (simp_all add: session_caching_def Let_def)

lemma remove1_Cons_same [simp]: "remove1 x (x # xs) = xs"
  by simp

text \<open>The effect of a selection on the entry's queue.\<close>

definition selected_queue :: "int \<Rightarrow> entry_id \<Rightarrow> queue \<Rightarrow> queue" where
  "selected_queue now e qu = session_caching now
     (qu\<lparr>q_todo := remove1 e (q_todo qu), q_todo_refcount := q_todo_refcount qu - 1,
         q_busy := q_busy qu @ [e], q_busy_refcount := q_busy_refcount qu + 1\<rparr>)"

lemma qmgr_entry_select_Some:
  assumes "p_entry_list (peers s p) = e # es"
  shows "qmgr_entry_select p s =
    (Some e, s\<lparr>queues := (queues s)(e_queue (entries s e) := selected_queue (event_now s) e (queues s (e_queue (entries s e)))),
      peers := (peers s)(p := (peers s p)\<lparr>p_entry_list := es\<rparr>),
      jobs := (jobs s)(p_job (peers s p) := (jobs s (p_job (peers s p)))
        \<lparr>j_selected_entries := j_selected_entries (jobs s (p_job (peers s p))) + 1\<rparr>)\<rparr>)"
  using assms by (simp add: qmgr_entry_select_def Let_def selected_queue_def)

lemma queue_linked_cong:
  assumes "\<And>q. q_transport (queues s' q) = q_transport (queues s q)"
    and "\<And>t. t_view (transports s' t) = t_view (transports s t)"
  shows "queue_linked s' q = queue_linked s q"
  using assms(1) t_viewD(3) [OF assms(2)] by (simp add: queue_linked_def)

lemma qmgr_entry_select_inv:
  assumes inv: "qmgr_inv s" and suitable: "peer_suitable s p"
  shows "qmgr_inv (snd (qmgr_entry_select p s))"
proof -
  obtain e es where es: "p_entry_list (peers s p) = e # es"
    using suitable by (cases "p_entry_list (peers s p)") (auto simp: peer_suitable_def)
  have qi: "queues_inv s" and ei: "entries_inv s" using inv by (simp_all add: qmgr_inv_def)
  let ?q = "p_queue (peers s p)"
  have mem: "on_peer s e p" "e \<in> set (q_todo (queues s ?q))" using entries_invD(4) [OF ei, of e p] es by auto
  have oq: "on_queue s e ?q" and linked: "queue_linked s ?q" using entries_invD(1) [OF ei, of e ?q] mem by auto
  have eq: "e_queue (entries s e) = ?q" using oq by (simp add: on_queue_def)
  let ?qu = "selected_queue (event_now s) e (queues s ?q)"
  let ?s' = "snd (qmgr_entry_select p s)"
  have room: "q_busy_refcount (queues s ?q) < q_window (queues s ?q)"
    using suitable by (simp add: peer_suitable_def)
  note qd = queue_linkedD [OF qi linked] and tm = queue_timers_linked [OF qi linked]
  have ok: "queue_ok (queue_transport s ?q) ?qu"
    using qd(2) room mem by (auto simp: queue_ok_def selected_queue_def queue_status_defs length_remove1_int)
  have "queues_inv ?s'"
    by (rule queues_inv_local [OF qi linked, where qu = ?qu])
      (use ok tm in \<open>auto simp: qmgr_entry_select_Some [OF es] eq selected_queue_def queue_status_defs\<close>)
  moreover have "entries_inv ?s'"
  proof (rule entries_inv_move [OF ei, where q = ?q and qu = ?qu and p = p
        and pe = "(peers s p)\<lparr>p_entry_list := es\<rparr>"])
    show "queue_linked ?s' r = queue_linked s r" for r
      by (rule queue_linked_cong) (simp_all add: qmgr_entry_select_Some [OF es] eq selected_queue_def)
    show "x \<in> set (q_todo ?qu @ q_busy ?qu) \<Longrightarrow> on_queue s x ?q \<and> queue_linked s ?q" for x
      using entries_invD(1) [OF ei, of _ ?q] entries_invD(2) [OF ei, of ?q] mem by (auto simp: selected_queue_def dest: notin_set_remove1)
    show "distinct (q_todo ?qu @ q_busy ?qu)"
      using entries_invD(2) [OF ei, of ?q] mem by (auto simp: selected_queue_def)
    show "x \<in> set (p_entry_list ((peers s p)\<lparr>p_entry_list := es\<rparr>)) \<longleftrightarrow> on_peer s x p \<and> x \<in> set (q_todo ?qu)" for x
      using entries_invD(4) [OF ei, of x p] entries_invD(2) [OF ei, of ?q] entries_invD(3) [OF ei, of p] es
      by (auto simp: selected_queue_def)
    show "\<not> on_peer s x p \<Longrightarrow> x \<in> set (q_todo ?qu) \<longleftrightarrow> x \<in> set (q_todo (queues s ?q))" for x
      using mem(1) by (cases "x = e") (auto simp: selected_queue_def)
    show "distinct (p_entry_list ((peers s p)\<lparr>p_entry_list := es\<rparr>))"
      using entries_invD(3) [OF ei, of p] es by simp
  qed (simp_all add: qmgr_entry_select_Some [OF es] eq)
  ultimately show ?thesis by (simp add: qmgr_inv_def)
qed

lemma qmgr_peer_select_cases:
  obtains "qmgr_peer_select j s = (None, s)" and "\<And>p. p \<in> set (j_peer_list (jobs s j)) \<Longrightarrow> \<not> peer_suitable s p"
  | as p bs where "j_peer_list (jobs s j) = as @ p # bs" and "peer_suitable s p"
    and "\<And>r. r \<in> set as \<Longrightarrow> \<not> peer_suitable s r"
    and "qmgr_peer_select j s = (Some p, upd_job j (\<lambda>x. x\<lparr>j_peer_list := bs @ as @ [p]\<rparr>) s)"
proof (cases "List.extract (peer_suitable s) (j_peer_list (jobs s j))")
  case None
  then have "qmgr_peer_select j s = (None, s)" by (simp add: qmgr_peer_select_def)
  then show ?thesis using None by (rule_tac that(1)) (auto simp: extract_None_iff)
next
  case (Some t)
  then obtain as p bs where t: "List.extract (peer_suitable s) (j_peer_list (jobs s j)) = Some (as, p, bs)"
    by (cases t) auto
  then have "j_peer_list (jobs s j) = as @ p # bs \<and> peer_suitable s p \<and> \<not> (\<exists>y \<in> set as. peer_suitable s y)"
    by (simp add: extract_Some_iff)
  then show ?thesis using t by (rule_tac that(2)) (auto simp: qmgr_peer_select_def)
qed

lemma qmgr_inv_job_update [simp]:
  "qmgr_inv (s\<lparr>jobs := js\<rparr>) = qmgr_inv s"
proof -
  have "queue_linked (s\<lparr>jobs := js\<rparr>) = queue_linked s" by (simp add: fun_eq_iff queue_linked_def)
  moreover have "on_queue (s\<lparr>jobs := js\<rparr>) = on_queue s" "on_peer (s\<lparr>jobs := js\<rparr>) = on_peer s"
    "queue_good (s\<lparr>jobs := js\<rparr>) = queue_good s" "queue_list_ok (s\<lparr>jobs := js\<rparr>) = queue_list_ok s"
    by (auto simp: fun_eq_iff on_queue_def on_peer_def queue_good_def queue_list_ok_def belongs_def)
  ultimately show ?thesis
    by (simp add: qmgr_inv_def queues_inv_def entries_inv_def queue_timers_ok_def)
qed

lemma peer_suitable_jobs [simp]: "peer_suitable (s\<lparr>jobs := js\<rparr>) p = peer_suitable s p"
  by (simp add: peer_suitable_def)

text \<open>Selecting a peer and then its first entry, as the scheduler does, never exceeds the window.\<close>

lemma qmgr_peer_entry_select_inv:
  assumes "qmgr_inv s" and "qmgr_peer_select j s = (Some p, s')"
  shows "qmgr_inv (snd (qmgr_entry_select p s'))"
proof (cases rule: qmgr_peer_select_cases [of j s])
  case 1
  with assms(2) show ?thesis by simp
next
  case (2 as r bs)
  then show ?thesis using assms by (auto intro!: qmgr_entry_select_inv)
qed

lemma qmgr_entry_unselect_inv:
  assumes inv: "qmgr_inv s" and busy: "e \<in> set (q_busy (queues s (e_queue (entries s e))))"
  shows "qmgr_inv (qmgr_entry_unselect e s)"
proof -
  have qi: "queues_inv s" and ei: "entries_inv s" using inv by (simp_all add: qmgr_inv_def)
  let ?q = "e_queue (entries s e)" and ?p = "e_peer (entries s e)"
  let ?qu = "(queues s ?q)\<lparr>q_busy := remove1 e (q_busy (queues s ?q)),
    q_busy_refcount := q_busy_refcount (queues s ?q) - 1,
    q_todo := q_todo (queues s ?q) @ [e], q_todo_refcount := q_todo_refcount (queues s ?q) + 1\<rparr>"
  let ?pe = "(peers s ?p)\<lparr>p_entry_list := e # p_entry_list (peers s ?p)\<rparr>"
  let ?s' = "qmgr_entry_unselect e s"
  have eqs: "queues ?s' = (queues s)(?q := ?qu)" "peers ?s' = (peers s)(?p := ?pe)"
    "entries ?s' = entries s" "heap_next ?s' = heap_next s" "timers ?s' = timers s"
    "transports ?s' = transports s" "heap_freed ?s' = heap_freed s"
    by (simp_all add: qmgr_entry_unselect_def Let_def)
  have oq: "on_queue s e ?q" and linked: "queue_linked s ?q" using entries_invD(1) [OF ei, of e ?q] busy by auto
  have pq: "p_queue (peers s ?p) = ?q" and op: "on_peer s e ?p" using oq by (auto simp: on_queue_def on_peer_def)
  have new: "e \<notin> set (q_todo (queues s ?q))" using entries_invD(2) [OF ei, of ?q] busy by auto
  note qd = queue_linkedD [OF qi linked] and tm = queue_timers_linked [OF qi linked]
  have ok: "queue_ok (queue_transport s ?q) ?qu"
    using qd(2) busy by (auto simp: queue_ok_def queue_status_defs length_remove1_int)
  have "queues_inv ?s'"
    by (rule queues_inv_local [OF qi linked eqs(1)]) (use ok tm in \<open>auto simp: eqs queue_status_defs\<close>)
  moreover have "entries_inv ?s'"
  proof (rule entries_inv_move [OF ei eqs(1) eqs(2) eqs(3) eqs(4) eqs(7)])
    show "queue_linked ?s' r = queue_linked s r" for r
      by (rule queue_linked_cong) (simp_all add: eqs)
    show "x \<in> set (q_todo ?qu @ q_busy ?qu) \<Longrightarrow> on_queue s x ?q \<and> queue_linked s ?q" for x
      using entries_invD(1) [OF ei, of x ?q] entries_invD(1) [OF ei, of e ?q] busy
      by (auto dest: notin_set_remove1)
    show "distinct (q_todo ?qu @ q_busy ?qu)" using entries_invD(2) [OF ei, of ?q] busy new by auto
    show "x \<in> set (p_entry_list ?pe) \<longleftrightarrow> on_peer s x ?p \<and> x \<in> set (q_todo ?qu)" for x
      using entries_invD(4) [OF ei, of x ?p] pq op by auto
    show "distinct (p_entry_list ?pe)"
      using entries_invD(3) [OF ei, of ?p] entries_invD(4) [OF ei, of e ?p] pq new by auto
    show "\<not> on_peer s x ?p \<Longrightarrow> x \<in> set (q_todo ?qu) \<longleftrightarrow> x \<in> set (q_todo (queues s ?q))" for x
      using op by auto
  qed (simp_all add: pq)
  ultimately show ?thesis by (simp add: qmgr_inv_def)
qed

lemma clog_warning_frame:
  obtains c where "clog_warning conf q s = s\<lparr>queues := (queues s)(q := (queues s q)\<lparr>q_clog_time_to_warn := c\<rparr>)\<rparr>"
proof (cases "clog_warning conf q s = s")
  case True
  then have "clog_warning conf q s = s\<lparr>queues := (queues s)(q := (queues s q)\<lparr>q_clog_time_to_warn := q_clog_time_to_warn (queues s q)\<rparr>)\<rparr>"
    by simp
  then show ?thesis by (rule that)
next
  case False
  then show ?thesis by (rule_tac that) (auto simp: clog_warning_def split: if_splits)
qed

lemma qmgr_entry_create_inv:
  assumes inv: "qmgr_inv s" and linked: "queue_linked s (p_queue (peers s p))" 
    and live: "p < heap_next s" "(Peer_obj, p) \<notin> set (heap_freed s)"
    and alive: "\<not> QMGR_QUEUE_THROTTLED (queues s (p_queue (peers s p)))"
  shows "returns (qmgr_entry_create conf p m s) (\<lambda>(e, s'). qmgr_inv s' \<and> e = heap_next s
    \<and> q_todo (queues s' (p_queue (peers s p))) = q_todo (queues s (p_queue (peers s p))) @ [e])"
proof -
  have qi: "queues_inv s" and ei: "entries_inv s" using inv by (simp_all add: qmgr_inv_def)
  let ?q = "p_queue (peers s p)" and ?e = "heap_next s"
  let ?en = "\<lparr>e_stream = None, e_message = m, e_rcpt_list = [], e_queue = ?q, e_peer = p\<rparr>"
  let ?pe = "(peers s p)\<lparr>p_entry_list := p_entry_list (peers s p) @ [?e], p_refcount := p_refcount (peers s p) + 1\<rparr>"
  let ?j = "p_job (peers s p)"
  let ?s1 = "s\<lparr>heap_next := Suc ?e, entries := (entries s)(?e := ?en),
    messages := (messages s)(m := (messages s m)\<lparr>m_refcount := m_refcount (messages s m) + 1\<rparr>),
    peers := (peers s)(p := ?pe),
    queues := (queues s)(?q := (queues s ?q)\<lparr>q_todo := q_todo (queues s ?q) @ [?e],
      q_todo_refcount := q_todo_refcount (queues s ?q) + 1\<rparr>),
    jobs := (jobs s)(?j := (jobs s ?j)\<lparr>j_read_entries := j_read_entries (jobs s ?j) + 1\<rparr>)\<rparr>"
  obtain c where c: "clog_warning conf ?q ?s1 = ?s1\<lparr>queues := (queues ?s1)(?q := (queues ?s1 ?q)\<lparr>q_clog_time_to_warn := c\<rparr>)\<rparr>"
    by (rule clog_warning_frame)
  let ?qu = "(queues s ?q)\<lparr>q_todo := q_todo (queues s ?q) @ [?e],
    q_todo_refcount := q_todo_refcount (queues s ?q) + 1, q_clog_time_to_warn := c\<rparr>"
  let ?s' = "?s1\<lparr>queues := (queues s)(?q := ?qu)\<rparr>"
  have ret: "qmgr_entry_create conf p m s = Ret (?e, ?s')"
    using alive c by (simp add: qmgr_entry_create_def Let_def)
  note qd = queue_linkedD [OF qi linked] and tm = queue_timers_linked [OF qi linked]
  have ok: "queue_ok (queue_transport s ?q) ?qu"
    using qd(2) by (auto simp: queue_ok_def queue_status_defs)
  have qi': "queues_inv ?s'"
    by (rule queues_inv_local [OF qi linked, where qu = ?qu]) (use ok tm in \<open>auto simp: queue_status_defs\<close>)
  have fresh: "?e \<notin> set (q_todo (queues s r))" "?e \<notin> set (q_busy (queues s r))" for r
    using entries_invD(1) [OF ei, of ?e r] by (auto simp: on_queue_def)
  have fresh': "?e \<notin> set (p_entry_list (peers s r))" for r
    using entries_invD(4) [OF ei, of ?e r] fresh by auto
  have link: "queue_linked ?s' r = queue_linked s r" for r by (rule queue_linked_cong) simp_all
  have oq: "on_queue ?s' x r" if "on_queue s x r" "x \<noteq> ?e" for x r
    using that by (auto simp: on_queue_def)
  have "\<forall>a \<in> set (heap_freed s). snd a < ?e" using qi by (simp add: queues_inv_def)
  then have "(Entry_obj, ?e) \<notin> set (heap_freed s)" by auto
  then have oqe: "on_queue ?s' ?e ?q" using live by (simp add: on_queue_def)
  have op: "on_peer ?s' x r \<longleftrightarrow> (if x = ?e then r = p else on_peer s x r)" for x r by (auto simp: on_peer_def)
  have "on_queue ?s' x r \<and> queue_linked ?s' r"
    if "x \<in> set (q_todo (queues ?s' r) @ q_busy (queues ?s' r))" for x r
    using that entries_invD(1) [OF ei, of x r] fresh [of r] oq oqe linked
    unfolding link by (cases "x = ?e") (auto split: if_splits)
  moreover have "distinct (q_todo (queues ?s' r) @ q_busy (queues ?s' r))" for r
    using entries_invD(2) [OF ei, of r] fresh [of r] by auto
  moreover have "distinct (p_entry_list (peers ?s' r))" for r
    using entries_invD(3) [OF ei, of r] fresh' [of r] by auto
  moreover have "x \<in> set (p_entry_list (peers ?s' r)) \<longleftrightarrow>
      on_peer ?s' x r \<and> x \<in> set (q_todo (queues ?s' (p_queue (peers ?s' r))))" for x r
    using entries_invD(4) [OF ei, of x r] fresh [of "p_queue (peers s r)"] fresh' [of r]
    unfolding op by (cases "x = ?e"; cases "r = p") auto
  ultimately have "entries_inv ?s'" unfolding entries_inv_def by blast
  then show ?thesis using qi' unfolding ret by (simp add: qmgr_inv_def)
qed

lemma qmgr_peer_create_inv:
  assumes inv: "qmgr_inv s"
  shows "qmgr_inv (snd (qmgr_peer_create j q s))"
proof -
  let ?s' = "snd (qmgr_peer_create j q s)" and ?p = "heap_next s"
  have qi: "queues_inv s" and ei: "entries_inv s" using inv by (simp_all add: qmgr_inv_def)
  have eqs: "queues ?s' = queues s" "transports ?s' = transports s" "entries ?s' = entries s"
    "timers ?s' = timers s" "heap_freed ?s' = heap_freed s" "heap_next ?s' = Suc ?p"
    "peers ?s' = (peers s)(?p := \<lparr>p_job = j, p_queue = q, p_refcount = 0, p_entry_list = []\<rparr>)"
    by (simp_all add: qmgr_peer_create_def Let_def)
  have link: "queue_linked ?s' r = queue_linked s r" for r by (rule queue_linked_cong) (simp_all add: eqs)
  have "queue_list_ok ?s' t" for t
    using queues_invD(3) [OF qi, of t] by (fastforce simp: queue_list_ok_def belongs_def eqs)
  then have "queues_inv ?s'"
    using qi by (auto simp: queues_inv_def queue_timers_ok_def queue_good_def link eqs less_Suc_eq)
  moreover have oq: "on_queue ?s' e r" if "on_queue s e r" for e r
    using that by (auto simp: on_queue_def eqs)
  have op: "on_peer ?s' = on_peer s" by (simp add: fun_eq_iff on_peer_def eqs)
  have none: "\<not> (on_peer s e ?p \<and> e \<in> set (q_todo (queues s r)))" for e r
    using entries_invD(1) [OF ei, of e r] by (auto simp: on_queue_def on_peer_def)
  have "entries_inv ?s'"
    using ei oq none [of _ q] unfolding entries_inv_def link op eqs by auto
  ultimately show ?thesis by (simp add: qmgr_inv_def)
qed

text \<open>Freeing an object that no list refers to.\<close>

lemma qmgr_inv_free_other:
  assumes "qmgr_inv s" and "a < heap_next s" and "k \<noteq> Queue_obj"
    and "\<And>e q. e \<in> set (q_todo (queues s q) @ q_busy (queues s q)) \<Longrightarrow>
      \<not> (k = Entry_obj \<and> a = e) \<and> \<not> (k = Peer_obj \<and> a = e_peer (entries s e))"
  shows "qmgr_inv (myfree k a s)"
proof -
  let ?s = "s\<lparr>heap_freed := (k, a) # heap_freed s\<rparr>"
  have [simp]: "queue_linked ?s = queue_linked s" by (simp add: fun_eq_iff queue_linked_def)
  have [simp]: "on_peer ?s = on_peer s" "belongs ?s = belongs s"
    by (simp_all add: fun_eq_iff on_peer_def belongs_def)
  have oq: "on_queue ?s e q" if "e \<in> set (q_todo (queues s q) @ q_busy (queues s q))" "on_queue s e q" for e q
    using that assms(4) [OF that(1)] by (auto simp: on_queue_def)
  have "queues_inv ?s"
    using assms(1-3) by (auto simp: qmgr_inv_def queues_inv_def queue_timers_ok_def queue_good_def queue_list_ok_def)
  moreover have "entries_inv ?s"
    using assms(1) oq unfolding qmgr_inv_def entries_inv_def by auto
  ultimately show ?thesis by (simp add: qmgr_inv_def)
qed

lemma qmgr_peer_obtain_inv:
  assumes "qmgr_inv s"
  shows "qmgr_inv (snd (qmgr_peer_obtain j q s))"
  using assms by (auto simp: qmgr_peer_obtain_def qmgr_peer_create_inv split: option.split)

section \<open>Selection is fair, and unselection undoes it\<close>

text \<open>
  Unselecting a just selected entry restores the peer's list in its original order, as the comment
  in the source promises, and every counter; only the order of the queue's todo list and its
  session caching flags may differ.
\<close>

lemma entry_select_unselect:
  assumes inv: "qmgr_inv s" and sel: "qmgr_entry_select p s = (Some e, s')"
  shows "peers (qmgr_entry_unselect e s') = peers s" and "jobs (qmgr_entry_unselect e s') = jobs s"
    and "q_busy (queues (qmgr_entry_unselect e s') (e_queue (entries s e))) = q_busy (queues s (e_queue (entries s e)))"
    and "q_todo (queues (qmgr_entry_unselect e s') (e_queue (entries s e)))
           = remove1 e (q_todo (queues s (e_queue (entries s e)))) @ [e]"
    and "q_todo_refcount (queues (qmgr_entry_unselect e s') q) = q_todo_refcount (queues s q)"
    and "q_busy_refcount (queues (qmgr_entry_unselect e s') q) = q_busy_refcount (queues s q)"
proof -
  have ei: "entries_inv s" using inv by (simp add: qmgr_inv_def)
  obtain es where es: "p_entry_list (peers s p) = e # es"
    using sel by (cases "p_entry_list (peers s p)") (auto simp: qmgr_entry_select_def Let_def)
  have mem: "on_peer s e p" "e \<in> set (q_todo (queues s (p_queue (peers s p))))"
    using entries_invD(4) [OF ei, of e p] es by auto
  then have q: "e_queue (entries s e) = p_queue (peers s p)" and p: "e_peer (entries s e) = p"
    using entries_invD(1) [OF ei, of e "p_queue (peers s p)"] by (auto simp: on_queue_def on_peer_def)
  have notbusy: "e \<notin> set (q_busy (queues s (p_queue (peers s p))))"
    using entries_invD(2) [OF ei, of "p_queue (peers s p)"] mem by auto
  have s': "s' = snd (qmgr_entry_select p s)" using sel by simp
  have pe: "(peers s p)\<lparr>p_entry_list := e # es\<rparr> = peers s p" using es by simp
  show "peers (qmgr_entry_unselect e s') = peers s"
    using pe by (simp add: s' qmgr_entry_select_Some [OF es] qmgr_entry_unselect_def Let_def p q)
  show "jobs (qmgr_entry_unselect e s') = jobs s"
    by (simp add: s' qmgr_entry_select_Some [OF es] qmgr_entry_unselect_def Let_def p q)
  show "q_busy (queues (qmgr_entry_unselect e s') (e_queue (entries s e))) = q_busy (queues s (e_queue (entries s e)))"
    "q_todo (queues (qmgr_entry_unselect e s') (e_queue (entries s e)))
       = remove1 e (q_todo (queues s (e_queue (entries s e)))) @ [e]"
    "q_todo_refcount (queues (qmgr_entry_unselect e s') q) = q_todo_refcount (queues s q)"
    "q_busy_refcount (queues (qmgr_entry_unselect e s') q) = q_busy_refcount (queues s q)"
    using notbusy
    by (simp_all add: s' qmgr_entry_select_Some [OF es] qmgr_entry_unselect_def Let_def p q selected_queue_def remove1_append)
qed

end
