(* ===== verification/Qmgr_Job.thy ===== *)
theory Qmgr_Job
  imports Qmgr_Peer
begin

text \<open>
  Per-transport message jobs and the preemptive scheduler: \<^verbatim>\<open>src/src/qmgr/qmgr_job.c\<close>.
  A job is what one message has to deliver over one transport. Jobs are kept by arrival time and
  in scheduling order; a large job may be preempted by a smaller one, which is placed in front
  of it as its stack child. \<^verbatim>\<open>qmgr_message_realloc()\<close>, which reads more recipients from the
  queue file, is a parameter.
\<close>

section \<open>Lists and counters\<close>

text \<open>The list members that follow an object; an object that is not linked has no successor.\<close>

definition after :: "'a \<Rightarrow> 'a list \<Rightarrow> 'a list" where
  "after x xs = tl (dropWhile (\<lambda>y. y \<noteq> x) xs)"

definition first_of :: "'a list \<Rightarrow> 'a option" where
  "first_of xs = (case xs of [] \<Rightarrow> None | x # _ \<Rightarrow> Some x)"

definition HAS_ENTRIES :: "job \<Rightarrow> bool" where
  "HAS_ENTRIES x \<longleftrightarrow> j_selected_entries x < j_read_entries x"

definition MIN_ENTRIES :: "job \<Rightarrow> int" where
  "MIN_ENTRIES x = j_read_entries x"

definition MAX_ENTRIES :: "qmgr \<Rightarrow> job_id \<Rightarrow> int" where
  "MAX_ENTRIES s j = j_read_entries (jobs s j) + m_rcpt_unread (job_message s j)"

definition RESET_CANDIDATE_CACHE :: "transport_id \<Rightarrow> qmgr \<Rightarrow> qmgr" where
  "RESET_CANDIDATE_CACHE t s = upd_transport t (\<lambda>x. x\<lparr>t_candidate_cache_current := None\<rparr>) s"

definition IS_BLOCKER :: "qmgr \<Rightarrow> job_id \<Rightarrow> transport_id \<Rightarrow> bool" where
  "IS_BLOCKER s j t \<longleftrightarrow> j_blocker_tag (jobs s j) = t_blocker_tag (transports s t)"

section \<open>Creating, linking and finding jobs\<close>

definition qmgr_job_create :: "message_id \<Rightarrow> transport_id \<Rightarrow> qmgr \<Rightarrow> job_id \<times> qmgr" where
  "qmgr_job_create m t s =
     (let (j, s) = mymalloc s;
          s = upd_message m (\<lambda>x. x\<lparr>m_job_list := m_job_list x @ [j]\<rparr>) s;
          s = upd_transport t (\<lambda>x. x\<lparr>t_job_byname := (t_job_byname x)(m_queue_id (messages s m) \<mapsto> j)\<rparr>) s
      in (j, upd_job j (\<lambda>_. \<lparr>j_message = m, j_transport = t, j_stack_parent = None, j_stack_children = [],
             j_stack_level = -1, j_blocker_tag = 0, j_peer_byname = Map.empty, j_peer_list = [],
             j_slots_used = 0, j_slots_available = 0, j_selected_entries = 0, j_read_entries = 0,
             j_rcpt_count = 0, j_rcpt_limit = 0\<rparr>) s))"

text \<open>Moving unused recipient slots: find and cache the next unread job if this job is the cached one.\<close>

definition advance_next_unread :: "job_id \<Rightarrow> qmgr \<Rightarrow> qmgr" where
  "advance_next_unread j s =
     (let t = j_transport (jobs s j)
      in if Some j = t_job_next_unread (transports s t)
         then upd_transport t (\<lambda>x. x\<lparr>t_job_next_unread :=
                first_of (filter (\<lambda>n. m_rcpt_offset (job_message s n) \<noteq> 0) (after j (t_job_bytime x)))\<rparr>) s
         else s)"

definition unused_slots :: "qmgr \<Rightarrow> job_id \<Rightarrow> int" where
  "unused_slots s j =
     (let rcpt_unused = j_rcpt_limit (jobs s j) - j_rcpt_count (jobs s j);
          msg_rcpt_unused = m_rcpt_limit (job_message s j) - m_rcpt_count (job_message s j)
      in if msg_rcpt_unused < rcpt_unused then msg_rcpt_unused else rcpt_unused)"

text \<open>Transfer \<open>n\<close> slots from the transport's pool to a job and its message (or back, if negative).\<close>

definition give_slots :: "job_id \<Rightarrow> transport_id \<Rightarrow> int \<Rightarrow> qmgr \<Rightarrow> qmgr" where
  "give_slots j t n s =
     (let s = upd_job j (\<lambda>x. x\<lparr>j_rcpt_limit := j_rcpt_limit x + n\<rparr>) s;
          s = upd_message (j_message (jobs s j)) (\<lambda>x. x\<lparr>m_rcpt_limit := m_rcpt_limit x + n\<rparr>) s
      in upd_transport t (\<lambda>x. x\<lparr>t_rcpt_unused := t_rcpt_unused x - n\<rparr>) s)"

text \<open>Give the whole pool, if it is positive.\<close>

definition give_pool :: "job_id \<Rightarrow> transport_id \<Rightarrow> qmgr \<Rightarrow> qmgr" where
  "give_pool j t s =
     (if t_rcpt_unused (transports s t) > 0 then give_slots j t (t_rcpt_unused (transports s t)) s else s)"

definition qmgr_job_move_limits :: "job_id \<Rightarrow> qmgr \<Rightarrow> qmgr" where
  "qmgr_job_move_limits j s =
     (let t = j_transport (jobs s j);
          s = advance_next_unread j s;
          unused = unused_slots s j
      in if unused > 0 then
           let s = give_slots j t (- unused) s
           in case t_job_next_unread (transports s t) of None \<Rightarrow> s | Some n \<Rightarrow> give_pool n t s
         else s)"

text \<open>
  The traversal of a job list from its end: stop at the first job that satisfies \<open>stop\<close>, and
  forget the pointer \<open>cur\<close> when the traversal passes the job that it refers to. The result is the
  list up to and including the job where the traversal stopped, the rest, and the pointer.
\<close>

fun link_scan :: "(job_id \<Rightarrow> bool) \<Rightarrow> job_id list \<Rightarrow> job_id list \<Rightarrow> job_id option
    \<Rightarrow> job_id list \<times> job_id list \<times> job_id option" where
  "link_scan stop [] acc cur = ([], acc, cur)"
| "link_scan stop (p # ps) acc cur =
     (if stop p then (rev (p # ps), acc, cur)
      else link_scan stop ps (p # acc) (if cur = Some p then None else cur))"

text \<open>Is the message of job \<open>p\<close> at least as old as that of job \<open>j\<close>?\<close>

definition not_younger :: "qmgr \<Rightarrow> job_id \<Rightarrow> job_id \<Rightarrow> bool" where
  "not_younger s j p \<longleftrightarrow> m_queued_time (job_message s j) - m_queued_time (job_message s p) \<ge> 0"

definition job_list_scan :: "qmgr \<Rightarrow> job_id \<Rightarrow> job_id list \<times> job_id list \<times> job_id option" where
  "job_list_scan s j =
     link_scan (\<lambda>p. j_stack_parent (jobs s p) = None \<and> not_younger s j p)
       (rev (t_job_list (job_transport s j))) [] (t_job_current (job_transport s j))"

definition bytime_scan :: "qmgr \<Rightarrow> job_id \<Rightarrow> job_id list \<times> job_id list \<times> job_id option" where
  "bytime_scan s j =
     link_scan (not_younger s j) (rev (t_job_bytime (job_transport s j))) []
       (t_job_next_unread (job_transport s j))"

text \<open>Link the job into both lists, and make it the current job if the old one comes later.\<close>

definition link_lists :: "job_id \<Rightarrow> qmgr \<Rightarrow> qmgr" where
  "link_lists j s =
     (let t = j_transport (jobs s j);
          (before, behind, current) = job_list_scan s j;
          (tbefore, tbehind, unread) = bytime_scan s j;
          s = upd_job j (\<lambda>x. x\<lparr>j_stack_level := 0\<rparr>) s
      in upd_transport t (\<lambda>x. x\<lparr>t_job_list := before @ j # behind, t_job_bytime := tbefore @ j # tbehind,
           t_job_current := (if current = None then Some j else t_job_current x)\<rparr>) s)"

text \<open>Become the first unread job, and take the unused slots of the old one.\<close>

definition take_over_unread :: "job_id \<Rightarrow> qmgr \<Rightarrow> qmgr" where
  "take_over_unread j s =
     (let t = j_transport (jobs s j); unread = t_job_next_unread (transports s t);
          s = upd_transport t (\<lambda>x. x\<lparr>t_job_next_unread := Some j\<rparr>) s
      in case unread of None \<Rightarrow> s | Some u \<Rightarrow> qmgr_job_move_limits u s)"

definition qmgr_job_link :: "job_id \<Rightarrow> qmgr \<Rightarrow> qmgr outcome" where
  "qmgr_job_link j s =
     (if j_stack_level (jobs s j) \<ge> 0 then Panic ''qmgr_job_link''
      else
        let unread = snd (snd (bytime_scan s j));
            s = link_lists j s;
            s = (if unread = None then take_over_unread j s else s)
        in Ret (give_pool j (j_transport (jobs s j)) s))"

definition qmgr_job_find :: "message_id \<Rightarrow> transport_id \<Rightarrow> qmgr \<Rightarrow> job_id option" where
  "qmgr_job_find m t s = t_job_byname (transports s t) (m_queue_id (messages s m))"

definition qmgr_job_obtain :: "message_id \<Rightarrow> transport_id \<Rightarrow> qmgr \<Rightarrow> (job_id \<times> qmgr) outcome" where
  "qmgr_job_obtain m t s =
     (let (j, s) = (case qmgr_job_find m t s of Some j \<Rightarrow> (j, s) | None \<Rightarrow> qmgr_job_create m t s)
      in obind (if j_stack_level (jobs s j) < 0 then qmgr_job_link j s else Ret s)
           (\<lambda>s. let s = RESET_CANDIDATE_CACHE t s
                in Ret (j, if IS_BLOCKER s j t
                           then upd_transport t (\<lambda>x. x\<lparr>t_job_current := first_of (t_job_list x)\<rparr>)
                                  (upd_job j (\<lambda>x. x\<lparr>j_blocker_tag := 0\<rparr>) s)
                           else s)))"

section \<open>The job stack\<close>

text \<open>The children are moved one by one to the new parent, if there is one.\<close>

definition adopt_child :: "job_id \<Rightarrow> job_id option \<Rightarrow> job_id \<Rightarrow> qmgr \<Rightarrow> qmgr" where
  "adopt_child j parent child s =
     (let s = upd_job j (\<lambda>x. x\<lparr>j_stack_children := remove1 child (j_stack_children x)\<rparr>) s;
          s = (case parent of None \<Rightarrow> s
               | Some p \<Rightarrow> upd_job p (\<lambda>x. x\<lparr>j_stack_children := j_stack_children x @ [child]\<rparr>) s)
      in upd_job child (\<lambda>x. x\<lparr>j_stack_parent := parent\<rparr>) s)"

definition qmgr_job_parent_gone :: "job_id \<Rightarrow> job_id option \<Rightarrow> qmgr \<Rightarrow> qmgr" where
  "qmgr_job_parent_gone j parent s = fold (adopt_child j parent) (j_stack_children (jobs s j)) s"

definition qmgr_job_pop :: "job_id \<Rightarrow> qmgr \<Rightarrow> qmgr outcome" where
  "qmgr_job_pop j s =
     (let t = j_transport (jobs s j); parent = j_stack_parent (jobs s j)
      in if j_stack_level (jobs s j) \<le> 0 then Panic ''qmgr_job_pop''
         else
           let s = (case parent of
                      None \<Rightarrow> s
                    | Some p \<Rightarrow>
                        let s = (if j_stack_level (jobs s j) = j_stack_level (jobs s p) + 1
                                 then upd_job p (\<lambda>x. x\<lparr>j_slots_available := j_slots_available x
                                        - j_slots_used (jobs s j) * t_slot_cost (transports s t)\<rparr>) s
                                 else s);
                            s = upd_job p (\<lambda>x. x\<lparr>j_stack_children := remove1 j (j_stack_children x)\<rparr>) s
                        in upd_job j (\<lambda>x. x\<lparr>j_stack_parent := None\<rparr>) s);
               s = qmgr_job_parent_gone j parent s;
               s = upd_job j (\<lambda>x. x\<lparr>j_stack_level := 0\<rparr>) s
           in Ret (RESET_CANDIDATE_CACHE t s))"

text \<open>The next sibling on the stack; a job without a parent is on no list of children.\<close>

definition stack_sibling_next :: "qmgr \<Rightarrow> job_id \<Rightarrow> job_id option" where
  "stack_sibling_next s j =
     (case j_stack_parent (jobs s j) of None \<Rightarrow> None
      | Some p \<Rightarrow> first_of (after j (j_stack_children (jobs s p))))"

definition qmgr_job_unlink :: "job_id \<Rightarrow> qmgr \<Rightarrow> qmgr outcome" where
  "qmgr_job_unlink j s =
     (let t = j_transport (jobs s j)
      in if j_stack_level (jobs s j) \<noteq> 0 then Panic ''qmgr_job_unlink''
         else if j_stack_parent (jobs s j) \<noteq> None then Panic ''qmgr_job_unlink''
         else if stack_sibling_next s j \<noteq> None then Panic ''qmgr_job_unlink''
         else
           let s = qmgr_job_parent_gone j None s;
               s = (if t_job_current (transports s t) = Some j
                    then upd_transport t (\<lambda>x. x\<lparr>t_job_current := first_of (after j (t_job_list x))\<rparr>) s else s);
               s = (if t_candidate_cache (transports s t) = Some j
                       \<or> t_candidate_cache_current (transports s t) = Some j
                    then RESET_CANDIDATE_CACHE t s else s);
               s = upd_transport t (\<lambda>x. x\<lparr>t_job_list := remove1 j (t_job_list x),
                                         t_job_bytime := remove1 j (t_job_bytime x)\<rparr>) s
           in Ret (upd_job j (\<lambda>x. x\<lparr>j_stack_level := -1\<rparr>) s))"

definition qmgr_job_retire :: "job_id \<Rightarrow> qmgr \<Rightarrow> qmgr outcome" where
  "qmgr_job_retire j s =
     obind (if j_stack_level (jobs s j) > 0 then qmgr_job_pop j s else Ret s)
       (\<lambda>s. qmgr_job_unlink j (qmgr_job_move_limits j s))"

definition qmgr_job_free :: "job_id \<Rightarrow> qmgr \<Rightarrow> qmgr outcome" where
  "qmgr_job_free j s =
     (let m = j_message (jobs s j); t = j_transport (jobs s j)
      in if j_rcpt_count (jobs s j) \<noteq> 0 then Panic ''qmgr_job_free''
         else obind (if j_stack_level (jobs s j) > 0 then qmgr_job_pop j s else Ret s)
           (\<lambda>s. let s = qmgr_job_move_limits j s
                in if j_rcpt_limit (jobs s j) \<noteq> 0 then Panic ''qmgr_job_free''
                   else obind (if j_stack_level (jobs s j) \<ge> 0 then qmgr_job_unlink j s else Ret s)
                     (\<lambda>s. if t_job_byname (transports s t) (m_queue_id (messages s m)) = None
                          then Panic ''htable_delete''
                          else
                            let s = upd_message m (\<lambda>x. x\<lparr>m_job_list := remove1 j (m_job_list x)\<rparr>) s;
                                s = upd_transport t (\<lambda>x. x\<lparr>t_job_byname :=
                                      (t_job_byname x)(m_queue_id (messages s m) := None)\<rparr>) s
                            in Ret (myfree Job_obj j s))))"

section \<open>The preemptive scheduler\<close>

definition qmgr_job_count_slots :: "job_id \<Rightarrow> qmgr \<Rightarrow> qmgr" where
  "qmgr_job_count_slots j s =
     (let s = upd_job j (\<lambda>x. x\<lparr>j_slots_available := j_slots_available x + 1, j_slots_used := j_slots_used x + 1\<rparr>) s;
          t = j_transport (jobs s j)
      in if t_candidate_cache_current (transports s t) \<noteq> Some j then RESET_CANDIDATE_CACHE t s else s)"

text \<open>The number of entries that a job may still have to deliver, and its age in seconds plus one.\<close>

definition needed_entries :: "qmgr \<Rightarrow> job_id \<Rightarrow> int" where
  "needed_entries s j = MAX_ENTRIES s j - j_selected_entries (jobs s j)"

definition job_delay :: "qmgr \<Rightarrow> job_id \<Rightarrow> int" where
  "job_delay s j = sane_now s - m_queued_time (job_message s j) + 1"

definition job_score :: "qmgr \<Rightarrow> job_id \<Rightarrow> rat" where
  "job_score s j = of_int (job_delay s j) / of_int (MAX_ENTRIES s j)"

text \<open>A job that may preempt: a leaf of its stack, not blocked, that fits in the available slots.\<close>

definition leaf_nonblocker :: "qmgr \<Rightarrow> transport_id \<Rightarrow> job_id \<Rightarrow> bool" where
  "leaf_nonblocker s t j \<longleftrightarrow> \<not> (j_stack_children (jobs s j) \<noteq> [] \<or> IS_BLOCKER s j t)"

definition fits :: "qmgr \<Rightarrow> int \<Rightarrow> job_id \<Rightarrow> bool" where
  "fits s max_slots j \<longleftrightarrow> needed_entries s j > 0 \<and> needed_entries s j \<le> max_slots"

text \<open>The loop over the jobs that follow the current one, with its early exit.\<close>

fun candidate_scan :: "qmgr \<Rightarrow> transport_id \<Rightarrow> int \<Rightarrow> job_id list \<Rightarrow> job_id option \<times> rat \<Rightarrow> job_id option \<times> rat" where
  "candidate_scan s t max_slots [] best = best"
| "candidate_scan s t max_slots (j # js) (best_job, best_score) =
     (if j_stack_children (jobs s j) \<noteq> [] \<or> IS_BLOCKER s j t
      then candidate_scan s t max_slots js (best_job, best_score)
      else
        let best = (if fits s max_slots j \<and> job_score s j > best_score
                    then (Some j, job_score s j) else (best_job, best_score))
        in if of_int (job_delay s j) \<le> snd best \<and> j_stack_level (jobs s j) = 0
           then best
           else candidate_scan s t max_slots js best)"

definition max_slots_of :: "qmgr \<Rightarrow> job_id \<Rightarrow> int" where
  "max_slots_of s j = (MIN_ENTRIES (jobs s j) - j_selected_entries (jobs s j) + j_slots_available (jobs s j))
     sdiv t_slot_cost (job_transport s j)"

definition qmgr_job_candidate :: "job_id \<Rightarrow> qmgr \<Rightarrow> job_id option \<times> qmgr" where
  "qmgr_job_candidate cur s =
     (let t = j_transport (jobs s cur); xp = transports s t; now = sane_now s
      in if t_candidate_cache_current xp = Some cur
            \<and> (t_candidate_cache_time xp = now \<or> t_candidate_cache xp = None)
         then (t_candidate_cache xp, s)
         else
           let best = (if max_slots_of s cur > 0
                       then fst (candidate_scan s t (max_slots_of s cur) (after cur (t_job_list xp)) (None, 0))
                       else None)
           in (best, upd_transport t (\<lambda>x. x\<lparr>t_candidate_cache := best, t_candidate_cache_current := Some cur,
                                            t_candidate_cache_time := now\<rparr>) s))"

text \<open>Take \<open>x\<close> out of the list and put it right in front of \<open>y\<close>.\<close>

definition move_before :: "'a \<Rightarrow> 'a \<Rightarrow> 'a list \<Rightarrow> 'a list" where
  "move_before x y xs =
     (let ys = remove1 x xs in takeWhile (\<lambda>z. z \<noteq> y) ys @ x # dropWhile (\<lambda>z. z \<noteq> y) ys)"

text \<open>
  Place the candidate in front of the current job, make it the current job and a stack child of
  the old one, and charge the old job for the delivery slots the candidate is expected to use.
\<close>

definition stack_push :: "job_id \<Rightarrow> job_id \<Rightarrow> transport_id \<Rightarrow> int \<Rightarrow> qmgr \<Rightarrow> qmgr" where
  "stack_push j cur t expected s =
     (let s = upd_transport t (\<lambda>x. x\<lparr>t_job_list := move_before j cur (t_job_list x)\<rparr>) s;
          s = upd_job j (\<lambda>x. x\<lparr>j_stack_parent := Some cur\<rparr>) s;
          s = upd_job cur (\<lambda>x. x\<lparr>j_stack_children := j_stack_children x @ [j]\<rparr>) s;
          s = upd_job j (\<lambda>x. x\<lparr>j_stack_level := j_stack_level (jobs s cur) + 1\<rparr>) s;
          s = upd_transport t (\<lambda>x. x\<lparr>t_job_current := Some j\<rparr>) s;
          s = RESET_CANDIDATE_CACHE t s;
          s = upd_job cur (\<lambda>x. x\<lparr>j_slots_available := j_slots_available x - expected * t_slot_cost (transports s t)\<rparr>) s
      in upd_job j (\<lambda>x. x\<lparr>j_slots_used := - expected\<rparr>) s)"

text \<open>The slots that the current job has accumulated, with the loan, against what the candidate needs.\<close>

definition enough_slots :: "qmgr \<Rightarrow> job_id \<Rightarrow> int \<Rightarrow> bool" where
  "enough_slots s cur expected \<longleftrightarrow>
     \<not> (of_int (j_slots_available (jobs s cur) sdiv t_slot_cost (job_transport s cur) + t_slot_loan (job_transport s cur))
         < (of_int (expected * t_slot_loan_factor (job_transport s cur)) / 100 :: rat))"

definition qmgr_job_preempt :: "job_id \<Rightarrow> qmgr \<Rightarrow> (job_id \<times> qmgr) outcome" where
  "qmgr_job_preempt cur s =
     (let t = j_transport (jobs s cur); xp = transports s t
      in if j_slots_available (jobs s cur) \<le> 0 \<or> MAX_ENTRIES s cur < t_min_slots xp * t_slot_cost xp
         then Ret (cur, s)
         else case qmgr_job_candidate cur s of
             (None, s) \<Rightarrow> Ret (cur, s)
           | (Some j, s) \<Rightarrow>
               if j = cur then Panic ''qmgr_job_preempt''
               else if j_stack_children (jobs s j) \<noteq> [] then Panic ''qmgr_job_preempt''
               else if j_stack_level (jobs s j) < 0 then Panic ''qmgr_job_preempt''
               else
                 let expected = needed_entries s j
                 in if \<not> enough_slots s cur expected then Ret (cur, s)
                    else obind (if j_stack_level (jobs s j) > 0 then qmgr_job_pop j s else Ret s)
                      (\<lambda>s. let s = stack_push j cur t expected s
                           in Ret (j, if m_rcpt_offset (job_message s j) \<noteq> 0
                                      then give_slots j t
                                             ((t_rcpt_per_stack xp + t_rcpt_unused (transports s t) + 1) sdiv 2) s
                                      else s)))"

section \<open>Selecting an entry for delivery\<close>

type_synonym message_realloc = "message_id \<Rightarrow> qmgr \<Rightarrow> qmgr outcome"

definition qmgr_job_peer_select :: "message_realloc \<Rightarrow> job_id \<Rightarrow> qmgr \<Rightarrow> (peer_id option \<times> qmgr) outcome" where
  "qmgr_job_peer_select realloc j s =
     (let m = j_message (jobs s j); msg = messages s m; xp = job_transport s j
      in obind (if m_rcpt_offset msg \<noteq> 0 \<and> m_refcount msg > 0
                   \<and> (m_rcpt_limit msg - m_rcpt_count msg \<ge> t_refill_limit xp
                       \<or> (m_rcpt_limit msg > m_rcpt_count msg
                           \<and> sane_now s - m_refill_time msg \<ge> t_refill_delay xp))
                then realloc m s else Ret s)
           (\<lambda>s. let (p, s) = (if HAS_ENTRIES (jobs s j) then qmgr_peer_select j s else (None, s))
                in case p of
                     Some p \<Rightarrow> Ret (Some p, s)
                   | None \<Rightarrow>
                       if m_rcpt_offset (messages s m) \<noteq> 0 \<and> m_refcount (messages s m) > 0
                          \<and> m_rcpt_limit (messages s m) > m_rcpt_count (messages s m)
                       then obind (realloc m s)
                              (\<lambda>s. Ret (if HAS_ENTRIES (jobs s j) then qmgr_peer_select j s else (None, s)))
                       else Ret (None, s)))"

text \<open>Mark a job, and the queues that block it, with the current blocker tag.\<close>

definition mark_blocker :: "job_id \<Rightarrow> transport_id \<Rightarrow> qmgr \<Rightarrow> qmgr" where
  "mark_blocker j t s =
     (let tag = t_blocker_tag (transports s t);
          s = upd_job j (\<lambda>x. x\<lparr>j_blocker_tag := tag\<rparr>) s
      in fold (\<lambda>p s. if p_entry_list (peers s p) \<noteq> []
                     then upd_queue (p_queue (peers s p)) (\<lambda>x. x\<lparr>q_blocker_tag := tag\<rparr>) s else s)
           (j_peer_list (jobs s j)) s)"

text \<open>
  The loop over the job list. The successor of a job is read before the job is handled, because
  the job may be retired. \<open>fuel\<close> bounds the number of jobs visited.
\<close>

fun entry_select_loop :: "message_realloc \<Rightarrow> nat \<Rightarrow> transport_id \<Rightarrow> job_id option \<Rightarrow> qmgr
    \<Rightarrow> (entry_id option \<times> qmgr) outcome" where
  "entry_select_loop realloc fuel t None s =
     Ret (None, upd_transport t (\<lambda>x. x\<lparr>t_job_current := None\<rparr>) s)"
| "entry_select_loop realloc 0 t (Some j) s = Diverge"
| "entry_select_loop realloc (Suc fuel) t (Some j) s =
     (let next = first_of (after j (t_job_list (transports s t)))
      in if IS_BLOCKER s j t then entry_select_loop realloc fuel t next s
         else obind (qmgr_job_peer_select realloc j s)
           (\<lambda>(p, s). case p of
                Some p \<Rightarrow>
                  let (e, s) = qmgr_entry_select p s;
                      s = qmgr_job_count_slots j s;
                      s = upd_transport t (\<lambda>x. x\<lparr>t_job_current := Some j\<rparr>) s
                  in obind (if \<not> HAS_ENTRIES (jobs s j) \<and> m_rcpt_offset (job_message s j) = 0
                            then qmgr_job_retire j s else Ret s)
                       (\<lambda>s. Ret (e, s))
              | None \<Rightarrow>
                  if HAS_ENTRIES (jobs s j) then entry_select_loop realloc fuel t next (mark_blocker j t s)
                  else obind (qmgr_job_retire j s) (entry_select_loop realloc fuel t next)))"

definition qmgr_job_entry_select :: "message_realloc \<Rightarrow> nat \<Rightarrow> transport_id \<Rightarrow> qmgr
    \<Rightarrow> (entry_id option \<times> qmgr) outcome" where
  "qmgr_job_entry_select realloc fuel t s =
     (case t_job_current (transports s t) of
        None \<Rightarrow> Ret (None, s)
      | Some j \<Rightarrow>
          obind (if t_slot_cost (transports s t) \<ge> 2 then qmgr_job_preempt j s else Ret (j, s))
            (\<lambda>(j, s). entry_select_loop realloc fuel t (Some j) s))"

end
