(* ===== verification/Qmgr_Sched.thy ===== *)
theory Qmgr_Sched
  imports Qmgr_Job
begin

text \<open>
  Properties of the preemptive scheduler of theory \<open>Qmgr_Job\<close>: what the job operations leave
  alone, the order of the job lists, the accounting of recipient and delivery slots, the choice of
  the preempting candidate and the termination of the selection loop.
\<close>

section \<open>Job operations do not touch queues, entries or peers\<close>

text \<open>The part of a job that ties it to its transport, message and peers.\<close>

definition job_view :: "job \<Rightarrow> transport_id \<times> message_id \<times> (string \<rightharpoonup> peer_id)" where
  "job_view x = (j_transport x, j_message x, j_peer_byname x)"

definition same_core :: "qmgr \<Rightarrow> qmgr \<Rightarrow> bool" where
  "same_core s s' \<longleftrightarrow> entries s' = entries s \<and> peers s' = peers s \<and> timers s' = timers s
     \<and> heap_next s' = heap_next s \<and> heap_freed s' = heap_freed s
     \<and> (\<forall>j. job_view (jobs s' j) = job_view (jobs s j))
     \<and> (\<forall>q. (queues s' q)\<lparr>q_blocker_tag := 0\<rparr> = (queues s q)\<lparr>q_blocker_tag := 0\<rparr>)
     \<and> (\<forall>t. t_view (transports s' t) = t_view (transports s t)
            \<and> t_job_byname (transports s' t) = t_job_byname (transports s t))"

lemma same_core_refl [simp]: "same_core s s"
  by (simp add: same_core_def)

lemma same_core_trans [trans]: "same_core s s' \<Longrightarrow> same_core s' s'' \<Longrightarrow> same_core s s''"
  by (simp add: same_core_def)

lemma same_core_right: "same_core s' s'' \<Longrightarrow> same_core s s'' = same_core s s'"
  unfolding same_core_def by simp

lemma blocker_tag_reset_eq:
  assumes "(x :: queue)\<lparr>q_blocker_tag := 0\<rparr> = y\<lparr>q_blocker_tag := 0\<rparr>"
  shows "q_todo x = q_todo y" "q_busy x = q_busy y" "q_todo_refcount x = q_todo_refcount y"
    "q_busy_refcount x = q_busy_refcount y" "q_window x = q_window y" "q_transport x = q_transport y"
    "q_name x = q_name y" "q_dsn x = q_dsn y"
  using arg_cong [OF assms, of q_todo] arg_cong [OF assms, of q_busy]
    arg_cong [OF assms, of q_todo_refcount] arg_cong [OF assms, of q_busy_refcount]
    arg_cong [OF assms, of q_window] arg_cong [OF assms, of q_transport]
    arg_cong [OF assms, of q_name] arg_cong [OF assms, of q_dsn]
  by simp_all

lemma same_core_queue:
  assumes "same_core s s'"
  shows "q_todo (queues s' q) = q_todo (queues s q)" "q_busy (queues s' q) = q_busy (queues s q)"
    "q_todo_refcount (queues s' q) = q_todo_refcount (queues s q)"
    "q_busy_refcount (queues s' q) = q_busy_refcount (queues s q)"
    "q_window (queues s' q) = q_window (queues s q)" "q_transport (queues s' q) = q_transport (queues s q)"
    "q_name (queues s' q) = q_name (queues s q)" "q_dsn (queues s' q) = q_dsn (queues s q)"
  using assms blocker_tag_reset_eq [of "queues s' q" "queues s q"] by (simp_all add: same_core_def)

lemma qmgr_inv_same_core:
  assumes "same_core s s'"
  shows "qmgr_inv s' = qmgr_inv s"
proof -
  note qs = same_core_queue [OF assms]
  have v: "t_view (transports s' t) = t_view (transports s t)" for t
    using assms by (simp add: same_core_def)
  have eqs: "entries s' = entries s" "peers s' = peers s" "timers s' = timers s"
    "heap_next s' = heap_next s" "heap_freed s' = heap_freed s"
    using assms by (simp_all add: same_core_def)
  have link: "queue_linked s' = queue_linked s"
    using queue_linked_cong [OF qs(6) v] by (simp add: fun_eq_iff)
  have "queue_ok t (queues s' q) = queue_ok t (queues s q)" for t q
    by (simp add: queue_ok_def queue_status_defs qs)
  then have good: "queue_good s' = queue_good s"
    using t_viewD [OF v] by (simp add: queue_good_def qs fun_eq_iff)
  have rest: "on_queue s' = on_queue s" "on_peer s' = on_peer s" "belongs s' = belongs s"
    "queue_timers_ok s' = queue_timers_ok s"
    by (simp_all add: fun_eq_iff on_queue_def on_peer_def belongs_def queue_timers_ok_def eqs qs link queue_status_defs)
  have lists: "queue_list_ok s' = queue_list_ok s"
    using t_viewD(3) [OF v] by (simp add: fun_eq_iff queue_list_ok_def eqs rest)
  show ?thesis
    by (simp add: qmgr_inv_def queues_inv_def entries_inv_def link good rest lists eqs qs)
qed

text \<open>Basic steps.\<close>

lemma same_core_jobs [simp]:
  "(\<And>k. job_view (js k) = job_view (jobs s' k)) \<Longrightarrow> same_core s (s'\<lparr>jobs := js\<rparr>) = same_core s s'"
  by (rule same_core_right) (simp add: same_core_def)

lemma job_view_simps [simp]:
  "job_view (x\<lparr>j_stack_parent := a\<rparr>) = job_view x" "job_view (x\<lparr>j_stack_children := b\<rparr>) = job_view x"
  "job_view (x\<lparr>j_stack_level := c\<rparr>) = job_view x" "job_view (x\<lparr>j_blocker_tag := c\<rparr>) = job_view x"
  "job_view (x\<lparr>j_peer_list := d\<rparr>) = job_view x" "job_view (x\<lparr>j_slots_used := c\<rparr>) = job_view x"
  "job_view (x\<lparr>j_slots_available := c\<rparr>) = job_view x" "job_view (x\<lparr>j_selected_entries := c\<rparr>) = job_view x"
  "job_view (x\<lparr>j_read_entries := c\<rparr>) = job_view x" "job_view (x\<lparr>j_rcpt_count := c\<rparr>) = job_view x"
  "job_view (x\<lparr>j_rcpt_limit := c\<rparr>) = job_view x"
  by (simp_all add: job_view_def)

lemma same_core_messages [simp]: "same_core s (s'\<lparr>messages := ms\<rparr>) = same_core s s'"
  by (simp add: same_core_def)

lemma same_core_transport [simp]:
  "t_view xp = t_view (transports s' t) \<Longrightarrow> t_job_byname xp = t_job_byname (transports s' t)
    \<Longrightarrow> same_core s (s'\<lparr>transports := (transports s')(t := xp)\<rparr>) = same_core s s'"
  by (rule same_core_right) (simp add: same_core_def)

lemma t_view_simps [simp]:
  "t_view (x\<lparr>t_job_list := a\<rparr>) = t_view x" "t_view (x\<lparr>t_job_bytime := a\<rparr>) = t_view x"
  "t_view (x\<lparr>t_job_current := b\<rparr>) = t_view x" "t_view (x\<lparr>t_job_next_unread := b\<rparr>) = t_view x"
  "t_view (x\<lparr>t_candidate_cache := b\<rparr>) = t_view x" "t_view (x\<lparr>t_candidate_cache_current := b\<rparr>) = t_view x"
  "t_view (x\<lparr>t_candidate_cache_time := c\<rparr>) = t_view x" "t_view (x\<lparr>t_rcpt_unused := c\<rparr>) = t_view x"
  "t_view (x\<lparr>t_job_byname := d\<rparr>) = t_view x" "t_view (x\<lparr>t_blocker_tag := c\<rparr>) = t_view x"
  by (simp_all add: t_view_def)

lemma give_slots_core [simp]: "same_core s (give_slots j t n s') = same_core s s'"
  by (rule same_core_right) (simp add: give_slots_def Let_def same_core_def)

lemma give_pool_core [simp]: "same_core s (give_pool j t s') = same_core s s'"
  by (simp add: give_pool_def)

lemma advance_next_unread_core [simp]: "same_core s (advance_next_unread j s') = same_core s s'"
  by (simp add: advance_next_unread_def Let_def)

lemma move_limits_core [simp]: "same_core s (qmgr_job_move_limits j s') = same_core s s'"
  by (simp add: qmgr_job_move_limits_def Let_def split: option.split)

lemma RESET_CANDIDATE_CACHE_core [simp]: "same_core s (RESET_CANDIDATE_CACHE t s') = same_core s s'"
  by (rule same_core_right) (simp add: RESET_CANDIDATE_CACHE_def same_core_def)

lemma parent_gone_core [simp]: "same_core s (qmgr_job_parent_gone j p s') = same_core s s'"
  unfolding qmgr_job_parent_gone_def
  by (rule same_core_right, rule fold_preserves) (auto simp: adopt_child_def Let_def split: option.split)

lemma job_pop_core: "qmgr_job_pop j s = Ret s' \<Longrightarrow> same_core s s'"
  by (auto simp: qmgr_job_pop_def Let_def split: if_splits option.splits)

lemma job_unlink_core: "qmgr_job_unlink j s = Ret s' \<Longrightarrow> same_core s s'"
  by (auto simp: qmgr_job_unlink_def Let_def split: if_splits)

lemma job_retire_core: "qmgr_job_retire j s = Ret s' \<Longrightarrow> same_core s s'"
  unfolding qmgr_job_retire_def obind_Ret_iff
  by (metis job_pop_core job_unlink_core move_limits_core outcome.inject same_core_refl same_core_trans)

lemma count_slots_core [simp]: "same_core s (qmgr_job_count_slots j s') = same_core s s'"
  by (simp add: qmgr_job_count_slots_def Let_def)

lemma candidate_core: "qmgr_job_candidate cur s = (c, s') \<Longrightarrow> same_core s s'"
  by (auto simp: qmgr_job_candidate_def Let_def same_core_def split: if_splits)

lemma mark_blocker_core [simp]: "same_core s (mark_blocker j t s') = same_core s s'"
  unfolding mark_blocker_def Let_def
  by (rule same_core_right, rule fold_preserves) (auto simp: same_core_def)

section \<open>Recipient slots are conserved\<close>

text \<open>
  \<open>slots_total\<close> counts the recipient slots of a transport: those in its pool and those given to
  its jobs \<open>J\<close>. \<open>message_gap\<close> is what a message's limit exceeds the limits of its jobs by.
\<close>

definition slots_total :: "job_id set \<Rightarrow> transport_id \<Rightarrow> qmgr \<Rightarrow> int" where
  "slots_total J t s = t_rcpt_unused (transports s t) + (\<Sum>j\<in>J. j_rcpt_limit (jobs s j))"

definition message_gap :: "job_id set \<Rightarrow> message_id \<Rightarrow> qmgr \<Rightarrow> int" where
  "message_gap J m s = m_rcpt_limit (messages s m)
     - (\<Sum>j\<in>J. if j_message (jobs s j) = m then j_rcpt_limit (jobs s j) else 0)"

definition same_slots :: "job_id set \<Rightarrow> transport_id \<Rightarrow> qmgr \<Rightarrow> qmgr \<Rightarrow> bool" where
  "same_slots J t s s' \<longleftrightarrow> slots_total J t s' = slots_total J t s
     \<and> (\<forall>m. message_gap J m s' = message_gap J m s)
     \<and> (\<forall>j. j_message (jobs s' j) = j_message (jobs s j) \<and> j_transport (jobs s' j) = j_transport (jobs s j))"

lemma same_slots_refl [simp]: "same_slots J t s s"
  by (simp add: same_slots_def)

lemma same_slots_trans [trans]: "same_slots J t s s' \<Longrightarrow> same_slots J t s' s'' \<Longrightarrow> same_slots J t s s''"
  by (simp add: same_slots_def)

lemma sum_upd:
  fixes f :: "'a \<Rightarrow> int"
  assumes "finite J" and "j \<in> J" and "\<And>k. k \<noteq> j \<Longrightarrow> g k = f k"
  shows "sum g J = sum f J + (g j - f j)"
proof -
  have "sum g (J - {j}) = sum f (J - {j})" using assms(3) by (intro sum.cong) auto
  then show ?thesis using assms(1,2) by (simp add: sum.remove [of J j])
qed

lemma give_slots_same:
  assumes "finite J" and "j \<in> J"
  shows "same_slots J t s (give_slots j t n s)"
proof -
  let ?s' = "give_slots j t n s"
  have jobs: "jobs ?s' k = (if k = j then (jobs s j)\<lparr>j_rcpt_limit := j_rcpt_limit (jobs s j) + n\<rparr> else jobs s k)" for k
    by (simp add: give_slots_def Let_def)
  have lim: "m_rcpt_limit (messages ?s' m)
      = m_rcpt_limit (messages s m) + (if m = j_message (jobs s j) then n else 0)" for m
    by (simp add: give_slots_def Let_def)
  have "(\<Sum>k\<in>J. j_rcpt_limit (jobs ?s' k)) = (\<Sum>k\<in>J. j_rcpt_limit (jobs s k)) + n"
    by (subst sum_upd [OF assms, where f = "\<lambda>k. j_rcpt_limit (jobs s k)"]) (simp_all add: jobs)
  moreover have "(\<Sum>k\<in>J. if j_message (jobs ?s' k) = m then j_rcpt_limit (jobs ?s' k) else 0)
      = (\<Sum>k\<in>J. if j_message (jobs s k) = m then j_rcpt_limit (jobs s k) else 0)
        + (if m = j_message (jobs s j) then n else 0)" for m
    by (subst sum_upd [OF assms, where f = "\<lambda>k. if j_message (jobs s k) = m then j_rcpt_limit (jobs s k) else 0"])
      (auto simp: jobs)
  moreover have "t_rcpt_unused (transports ?s' t) = t_rcpt_unused (transports s t) - n"
    by (simp add: give_slots_def Let_def)
  ultimately show ?thesis
    by (simp add: same_slots_def slots_total_def message_gap_def lim jobs)
qed

lemma give_pool_same:
  "finite J \<Longrightarrow> j \<in> J \<Longrightarrow> same_slots J t s (give_pool j t s)"
  by (simp add: give_pool_def give_slots_same)

text \<open>Steps that change no limit at all.\<close>

definition limits_frame :: "qmgr \<Rightarrow> qmgr \<Rightarrow> bool" where
  "limits_frame s s' \<longleftrightarrow> (\<forall>t. t_rcpt_unused (transports s' t) = t_rcpt_unused (transports s t))
     \<and> (\<forall>m. m_rcpt_limit (messages s' m) = m_rcpt_limit (messages s m))
     \<and> (\<forall>j. j_rcpt_limit (jobs s' j) = j_rcpt_limit (jobs s j) \<and> j_message (jobs s' j) = j_message (jobs s j)
            \<and> j_transport (jobs s' j) = j_transport (jobs s j))"

lemma limits_frame_refl [simp]: "limits_frame s s"
  by (simp add: limits_frame_def)

lemma limits_frame_trans: "limits_frame s s' \<Longrightarrow> limits_frame s' s'' \<Longrightarrow> limits_frame s s''"
  by (simp add: limits_frame_def)

lemma limits_frame_same: "limits_frame s s' \<Longrightarrow> same_slots J t s s'"
  by (simp add: limits_frame_def same_slots_def slots_total_def message_gap_def cong: if_cong)

lemma advance_next_unread_frame: "limits_frame s (advance_next_unread j s)"
  by (simp add: limits_frame_def advance_next_unread_def Let_def)

lemma parent_gone_frame: "limits_frame s (qmgr_job_parent_gone j p s)"
  unfolding qmgr_job_parent_gone_def
  by (rule fold_preserves) (auto simp: adopt_child_def Let_def limits_frame_def split: option.split)

lemma job_pop_frame: "qmgr_job_pop j s = Ret s' \<Longrightarrow> limits_frame s s'"
  using parent_gone_frame
  by (auto simp: qmgr_job_pop_def Let_def RESET_CANDIDATE_CACHE_def limits_frame_def split: if_splits option.splits)

lemma job_unlink_frame: "qmgr_job_unlink j s = Ret s' \<Longrightarrow> limits_frame s s'"
  using parent_gone_frame [of s j None]
  by (auto simp: qmgr_job_unlink_def Let_def RESET_CANDIDATE_CACHE_def limits_frame_def split: if_splits)

lemma after_subset: "set (after x xs) \<subseteq> set xs"
  by (induction xs) (auto simp: after_def)

text \<open>A set of jobs that is closed: it holds every job of the transport that slots can move to.\<close>

definition job_pool :: "qmgr \<Rightarrow> transport_id \<Rightarrow> job_id set \<Rightarrow> bool" where
  "job_pool s t J \<longleftrightarrow> finite J \<and> set (t_job_bytime (transports s t)) \<subseteq> J
     \<and> set_option (t_job_next_unread (transports s t)) \<subseteq> J"

lemma advance_next_unread_pool:
  assumes "job_pool s t J" and "j_transport (jobs s j) = t"
  shows "job_pool (advance_next_unread j s) t J"
  using assms after_subset [of j "t_job_bytime (transports s t)"]
  by (auto simp: job_pool_def advance_next_unread_def Let_def first_of_def split: list.splits)
    (metis (no_types, lifting) filter_is_subset list.set_intros(1) subset_iff)

lemma move_limits_same:
  assumes pool: "job_pool s t J" and "j \<in> J" and t: "j_transport (jobs s j) = t"
  shows "same_slots J t s (qmgr_job_move_limits j s)"
proof -
  let ?s1 = "advance_next_unread j s"
  let ?s2 = "give_slots j t (- unused_slots ?s1 j) ?s1"
  have fin: "finite J" using pool by (simp add: job_pool_def)
  have 1: "same_slots J t s ?s1" by (rule limits_frame_same [OF advance_next_unread_frame])
  have 2: "same_slots J t ?s1 ?s2" by (rule give_slots_same [OF fin assms(2)])
  have "t_job_next_unread (transports ?s2 t) = t_job_next_unread (transports ?s1 t)"
    by (simp add: give_slots_def Let_def)
  then have "n \<in> J" if "t_job_next_unread (transports ?s2 t) = Some n" for n
    using that advance_next_unread_pool [OF pool t] by (metis job_pool_def option.set_intros subsetD)
  then have "same_slots J t ?s2 (case t_job_next_unread (transports ?s2 t) of None \<Rightarrow> ?s2 | Some n \<Rightarrow> give_pool n t ?s2)"
    using give_pool_same [OF fin] by (auto split: option.split)
  with 1 2 show ?thesis
    by (auto simp: qmgr_job_move_limits_def Let_def t intro: same_slots_trans)
qed

lemma link_scan_spec:
  "link_scan stop (rev xs) acc cur = (before, behind, cur') \<Longrightarrow>
     \<exists>ys. behind = ys @ acc \<and> xs = before @ ys \<and> (\<forall>y \<in> set ys. \<not> stop y)
       \<and> (before = [] \<or> stop (last before))
       \<and> cur' = (if \<exists>y \<in> set ys. cur = Some y then None else cur)"
proof (induction xs arbitrary: acc cur rule: rev_induct)
  case (snoc x xs)
  show ?case
  proof (cases "stop x")
    case True
    with snoc.prems show ?thesis by (auto intro!: exI [of _ "[]"])
  next
    case False
    with snoc.prems have "link_scan stop (rev xs) (x # acc) (if cur = Some x then None else cur) = (before, behind, cur')"
      by simp
    from snoc.IH [OF this] False show ?thesis by (auto 0 4)
  qed
qed auto

lemma parent_gone_transports [simp]: "transports (qmgr_job_parent_gone j p s) = transports s"
  unfolding qmgr_job_parent_gone_def
  by (rule fold_preserves [where P = "\<lambda>s'. transports s' = transports s"])
    (auto simp: adopt_child_def Let_def split: option.split)

lemma job_pop_pool: "qmgr_job_pop j s = Ret s' \<Longrightarrow> job_pool s t J \<Longrightarrow> job_pool s' t J"
  by (auto simp: qmgr_job_pop_def Let_def RESET_CANDIDATE_CACHE_def job_pool_def split: if_splits option.splits)

lemma link_lists_frame: "limits_frame s (link_lists j s)"
  by (simp add: limits_frame_def link_lists_def Let_def split: prod.split)

lemma link_lists_pool:
  assumes pool: "job_pool s t J" and "j \<in> J" and t: "j_transport (jobs s j) = t"
  shows "job_pool (link_lists j s) t J"
proof -
  obtain a b c ta tb tc where sc: "job_list_scan s j = (a, b, c)" "bytime_scan s j = (ta, tb, tc)"
    by (metis prod_cases3)
  then have "set (ta @ tb) = set (t_job_bytime (transports s t))"
    using link_scan_spec [OF sc(2) [unfolded bytime_scan_def]] t by auto
  then show ?thesis
    using assms by (auto simp: job_pool_def link_lists_def Let_def sc)
qed

lemma take_over_unread_same:
  assumes pool: "job_pool s t J" and "j \<in> J" and t: "j_transport (jobs s j) = t"
    and unread: "\<And>u. t_job_next_unread (transports s t) = Some u \<Longrightarrow> j_transport (jobs s u) = t"
  shows "same_slots J t s (take_over_unread j s)"
proof (cases "t_job_next_unread (transports s t)")
  case None
  then show ?thesis by (auto simp: take_over_unread_def Let_def t limits_frame_def intro!: limits_frame_same)
next
  case (Some u)
  let ?s1 = "s\<lparr>transports := (transports s)(t := (transports s t)\<lparr>t_job_next_unread := Some j\<rparr>)\<rparr>"
  have "same_slots J t s ?s1" by (rule limits_frame_same) (simp add: limits_frame_def)
  moreover have "same_slots J t ?s1 (qmgr_job_move_limits u ?s1)"
    by (rule move_limits_same) (use pool assms(2) Some unread in \<open>auto simp: job_pool_def\<close>)
  ultimately show ?thesis
    using Some by (simp add: take_over_unread_def Let_def t) (blast intro: same_slots_trans)
qed

lemma job_link_same:
  assumes pool: "job_pool s t J" and j: "j \<in> J" and t: "j_transport (jobs s j) = t"
    and unread: "\<And>u. t_job_next_unread (transports s t) = Some u \<Longrightarrow> j_transport (jobs s u) = t"
    and ret: "qmgr_job_link j s = Ret s'"
  shows "same_slots J t s s'"
proof -
  let ?s1 = "link_lists j s" and ?c = "snd (snd (bytime_scan s j)) = None"
  let ?s2 = "if ?c then take_over_unread j ?s1 else ?s1"
  have 1: "same_slots J t s ?s1" by (rule limits_frame_same [OF link_lists_frame])
  have t1: "j_transport (jobs ?s1 j) = t" "t_job_next_unread (transports ?s1 t) = t_job_next_unread (transports s t)"
    using t by (simp_all add: link_lists_def Let_def split: prod.split)
  have tr: "j_transport (jobs ?s1 u) = j_transport (jobs s u)" for u
    using link_lists_frame [of s j] by (simp add: limits_frame_def)
  have "same_slots J t ?s1 ?s2"
    using take_over_unread_same [OF link_lists_pool [OF pool j t] j t1(1)] unread t1 tr by simp
  then have 2: "same_slots J t s ?s2" using 1 by (blast intro: same_slots_trans)
  then have "j_transport (jobs ?s2 j) = t" using t by (simp add: same_slots_def)
  then have "s' = give_pool j t ?s2" using ret by (auto simp: qmgr_job_link_def Let_def split: if_splits)
  then show ?thesis
    using 2 give_pool_same [of J j t ?s2] pool j by (metis job_pool_def same_slots_trans)
qed

lemma job_retire_same:
  assumes pool: "job_pool s t J" and j: "j \<in> J" and t: "j_transport (jobs s j) = t"
    and ret: "qmgr_job_retire j s = Ret s'"
  shows "same_slots J t s s'"
proof -
  obtain s1 where s1: "(if j_stack_level (jobs s j) > 0 then qmgr_job_pop j s else Ret s) = Ret s1"
    and s': "qmgr_job_unlink j (qmgr_job_move_limits j s1) = Ret s'"
    using ret by (auto simp: qmgr_job_retire_def)
  have f: "limits_frame s s1" using s1 by (auto split: if_splits dest: job_pop_frame)
  have "job_pool s1 t J" using s1 pool job_pop_pool by (auto split: if_splits)
  moreover have "j_transport (jobs s1 j) = t" using f t by (simp add: limits_frame_def)
  ultimately have "same_slots J t s1 (qmgr_job_move_limits j s1)" using move_limits_same j by blast
  then show ?thesis
    using limits_frame_same [OF f] limits_frame_same [OF job_unlink_frame [OF s']] by (blast intro: same_slots_trans)
qed

lemma candidate_frame:
  "qmgr_job_candidate cur s = (c, s') \<Longrightarrow> limits_frame s s' \<and> jobs s' = jobs s \<and> messages s' = messages s
     \<and> t_rcpt_per_stack (transports s' t) = t_rcpt_per_stack (transports s t)"
  by (auto simp: qmgr_job_candidate_def Let_def limits_frame_def split: if_splits)

lemma stack_push_frame: "limits_frame s (stack_push j cur t n s)"
  by (simp add: limits_frame_def stack_push_def Let_def RESET_CANDIDATE_CACHE_def)

lemma candidate_scan_mem:
  "fst (candidate_scan s t ms js best) = Some c \<Longrightarrow> c \<in> set js \<or> fst best = Some c"
  by (induction s t ms js best rule: candidate_scan.induct) (auto simp: Let_def split: if_splits)

lemma candidate_mem:
  assumes "qmgr_job_candidate cur s = (Some c, s')"
  shows "c \<in> set (after cur (t_job_list (job_transport s cur))) \<or> t_candidate_cache (job_transport s cur) = Some c"
  using assms candidate_scan_mem by (fastforce simp: qmgr_job_candidate_def Let_def split: if_splits)

text \<open>Either nothing is preempted, or the candidate is pushed in front of the current job.\<close>

lemma preempt_cases:
  assumes "qmgr_job_preempt cur s = Ret (j, s')"
  obtains (stay) "j = cur" and "s' = s \<or> (\<exists>c. qmgr_job_candidate cur s = (c, s'))"
  | (push) s1 s2 where "qmgr_job_candidate cur s = (Some j, s1)" and "j \<noteq> cur"
      and "j_stack_children (jobs s1 j) = []" and "0 \<le> j_stack_level (jobs s1 j)"
      and "enough_slots s1 cur (needed_entries s1 j)"
      and "(if j_stack_level (jobs s1 j) > 0 then qmgr_job_pop j s1 else Ret s1) = Ret s2"
      and "s' = stack_push j cur (j_transport (jobs s cur)) (needed_entries s1 j) s2
        \<or> (\<exists>n. s' = give_slots j (j_transport (jobs s cur)) n
                     (stack_push j cur (j_transport (jobs s cur)) (needed_entries s1 j) s2))"
proof -
  obtain c s1 where c: "qmgr_job_candidate cur s = (c, s1)" by (metis surj_pair)
  show ?thesis
  proof (cases "j = cur")
    case True
    then show ?thesis using assms c
      by (rule_tac stay) (auto simp: qmgr_job_preempt_def Let_def split: if_splits option.splits)
  next
    case False
    let ?t = "j_transport (jobs s cur)"
    have facts: "c = Some j" "j_stack_children (jobs s1 j) = []" "0 \<le> j_stack_level (jobs s1 j)"
      "enough_slots s1 cur (needed_entries s1 j)"
      using assms c False by (auto simp: qmgr_job_preempt_def Let_def split: if_splits option.splits)
    then have ret: "obind (if j_stack_level (jobs s1 j) > 0 then qmgr_job_pop j s1 else Ret s1)
        (\<lambda>s2. let s3 = stack_push j cur ?t (needed_entries s1 j) s2
              in Ret (j, if m_rcpt_offset (job_message s3 j) \<noteq> 0
                   then give_slots j ?t ((t_rcpt_per_stack (transports s ?t)
                          + t_rcpt_unused (transports s3 ?t) + 1) sdiv 2) s3
                   else s3)) = Ret (j, s')"
      using assms c False by (simp add: qmgr_job_preempt_def Let_def del: obind_Ret_iff split: if_split_asm)
    then obtain s2 where s2: "(if j_stack_level (jobs s1 j) > 0 then qmgr_job_pop j s1 else Ret s1) = Ret s2"
      and r: "(let s3 = stack_push j cur ?t (needed_entries s1 j) s2
              in Ret (j, if m_rcpt_offset (job_message s3 j) \<noteq> 0
                   then give_slots j ?t ((t_rcpt_per_stack (transports s ?t)
                          + t_rcpt_unused (transports s3 ?t) + 1) sdiv 2) s3
                   else s3)) = Ret (j, s')"
      unfolding obind_Ret_iff by blast
    from r have s': "s' = stack_push j cur ?t (needed_entries s1 j) s2
        \<or> (\<exists>n. s' = give_slots j ?t n (stack_push j cur ?t (needed_entries s1 j) s2))"
      by (auto simp: Let_def split: if_splits)
    show ?thesis using push [OF _ False facts(2-4) s2 s'] c facts(1) by simp
  qed
qed

lemma job_preempt_same:
  assumes "finite J" and "set (t_job_list (job_transport s cur)) \<subseteq> J"
    and "set_option (t_candidate_cache (job_transport s cur)) \<subseteq> J"
    and "qmgr_job_preempt cur s = Ret (j, s')"
  shows "same_slots J (j_transport (jobs s cur)) s s'"
  using assms(4)
proof (cases rule: preempt_cases)
  case stay
  then show ?thesis using candidate_frame by (auto intro: limits_frame_same)
next
  case (push s1 s2)
  let ?s3 = "stack_push j cur (j_transport (jobs s cur)) (needed_entries s1 j) s2"
  have "j \<in> J" using candidate_mem [OF push(1)] assms(2,3) after_subset by fastforce
  then have "same_slots J (j_transport (jobs s cur)) ?s3 s'"
    using push(7) give_slots_same [OF assms(1)] by auto
  moreover have "limits_frame s s1" using candidate_frame [OF push(1)] by simp
  moreover have "limits_frame s1 s2" using push(6) by (auto split: if_splits dest: job_pop_frame)
  ultimately show ?thesis
    using limits_frame_same stack_push_frame by (metis same_slots_trans)
qed

end
