(* ===== verification/Qmgr_Order.thy ===== *)
theory Qmgr_Order
  imports Qmgr_Sched
begin

text \<open>
  The order of the job lists, the choice of the preempting job and the accounting of delivery
  slots: what the comments of \<^verbatim>\<open>qmgr_job_link()\<close>, \<^verbatim>\<open>qmgr_job_candidate()\<close>
  and \<^verbatim>\<open>qmgr_job_preempt()\<close> in \<^verbatim>\<open>src/src/qmgr/qmgr_job.c\<close> promise.
\<close>

section \<open>The list by time stays sorted\<close>

definition qtime :: "qmgr \<Rightarrow> job_id \<Rightarrow> int" where
  "qtime s j = m_queued_time (job_message s j)"

definition bytime_sorted :: "qmgr \<Rightarrow> transport_id \<Rightarrow> bool" where
  "bytime_sorted s t \<longleftrightarrow> sorted (map (qtime s) (t_job_bytime (transports s t)))"

lemma sorted_map_insert:
  fixes f :: "'a \<Rightarrow> int"
  assumes "sorted (map f (as @ bs))" and "\<forall>b \<in> set bs. f j < f b"
    and "as = [] \<or> f (last as) \<le> f j"
  shows "sorted (map f (as @ j # bs))"
proof (cases as rule: rev_cases)
  case Nil
  then show ?thesis using assms(1,2) by (auto simp: less_imp_le)
next
  case (snoc cs c)
  then have "f c \<le> f j" "\<forall>a \<in> set cs. f a \<le> f c" "sorted (map f cs)" "sorted (map f bs)"
    using assms by (auto simp: sorted_append)
  then show ?thesis using assms(2) snoc by (fastforce simp: sorted_append)
qed

text \<open>Steps that keep the queue times, and leave the list by time alone or remove members.\<close>

definition times_frame :: "qmgr \<Rightarrow> qmgr \<Rightarrow> bool" where
  "times_frame s s' \<longleftrightarrow> (\<forall>j. qtime s' j = qtime s j)
     \<and> (\<forall>t. t_job_bytime (transports s' t) = t_job_bytime (transports s t))"

lemma times_frame_refl [simp]: "times_frame s s"
  by (simp add: times_frame_def)

lemma times_frame_trans: "times_frame s s' \<Longrightarrow> times_frame s' s'' \<Longrightarrow> times_frame s s''"
  by (simp add: times_frame_def)

lemma bytime_sorted_frame: "times_frame s s' \<Longrightarrow> bytime_sorted s' t = bytime_sorted s t"
  by (simp add: times_frame_def bytime_sorted_def cong: map_cong)

lemma give_slots_times: "times_frame s (give_slots j t n s)"
  by (simp add: times_frame_def qtime_def give_slots_def Let_def)

lemma give_pool_times: "times_frame s (give_pool j t s)"
  by (simp add: give_pool_def give_slots_times)

lemma advance_next_unread_times: "times_frame s (advance_next_unread j s)"
  by (simp add: times_frame_def qtime_def advance_next_unread_def Let_def)

lemma move_limits_times: "times_frame s (qmgr_job_move_limits j s)"
  unfolding qmgr_job_move_limits_def Let_def
  by (auto split: option.split intro: advance_next_unread_times
      times_frame_trans [OF times_frame_trans [OF advance_next_unread_times give_slots_times] give_pool_times]
      times_frame_trans [OF advance_next_unread_times give_slots_times])

lemma take_over_unread_times: "times_frame s (take_over_unread j s)"
proof -
  let ?t = "j_transport (jobs s j)"
  let ?s1 = "s\<lparr>transports := (transports s)(?t := (transports s ?t)\<lparr>t_job_next_unread := Some j\<rparr>)\<rparr>"
  have "times_frame s ?s1" by (simp add: times_frame_def qtime_def)
  then show ?thesis
    using times_frame_trans [OF _ move_limits_times, of s ?s1]
    by (simp add: take_over_unread_def Let_def split: option.split)
qed

lemma job_link_bytime_sorted:
  assumes sorted: "bytime_sorted s t" and t: "j_transport (jobs s j) = t"
    and ret: "qmgr_job_link j s = Ret s'"
  shows "bytime_sorted s' t"
proof -
  obtain a b c ta tb tc where sc: "job_list_scan s j = (a, b, c)" "bytime_scan s j = (ta, tb, tc)"
    by (metis prod_cases3)
  then obtain ys where ys: "tb = ys" "t_job_bytime (transports s t) = ta @ ys"
    "\<forall>y \<in> set ys. \<not> not_younger s j y" "ta = [] \<or> not_younger s j (last ta)"
    using link_scan_spec [OF sc(2) [unfolded bytime_scan_def]] t by auto
  have qt: "qtime (link_lists j s) k = qtime s k" for k
    by (simp add: qtime_def link_lists_def Let_def split: prod.split)
  have "sorted (map (qtime s) (ta @ j # ys))"
    by (rule sorted_map_insert) (use sorted ys in \<open>auto simp: bytime_sorted_def not_younger_def qtime_def\<close>)
  then have 1: "bytime_sorted (link_lists j s) t"
    using ys t qt by (simp add: bytime_sorted_def link_lists_def Let_def sc qtime_def cong: map_cong)
  let ?s1 = "link_lists j s"
  let ?s2 = "if snd (snd (bytime_scan s j)) = None then take_over_unread j ?s1 else ?s1"
  have "times_frame ?s1 ?s2" using take_over_unread_times by simp
  moreover have "\<exists>u. s' = give_pool j u ?s2" using ret by (auto simp: qmgr_job_link_def Let_def split: if_splits)
  ultimately have "times_frame ?s1 s'" using times_frame_trans give_pool_times by blast
  then show ?thesis using 1 bytime_sorted_frame by blast
qed

text \<open>Where the new job goes: after every older or equally old job.\<close>

lemma job_unlink_bytime:
  assumes "qmgr_job_unlink j s = Ret s'" and "bytime_sorted s t"
  shows "bytime_sorted s' t"
proof -
  have msgs: "messages (qmgr_job_parent_gone j None s) = messages s"
    "j_message (jobs (qmgr_job_parent_gone j None s) k) = j_message (jobs s k)" for k
    unfolding qmgr_job_parent_gone_def
    by (rule fold_preserves; auto simp: adopt_child_def Let_def)+
  have "qtime s' k = qtime s k" for k
    using assms(1) by (auto simp: qmgr_job_unlink_def Let_def qtime_def RESET_CANDIDATE_CACHE_def msgs split: if_splits)
  moreover have "t_job_bytime (transports s' t) = t_job_bytime (transports s t)
      \<or> t_job_bytime (transports s' t) = remove1 j (t_job_bytime (transports s t))"
    using assms(1) by (auto simp: qmgr_job_unlink_def Let_def RESET_CANDIDATE_CACHE_def split: if_splits)
  ultimately show ?thesis
    using assms(2) sorted_map_remove1 [of "qtime s" "t_job_bytime (transports s t)" j]
    by (auto simp: bytime_sorted_def cong: map_cong)
qed

lemma job_pop_times: "qmgr_job_pop j s = Ret s' \<Longrightarrow> times_frame s s'"
proof -
  assume ret: "qmgr_job_pop j s = Ret s'"
  have msgs: "messages (qmgr_job_parent_gone k p r) = messages r"
    "j_message (jobs (qmgr_job_parent_gone k p r) i) = j_message (jobs r i)" for k p i and r :: qmgr
    unfolding qmgr_job_parent_gone_def
    by (rule fold_preserves; auto simp: adopt_child_def Let_def split: option.split)+
  show ?thesis
    using ret by (auto simp: qmgr_job_pop_def Let_def times_frame_def qtime_def RESET_CANDIDATE_CACHE_def msgs
        split: if_splits option.splits)
qed

lemma job_retire_bytime_sorted:
  assumes "qmgr_job_retire j s = Ret s'" and "bytime_sorted s t"
  shows "bytime_sorted s' t"
proof -
  obtain s1 where s1: "(if j_stack_level (jobs s j) > 0 then qmgr_job_pop j s else Ret s) = Ret s1"
    and s': "qmgr_job_unlink j (qmgr_job_move_limits j s1) = Ret s'"
    using assms(1) by (auto simp: qmgr_job_retire_def)
  have "times_frame s s1" using s1 by (auto split: if_splits dest: job_pop_times)
  then have "times_frame s (qmgr_job_move_limits j s1)" using times_frame_trans move_limits_times by blast
  then show ?thesis using job_unlink_bytime [OF s'] assms(2) bytime_sorted_frame by blast
qed

section \<open>The early exit of the candidate search loses nothing\<close>

text \<open>
  A job that may preempt, and the precondition of the early exit: no job on the list is older
  than a job at stack level 0 in front of it.
\<close>

definition eligible :: "qmgr \<Rightarrow> transport_id \<Rightarrow> int \<Rightarrow> job_id \<Rightarrow> bool" where
  "eligible s t max_slots j \<longleftrightarrow> leaf_nonblocker s t j \<and> fits s max_slots j"

fun level0_ordered :: "qmgr \<Rightarrow> job_id list \<Rightarrow> bool" where
  "level0_ordered s [] \<longleftrightarrow> True"
| "level0_ordered s (j # js) \<longleftrightarrow>
     (j_stack_level (jobs s j) = 0 \<longrightarrow> (\<forall>k \<in> set js. qtime s j \<le> qtime s k)) \<and> level0_ordered s js"

text \<open>Entries are counted sensibly, and no message comes from the future.\<close>

definition counts_ok :: "qmgr \<Rightarrow> job_id \<Rightarrow> bool" where
  "counts_ok s j \<longleftrightarrow> 0 \<le> j_selected_entries (jobs s j) \<and> qtime s j \<le> sane_now s"

lemma job_score_le_delay:
  assumes "counts_ok s j" and "fits s ms j"
  shows "0 < job_score s j" and "job_score s j \<le> of_int (job_delay s j)"
proof -
  have d: "1 \<le> job_delay s j" and n: "1 \<le> MAX_ENTRIES s j"
    using assms by (auto simp: counts_ok_def fits_def needed_entries_def job_delay_def qtime_def)
  show "0 < job_score s j" using d n by (simp add: job_score_def)
  have "of_int (job_delay s j) / of_int (MAX_ENTRIES s j) \<le> (of_int (job_delay s j) / 1 :: rat)"
    using d n by (intro divide_left_mono) auto
  then show "job_score s j \<le> of_int (job_delay s j)" by (simp add: job_score_def)
qed

lemma candidate_scan_upper:
  assumes "level0_ordered s js" and "\<forall>j \<in> set js. counts_ok s j"
    and "candidate_scan s t ms js (b0, sc0) = (b, sc)" and "0 \<le> sc0"
  shows "sc0 \<le> sc \<and> (\<forall>j \<in> set js. eligible s t ms j \<longrightarrow> job_score s j \<le> sc)"
  using assms
proof (induction js arbitrary: b0 sc0)
  case (Cons j js)
  show ?case
  proof (cases "leaf_nonblocker s t j")
    case False
    with Cons show ?thesis by (auto simp: leaf_nonblocker_def eligible_def)
  next
    case True
    define best where "best = (if fits s ms j \<and> job_score s j > sc0 then (Some j, job_score s j) else (b0, sc0))"
    obtain b1 sc1 where b1: "best = (b1, sc1)" by (cases best) auto
    have up: "sc0 \<le> sc1" "eligible s t ms j \<longrightarrow> job_score s j \<le> sc1"
      using b1 by (auto simp: best_def eligible_def split: if_splits)
    have step: "(if of_int (job_delay s j) \<le> sc1 \<and> j_stack_level (jobs s j) = 0 then (b1, sc1)
        else candidate_scan s t ms js (b1, sc1)) = (b, sc)"
      using Cons.prems(3) True b1 by (simp add: leaf_nonblocker_def best_def [symmetric] Let_def)
    show ?thesis
    proof (cases "of_int (job_delay s j) \<le> sc1 \<and> j_stack_level (jobs s j) = 0")
      case True
      then have sc: "sc = sc1" using step by simp
      have "job_score s k \<le> sc1" if k: "k \<in> set js" "eligible s t ms k" for k
      proof -
        have "job_delay s k \<le> job_delay s j"
          using Cons.prems(1) True k(1) by (auto simp: job_delay_def qtime_def)
        moreover have "job_score s k \<le> of_int (job_delay s k)"
          using job_score_le_delay(2) Cons.prems(2) k by (auto simp: eligible_def)
        ultimately show ?thesis using True by (meson of_int_le_iff order_trans)
      qed
      with up sc show ?thesis by auto
    next
      case False
      then have "candidate_scan s t ms js (b1, sc1) = (b, sc)" using step by (auto split: if_splits)
      from Cons.IH [OF _ _ this] up Cons.prems show ?thesis by auto
    qed
  qed
qed auto

lemma candidate_scan_found:
  "candidate_scan s t ms js (b0, sc0) = (Some c, sc) \<Longrightarrow>
     (c \<in> set js \<and> eligible s t ms c \<and> sc = job_score s c) \<or> (b0 = Some c \<and> sc = sc0)"
proof (induction js arbitrary: b0 sc0)
  case (Cons j js)
  then show ?case
    by (auto simp: Let_def eligible_def leaf_nonblocker_def split: if_splits)
qed auto

lemma candidate_scan_none:
  "candidate_scan s t ms js (None, sc0) = (None, sc) \<Longrightarrow> sc = sc0"
proof (induction js)
  case (Cons j js)
  then show ?case
  proof (cases "leaf_nonblocker s t j \<and> fits s ms j \<and> job_score s j > sc0")
    case True
    have "candidate_scan s t ms js (Some k, x) \<noteq> (None, y)" for k x y
      by (induction js arbitrary: k x) (auto simp: Let_def)
    then show ?thesis using Cons.prems True
      by (auto simp: leaf_nonblocker_def Let_def split: if_splits)
  next
    case False
    with Cons show ?thesis by (auto simp: leaf_nonblocker_def Let_def split: if_splits)
  qed
qed auto

text \<open>
  C18: when its cached answer is not current, \<open>qmgr_job_candidate\<close> returns a job that is a
  leaf of its stack, is not blocked and fits in the slots of the current job, and that has the best
  score of all such jobs behind the current one; it returns none exactly when there is no such job.
  The early exit of the search loses nothing as long as jobs at stack level 0 come before younger
  ones only.
\<close>

theorem qmgr_job_candidate_optimal:
  assumes "t_candidate_cache_current (job_transport s cur) \<noteq> Some cur"
    and "level0_ordered s (after cur (t_job_list (job_transport s cur)))"
    and "\<forall>j \<in> set (after cur (t_job_list (job_transport s cur))). counts_ok s j"
  shows "case fst (qmgr_job_candidate cur s) of
      None \<Rightarrow> \<forall>k \<in> set (after cur (t_job_list (job_transport s cur))).
                \<not> eligible s (j_transport (jobs s cur)) (max_slots_of s cur) k
    | Some c \<Rightarrow> c \<in> set (after cur (t_job_list (job_transport s cur)))
        \<and> eligible s (j_transport (jobs s cur)) (max_slots_of s cur) c
        \<and> (\<forall>k \<in> set (after cur (t_job_list (job_transport s cur))).
              eligible s (j_transport (jobs s cur)) (max_slots_of s cur) k \<longrightarrow> job_score s k \<le> job_score s c)"
proof (cases "max_slots_of s cur > 0")
  case False
  then have "\<not> eligible s t (max_slots_of s cur) k" for t k by (auto simp: eligible_def fits_def)
  then show ?thesis using assms(1) False by (simp add: qmgr_job_candidate_def Let_def)
next
  case True
  let ?t = "j_transport (jobs s cur)" and ?js = "after cur (t_job_list (job_transport s cur))"
  obtain c sc where scan: "candidate_scan s ?t (max_slots_of s cur) ?js (None, 0) = (c, sc)" by fastforce
  have c: "fst (qmgr_job_candidate cur s) = c"
    using assms(1) True scan by (auto simp: qmgr_job_candidate_def Let_def)
  have upper: "\<forall>j \<in> set ?js. eligible s ?t (max_slots_of s cur) j \<longrightarrow> job_score s j \<le> sc"
    using candidate_scan_upper [OF assms(2,3) scan] by simp
  show ?thesis
  proof (cases c)
    case None
    then have "sc = 0" using candidate_scan_none scan by blast
    then have "\<not> eligible s ?t (max_slots_of s cur) k" if "k \<in> set ?js" for k
      using upper that assms(3) job_score_le_delay(1) by (fastforce simp: eligible_def)
    then show ?thesis using c None by simp
  next
    case (Some d)
    then show ?thesis using c upper candidate_scan_found scan by fastforce
  qed
qed

text \<open>A large job and a small one behind it.\<close>

definition demo_sched :: qmgr where
  "demo_sched = qmgr_initial\<lparr>sane_now := 10,
     transports := (\<lambda>_. blank_transport)(0 := blank_transport\<lparr>t_job_list := [1, 2], t_slot_cost := 5\<rparr>),
     jobs := (\<lambda>_. blank_job)
       (1 := blank_job\<lparr>j_message := 3, j_read_entries := 100, j_slots_available := 20\<rparr>,
        2 := blank_job\<lparr>j_message := 4, j_read_entries := 2\<rparr>)\<rparr>"

theorem qmgr_job_candidate_optimal_witness: "fst (qmgr_job_candidate 1 demo_sched) = Some 2"
  using qmgr_job_candidate_optimal [of demo_sched 1]
  by (simp add: demo_sched_def blank_defs after_def counts_ok_def qtime_def eligible_def leaf_nonblocker_def
      IS_BLOCKER_def fits_def needed_entries_def MAX_ENTRIES_def max_slots_of_def MIN_ENTRIES_def split: option.splits)

section \<open>Preemption charges the slots that are used\<close>

lemma count_slots_jobs:
  "jobs (qmgr_job_count_slots k s) = (jobs s)(k := (jobs s k)\<lparr>j_slots_available := j_slots_available (jobs s k) + 1,
     j_slots_used := j_slots_used (jobs s k) + 1\<rparr>)"
  by (simp add: qmgr_job_count_slots_def Let_def RESET_CANDIDATE_CACHE_def)

lemma count_slots_cost:
  "t_slot_cost (transports (qmgr_job_count_slots k s) t) = t_slot_cost (transports s t)"
  by (simp add: qmgr_job_count_slots_def Let_def RESET_CANDIDATE_CACHE_def)

lemma count_slots_fold:
  fixes ks :: "job_id list"
  defines "f \<equiv> \<lambda>ks s. fold qmgr_job_count_slots ks s"
  shows "j_slots_available (jobs (f ks s) j) = j_slots_available (jobs s j) + int (count_list ks j)"
    and "j_slots_used (jobs (f ks s) j) = j_slots_used (jobs s j) + int (count_list ks j)"
    and "j_stack_parent (jobs (f ks s) j) = j_stack_parent (jobs s j)"
    and "j_stack_level (jobs (f ks s) j) = j_stack_level (jobs s j)"
    and "j_stack_children (jobs (f ks s) j) = j_stack_children (jobs s j)"
    and "j_transport (jobs (f ks s) j) = j_transport (jobs s j)"
    and "t_slot_cost (transports (f ks s) t) = t_slot_cost (transports s t)"
  unfolding f_def by (induction ks arbitrary: s) (auto simp: count_slots_jobs count_slots_cost)

text \<open>
  C19: a preempting job is charged to the job it preempts in advance, for the number of delivery
  slots it is expected to need; when it leaves the stack, after any sequence of entry selections,
  the difference is settled, so that the preempted job has paid exactly the slot cost for every
  entry that the preempting job selected, and kept what it earned itself.
\<close>

theorem preemption_charges_used_slots:
  assumes "j \<noteq> cur" and "0 \<le> j_stack_level (jobs s cur)" and "j_stack_children (jobs s j) = []"
    and "j_transport (jobs s j) = t" and "j \<notin> set (j_stack_children (jobs s cur))"
  shows "\<exists>s'. qmgr_job_pop j (fold qmgr_job_count_slots ks (stack_push j cur t expected s)) = Ret s'
    \<and> j_slots_available (jobs s' cur) = j_slots_available (jobs s cur) + int (count_list ks cur)
         - int (count_list ks j) * t_slot_cost (transports s t)
    \<and> j_stack_children (jobs s' cur) = j_stack_children (jobs s cur)
    \<and> j_stack_parent (jobs s' j) = None \<and> j_stack_level (jobs s' j) = 0"
proof -
  let ?s1 = "stack_push j cur t expected s"
  let ?s2 = "fold qmgr_job_count_slots ks ?s1"
  have 1: "j_slots_available (jobs ?s1 cur) = j_slots_available (jobs s cur) - expected * t_slot_cost (transports s t)"
    "j_slots_used (jobs ?s1 j) = - expected" "j_stack_parent (jobs ?s1 j) = Some cur"
    "j_stack_level (jobs ?s1 j) = j_stack_level (jobs s cur) + 1" "j_stack_level (jobs ?s1 cur) = j_stack_level (jobs s cur)"
    "j_stack_children (jobs ?s1 j) = []" "j_stack_children (jobs ?s1 cur) = j_stack_children (jobs s cur) @ [j]"
    "j_transport (jobs ?s1 j) = t" "t_slot_cost (transports ?s1 t) = t_slot_cost (transports s t)"
    using assms by (simp_all add: stack_push_def Let_def RESET_CANDIDATE_CACHE_def)
  show ?thesis
    using assms 1
    by (simp add: qmgr_job_pop_def Let_def count_slots_fold qmgr_job_parent_gone_def RESET_CANDIDATE_CACHE_def
        remove1_append algebra_simps)
qed

theorem preemption_charges_used_slots_witness:
  "\<exists>s'. qmgr_job_pop 2 (fold qmgr_job_count_slots [2, 2] (stack_push 2 1 0 3 demo_sched)) = Ret s'
     \<and> j_slots_available (jobs s' 1) = 10"
  using preemption_charges_used_slots [of 2 1 demo_sched 0 "[2, 2]" 3]
  by (auto simp: demo_sched_def blank_defs)

end
