(* ===== verification/Qmgr_Slots.thy ===== *)
theory Qmgr_Slots
  imports Qmgr_Order
begin

text \<open>
  Recipient slots over whole schedules: any sequence of the job operations of
  \<^verbatim>\<open>src/src/qmgr/qmgr_job.c\<close> that move recipient slots conserves their number, and keeps
  the list of jobs by time in order.
\<close>

datatype sched_op = Sched_link job_id | Sched_retire job_id | Sched_move_limits job_id | Sched_preempt job_id

fun sched_job :: "sched_op \<Rightarrow> job_id" where
  "sched_job (Sched_link j) = j"
| "sched_job (Sched_retire j) = j"
| "sched_job (Sched_move_limits j) = j"
| "sched_job (Sched_preempt j) = j"

fun sched_exec :: "sched_op \<Rightarrow> qmgr \<Rightarrow> qmgr outcome" where
  "sched_exec (Sched_link j) s = qmgr_job_link j s"
| "sched_exec (Sched_retire j) s = qmgr_job_retire j s"
| "sched_exec (Sched_move_limits j) s = Ret (qmgr_job_move_limits j s)"
| "sched_exec (Sched_preempt j) s = obind (qmgr_job_preempt j s) (\<lambda>(_, s). Ret s)"

fun sched_run :: "sched_op list \<Rightarrow> qmgr \<Rightarrow> qmgr outcome" where
  "sched_run [] s = Ret s"
| "sched_run (op # ops) s = obind (sched_exec op s) (sched_run ops)"

text \<open>The jobs \<open>J\<close> of a transport: every job that its lists and caches refer to is one of them.\<close>

definition xport_jobs :: "transport \<Rightarrow> job_id set" where
  "xport_jobs x = set (t_job_list x) \<union> set (t_job_bytime x) \<union> set_option (t_job_current x)
     \<union> set_option (t_job_next_unread x) \<union> set_option (t_candidate_cache x)"

definition jobs_closed :: "job_id set \<Rightarrow> transport_id \<Rightarrow> qmgr \<Rightarrow> bool" where
  "jobs_closed J t s \<longleftrightarrow> finite J \<and> (\<forall>j\<in>J. j_transport (jobs s j) = t) \<and> xport_jobs (transports s t) \<subseteq> J"

lemma jobs_closed_pool: "jobs_closed J t s \<Longrightarrow> job_pool s t J"
  by (auto simp: jobs_closed_def job_pool_def xport_jobs_def)

lemma jobs_closed_frame:
  assumes "jobs_closed J t s" and "\<And>j. j_transport (jobs s' j) = j_transport (jobs s j)"
    and "xport_jobs (transports s' t) \<subseteq> J"
  shows "jobs_closed J t s'"
  using assms by (simp add: jobs_closed_def)

lemma xport_jobs_upd [simp]:
  "xport_jobs (x\<lparr>t_rcpt_unused := n\<rparr>) = xport_jobs x" "xport_jobs (x\<lparr>t_candidate_cache_current := c\<rparr>) = xport_jobs x"
  by (simp_all add: xport_jobs_def)

lemma give_slots_closed: "jobs_closed J t s \<Longrightarrow> jobs_closed J t (give_slots j u n s)"
  by (auto simp: jobs_closed_def give_slots_def Let_def)

lemma give_pool_closed: "jobs_closed J t s \<Longrightarrow> jobs_closed J t (give_pool j u s)"
  by (simp add: give_pool_def give_slots_closed)

lemma advance_closed:
  assumes "jobs_closed J t s" and "j \<in> J"
  shows "jobs_closed J t (advance_next_unread j s)"
proof -
  have "job_pool (advance_next_unread j s) t J"
    using advance_next_unread_pool jobs_closed_pool assms by (auto simp: jobs_closed_def)
  then show ?thesis
    using assms by (auto simp: jobs_closed_def job_pool_def xport_jobs_def advance_next_unread_def Let_def split: if_splits)
qed

lemma move_limits_closed:
  assumes "jobs_closed J t s" and "j \<in> J"
  shows "jobs_closed J t (qmgr_job_move_limits j s)"
  using advance_closed [OF assms]
  by (auto simp: qmgr_job_move_limits_def Let_def give_slots_closed give_pool_closed split: option.split)

lemma link_scan_set:
  "link_scan stop ps acc cur = (a, b, c) \<Longrightarrow> set a \<union> set b = set ps \<union> set acc"
  by (induction stop ps acc cur rule: link_scan.induct) (auto split: if_splits)

lemma link_lists_closed:
  assumes "jobs_closed J t s" and "j \<in> J"
  shows "jobs_closed J t (link_lists j s)"
proof -
  have t: "j_transport (jobs s j) = t" using assms by (simp add: jobs_closed_def)
  obtain a b c where 1: "job_list_scan s j = (a, b, c)" by (rule prod_cases3)
  obtain ta tb tc where 2: "bytime_scan s j = (ta, tb, tc)" by (rule prod_cases3)
  have "set a \<union> set b = set (t_job_list (transports s t))" "set ta \<union> set tb = set (t_job_bytime (transports s t))"
    using link_scan_set 1 2 t by (fastforce simp: job_list_scan_def bytime_scan_def)+
  then have "xport_jobs (transports (link_lists j s) t) \<subseteq> xport_jobs (transports s t) \<union> {j}"
    by (auto simp: xport_jobs_def link_lists_def Let_def 1 2 t)
  then show ?thesis
    using assms by (intro jobs_closed_frame [OF assms(1)]) (auto simp: jobs_closed_def link_lists_def Let_def 1 2)
qed

lemma link_closed:
  assumes cl: "jobs_closed J t s" and j: "j \<in> J" and ret: "qmgr_job_link j s = Ret s'"
  shows "jobs_closed J t s'"
proof -
  note l = link_lists_closed [OF cl j]
  have "jobs_closed J t (take_over_unread j (link_lists j s))"
  proof -
    let ?s = "link_lists j s"
    have t: "j_transport (jobs ?s j) = t" using l j by (simp add: jobs_closed_def)
    have "jobs_closed J t (upd_transport t (\<lambda>x. x\<lparr>t_job_next_unread := Some j\<rparr>) ?s)"
      using l j by (auto simp: jobs_closed_def xport_jobs_def)
    moreover have "u \<in> J" if "t_job_next_unread (transports ?s t) = Some u" for u
      using l that by (auto simp: jobs_closed_def xport_jobs_def)
    ultimately show ?thesis using move_limits_closed t by (auto simp: take_over_unread_def Let_def split: option.split)
  qed
  then show ?thesis
    using ret l by (auto simp: qmgr_job_link_def Let_def intro: give_pool_closed split: if_splits)
qed


text \<open>Stack operations change neither the lists of a transport nor the transport of a job.\<close>

definition stack_frame :: "qmgr \<Rightarrow> qmgr \<Rightarrow> bool" where
  "stack_frame s s' \<longleftrightarrow> (\<forall>j. j_transport (jobs s' j) = j_transport (jobs s j))
     \<and> (\<forall>t. xport_jobs (transports s' t) = xport_jobs (transports s t))"

lemma stack_frame_closed: "stack_frame s s' \<Longrightarrow> jobs_closed J t s \<Longrightarrow> jobs_closed J t s'"
  by (simp add: stack_frame_def jobs_closed_def)

lemma parent_gone_stack: "stack_frame s (qmgr_job_parent_gone j p s)"
  unfolding qmgr_job_parent_gone_def
  by (rule fold_preserves) (auto simp: stack_frame_def adopt_child_def Let_def split: option.split)

lemma pop_stack:
  assumes "qmgr_job_pop j s = Ret s'"
  shows "stack_frame s s'"
proof -
  have g: "stack_frame x (qmgr_job_parent_gone j p y)" if "stack_frame x y" for x y p
    using parent_gone_stack [of y j p] that by (simp add: stack_frame_def)
  show ?thesis
    using assms g [of s s] g [of s]
    by (auto simp: qmgr_job_pop_def Let_def RESET_CANDIDATE_CACHE_def stack_frame_def split: if_splits option.splits)
qed

lemma unlink_closed:
  assumes cl: "jobs_closed J t s" and ret: "qmgr_job_unlink j s = Ret s'"
  shows "jobs_closed J t s'"
proof -
  let ?s = "qmgr_job_parent_gone j None s"
  have cl': "jobs_closed J t ?s" using parent_gone_stack cl by (rule stack_frame_closed)
  have "set_option (first_of (after j xs)) \<subseteq> set xs" for xs :: "job_id list"
    using after_subset [of j xs] by (auto simp: first_of_def split: list.splits)
  moreover have "set (remove1 j xs) \<subseteq> set xs" for xs :: "job_id list" by (rule set_remove1_subset)
  ultimately have "xport_jobs (transports s' u) \<subseteq> xport_jobs (transports ?s u)"
    and "j_transport (jobs s' k) = j_transport (jobs ?s k)" for u k
    using ret by (auto simp: qmgr_job_unlink_def Let_def xport_jobs_def RESET_CANDIDATE_CACHE_def split: if_splits) blast+
  then show ?thesis using cl' unfolding jobs_closed_def by (metis subset_trans)
qed

lemma pop_closed: "jobs_closed J t s \<Longrightarrow> qmgr_job_pop j s = Ret s' \<Longrightarrow> jobs_closed J t s'"
  using stack_frame_closed pop_stack by blast

lemma retire_closed:
  assumes cl: "jobs_closed J t s" and j: "j \<in> J" and ret: "qmgr_job_retire j s = Ret s'"
  shows "jobs_closed J t s'"
proof -
  obtain s1 where "(if j_stack_level (jobs s j) > 0 then qmgr_job_pop j s else Ret s) = Ret s1"
    and s': "qmgr_job_unlink j (qmgr_job_move_limits j s1) = Ret s'"
    using ret by (auto simp: qmgr_job_retire_def)
  then have "jobs_closed J t s1" using cl pop_closed by (auto split: if_splits)
  then show ?thesis using unlink_closed [OF move_limits_closed s'] j by blast
qed

lemma move_before_set: "set (move_before x y xs) \<subseteq> insert x (set xs)"
  using set_remove1_subset [of x xs]
  by (auto simp: move_before_def Let_def dest: set_takeWhileD set_dropWhileD)

lemma preempt_closed:
  assumes cl: "jobs_closed J t s" and cur: "cur \<in> J" and ret: "qmgr_job_preempt cur s = Ret (j, s')"
  shows "jobs_closed J t s'"
proof -
  have t: "j_transport (jobs s cur) = t" using cl cur by (simp add: jobs_closed_def)
  have cand: "jobs_closed J t s1 \<and> (\<forall>k. c = Some k \<longrightarrow> k \<in> J)" if "qmgr_job_candidate cur s = (c, s1)" for c s1
  proof -
    have "k \<in> J" if "c = Some k" for k
      using candidate_mem [of cur s k s1] that \<open>qmgr_job_candidate cur s = (c, s1)\<close> cl t
        after_subset [of cur "t_job_list (transports s t)"] by (auto simp: jobs_closed_def xport_jobs_def)
    moreover have "xport_jobs (transports s1 u) \<subseteq> xport_jobs (transports s u) \<union> set_option c" "jobs s1 = jobs s" for u
      using that by (auto simp: qmgr_job_candidate_def Let_def xport_jobs_def split: if_splits)
    ultimately show ?thesis using cl by (fastforce simp: jobs_closed_def)
  qed
  from ret show ?thesis
  proof (cases rule: preempt_cases)
    case stay
    then show ?thesis using cl cand by auto
  next
    case (push s1 s2)
    have c1: "jobs_closed J t s1" and j: "j \<in> J" using cand [OF push(1)] by auto
    have c2: "jobs_closed J t s2" using push(6) c1 pop_closed by (auto split: if_splits)
    have "xport_jobs (transports (stack_push j cur t n s2) t) \<subseteq> xport_jobs (transports s2 t) \<union> {j}"
      "j_transport (jobs (stack_push j cur t n s2) k) = j_transport (jobs s2 k)" for n k
      using move_before_set [of j cur "t_job_list (transports s2 t)"]
      by (auto simp: stack_push_def Let_def RESET_CANDIDATE_CACHE_def xport_jobs_def)
    then have "jobs_closed J t (stack_push j cur t n s2)" for n
      using c2 j by (fastforce simp: jobs_closed_def)
    then show ?thesis using push(7) give_slots_closed by (auto simp: t)
  qed
qed


section \<open>Whole schedules\<close>

lemma sched_exec_same:
  assumes cl: "jobs_closed J t s" and j: "sched_job op \<in> J" and ret: "sched_exec op s = Ret s'"
  shows "jobs_closed J t s' \<and> same_slots J t s s'"
proof (cases op)
  case (Sched_link k)
  moreover have "t_job_next_unread (transports s t) = Some u \<Longrightarrow> j_transport (jobs s u) = t" for u
    using cl by (auto simp: jobs_closed_def xport_jobs_def)
  ultimately show ?thesis
    using link_closed [OF cl] job_link_same [OF jobs_closed_pool [OF cl]] j ret cl by (simp add: jobs_closed_def)
next
  case (Sched_retire k)
  then show ?thesis
    using retire_closed [OF cl] job_retire_same [OF jobs_closed_pool [OF cl]] j ret cl by (simp add: jobs_closed_def)
next
  case (Sched_move_limits k)
  then show ?thesis
    using move_limits_closed [OF cl] move_limits_same [OF jobs_closed_pool [OF cl]] j ret cl
    by (auto simp: jobs_closed_def [of J t s])
next
  case (Sched_preempt k)
  then obtain r where r: "qmgr_job_preempt k s = Ret (r, s')" using ret by auto
  have t: "j_transport (jobs s k) = t" using cl j Sched_preempt by (simp add: jobs_closed_def)
  then show ?thesis
    using preempt_closed [OF cl _ r] job_preempt_same [OF _ _ _ r, of J] j cl Sched_preempt
    by (auto simp: jobs_closed_def xport_jobs_def)
qed

lemma sched_run_same:
  "jobs_closed J t s \<Longrightarrow> sched_job ` set ops \<subseteq> J \<Longrightarrow> sched_run ops s = Ret s'
    \<Longrightarrow> jobs_closed J t s' \<and> same_slots J t s s'"
proof (induction ops arbitrary: s)
  case (Cons op ops)
  then obtain s1 where "sched_exec op s = Ret s1" and s1: "sched_run ops s1 = Ret s'" by auto
  then have "jobs_closed J t s1 \<and> same_slots J t s s1" using sched_exec_same [OF Cons.prems(1), of op s1] Cons.prems(2) by simp
  then show ?case using Cons.IH [OF _ _ s1] Cons.prems same_slots_trans by auto
qed simp

text \<open>
  C17: recipient slots are neither lost nor invented. Through any sequence of linking, retiring,
  preempting and limit transfers of jobs, the recipient limit of a transport stays divided between
  its pool and its jobs, and a message's limit keeps its distance from the sum of the limits of its jobs.
\<close>

theorem recipient_slots_conserved:
  assumes "jobs_closed J t s" and "sched_job ` set ops \<subseteq> J" and "sched_run ops s = Ret s'"
  shows "t_rcpt_unused (transports s' t) + (\<Sum>j\<in>J. j_rcpt_limit (jobs s' j))
       = t_rcpt_unused (transports s t) + (\<Sum>j\<in>J. j_rcpt_limit (jobs s j))
    \<and> m_rcpt_limit (messages s' m) - (\<Sum>j\<in>J. if j_message (jobs s' j) = m then j_rcpt_limit (jobs s' j) else 0)
       = m_rcpt_limit (messages s m) - (\<Sum>j\<in>J. if j_message (jobs s j) = m then j_rcpt_limit (jobs s j) else 0)"
  using sched_run_same [OF assms] unfolding same_slots_def slots_total_def message_gap_def by blast

definition demo_jobs :: qmgr where
  "demo_jobs = qmgr_initial\<lparr>
     transports := (\<lambda>_. blank_transport)(0 := blank_transport\<lparr>t_rcpt_unused := 10\<rparr>),
     jobs := (\<lambda>_. blank_job\<lparr>j_stack_level := -1\<rparr>),
     messages := (\<lambda>_. blank_message)\<rparr>"

lemma demo_jobs_closed: "jobs_closed {1} 0 demo_jobs"
  by (simp add: demo_jobs_def jobs_closed_def xport_jobs_def blank_defs)

lemma demo_jobs_run:
  "\<exists>s'. sched_run [Sched_link 1, Sched_retire 1] demo_jobs = Ret s' \<and> t_rcpt_unused (transports s' 0) = 10"
  by (simp add: demo_jobs_def blank_defs qmgr_job_link_def bytime_scan_def link_lists_def Let_def job_list_scan_def
      take_over_unread_def give_pool_def give_slots_def qmgr_job_retire_def qmgr_job_unlink_def qmgr_job_move_limits_def
      advance_next_unread_def unused_slots_def stack_sibling_next_def qmgr_job_parent_gone_def RESET_CANDIDATE_CACHE_def
      after_def first_of_def)

theorem recipient_slots_conserved_witness:
  "\<exists>s'. sched_run [Sched_link 1, Sched_retire 1] demo_jobs = Ret s'
     \<and> t_rcpt_unused (transports s' 0) + j_rcpt_limit (jobs s' 1) = 10"
proof -
  obtain s' where s': "sched_run [Sched_link 1, Sched_retire 1] demo_jobs = Ret s'" using demo_jobs_run by blast
  then have "t_rcpt_unused (transports s' 0) + j_rcpt_limit (jobs s' 1) = 10"
    using recipient_slots_conserved [OF demo_jobs_closed _ s'] by (simp add: demo_jobs_def blank_defs)
  with s' show ?thesis by blast
qed

end
