(* ===== verification/Qmgr_Entry.thy ===== *)
theory Qmgr_Entry
  imports Qmgr_Sched "HOL-Library.Multiset"
begin

text \<open>
  The life of queue entries: disposal and transfer of entries
  (\<^verbatim>\<open>src/src/qmgr/qmgr_entry.c\<close>), and the invariant that ties entries, peers, jobs and
  queues together. \<^verbatim>\<open>qmgr_active_done()\<close>, which disposes of a message without entries, is a
  parameter.
\<close>

section \<open>Operations\<close>

type_synonym active_done = "message_id \<Rightarrow> qmgr \<Rightarrow> qmgr outcome"

text \<open>Take the entry off the in-core queue.\<close>

definition entry_unlink :: "entry_id \<Rightarrow> which_queue \<Rightarrow> qmgr \<Rightarrow> qmgr" where
  "entry_unlink e which s =
     (let q = e_queue (entries s e); p = e_peer (entries s e)
      in case which of
           QMGR_QUEUE_BUSY \<Rightarrow>
             upd_queue q (\<lambda>x. x\<lparr>q_busy := remove1 e (q_busy x), q_busy_refcount := q_busy_refcount x - 1\<rparr>) s
         | QMGR_QUEUE_TODO \<Rightarrow>
             let s = upd_peer p (\<lambda>x. x\<lparr>p_entry_list := remove1 e (p_entry_list x)\<rparr>) s;
                 s = upd_job (p_job (peers s p)) (\<lambda>x. x\<lparr>j_selected_entries := j_selected_entries x + 1\<rparr>) s
             in upd_queue q (\<lambda>x. x\<lparr>q_todo := remove1 e (q_todo x), q_todo_refcount := q_todo_refcount x - 1\<rparr>) s)"

text \<open>Decrease the in-core recipient counts and free the entry.\<close>

definition entry_uncount :: "entry_id \<Rightarrow> qmgr \<Rightarrow> qmgr" where
  "entry_uncount e s =
     (let n = int (length (e_rcpt_list (entries s e))); p = e_peer (entries s e); m = e_message (entries s e);
          s = upd_job (p_job (peers s p)) (\<lambda>x. x\<lparr>j_rcpt_count := j_rcpt_count x - n\<rparr>) s;
          s = upd_message m (\<lambda>x. x\<lparr>m_rcpt_count := m_rcpt_count x - n\<rparr>) s
      in s\<lparr>recipient_count := recipient_count s - n\<rparr>)"

definition entry_release :: "entry_id \<Rightarrow> qmgr \<Rightarrow> qmgr" where
  "entry_release e s = myfree Entry_obj e (entry_uncount e s)"

text \<open>Return the slots of sponsors that are retired or finishing, then those of the job itself.\<close>

definition sponsor_limits :: "job_id \<Rightarrow> message_id \<Rightarrow> job_id \<Rightarrow> qmgr \<Rightarrow> qmgr" where
  "sponsor_limits j m sponsor s =
     (if j_rcpt_count (jobs s sponsor) \<ge> j_rcpt_limit (jobs s sponsor) \<or> sponsor = j then s
      else if j_stack_level (jobs s sponsor) < 0 \<or> m_rcpt_offset (messages s m) = 0
      then qmgr_job_move_limits sponsor s else s)"

definition return_limits :: "job_id \<Rightarrow> message_id \<Rightarrow> qmgr \<Rightarrow> qmgr" where
  "return_limits j m s =
     (let s = fold (sponsor_limits j m) (m_job_list (messages s m)) s
      in if m_rcpt_offset (messages s m) = 0 then qmgr_job_move_limits j s else s)"

text \<open>A rate-limited queue is suspended after each delivery.\<close>

definition rate_limit_queue :: "which_queue \<Rightarrow> transport_id \<Rightarrow> queue_id \<Rightarrow> qmgr \<Rightarrow> qmgr outcome" where
  "rate_limit_queue which t q s =
     (if which = QMGR_QUEUE_BUSY \<and> t_rate_delay (transports s t) > 0 then
        if q_window (queues s q) > 1 then Panic ''qmgr_entry_done''
        else obind (if QMGR_QUEUE_THROTTLED (queues s q) then qmgr_queue_unthrottle q s else Ret s)
          (\<lambda>s. if QMGR_QUEUE_READY (queues s q) then qmgr_queue_suspend q (t_rate_delay (transports s t)) s
               else Ret s)
      else Ret s)"

definition update_blocker :: "transport_id \<Rightarrow> queue_id \<Rightarrow> qmgr \<Rightarrow> qmgr" where
  "update_blocker t q s =
     (if \<not> QMGR_QUEUE_SUSPENDED (queues s q) \<and> q_blocker_tag (queues s q) = t_blocker_tag (transports s t)
      then qmgr_job_blocker_update q s else s)"

text \<open>When there are no more entries for a peer, discard the peer.\<close>

definition peer_release :: "peer_id \<Rightarrow> qmgr \<Rightarrow> qmgr outcome" where
  "peer_release p s =
     (let s = upd_peer p (\<lambda>x. x\<lparr>p_refcount := p_refcount x - 1\<rparr>) s
      in if p_refcount (peers s p) = 0 then qmgr_peer_free p s else Ret s)"

text \<open>Discard an empty queue unless it is dead or suspended; a dead one too when there are too many.\<close>

definition discard_queue :: "config \<Rightarrow> queue_id \<Rightarrow> qmgr \<Rightarrow> qmgr outcome" where
  "discard_queue conf q s =
     (if q_todo (queues s q) = [] \<and> q_busy (queues s q) = [] then
        obind (if QMGR_QUEUE_THROTTLED (queues s q) \<and> queue_count s > 2 * var_qmgr_rcpt_limit conf
               then qmgr_queue_unthrottle q s else Ret s)
          (\<lambda>s. if QMGR_QUEUE_READY (queues s q) then qmgr_queue_done q s else Ret s)
      else Ret s)"

definition qmgr_entry_done :: "active_done \<Rightarrow> config \<Rightarrow> entry_id \<Rightarrow> which_queue \<Rightarrow> qmgr \<Rightarrow> qmgr outcome" where
  "qmgr_entry_done active_done conf e which s =
     (let q = e_queue (entries s e); m = e_message (entries s e); p = e_peer (entries s e);
          j = p_job (peers s p); t = j_transport (jobs s j)
      in if e_stream (entries s e) \<noteq> None then Panic ''qmgr_entry_done''
         else
           let s = return_limits j m (entry_release e (entry_unlink e which s))
           in obind (rate_limit_queue which t q s) (\<lambda>s.
              obind (peer_release p (update_blocker t q s)) (\<lambda>s.
              let s = (if which = QMGR_QUEUE_BUSY then upd_queue q (\<lambda>x. x\<lparr>q_last_done := event_now s\<rparr>) s else s)
              in obind (discard_queue conf q s) (\<lambda>s.
                 let s = upd_message m (\<lambda>x. x\<lparr>m_refcount := m_refcount x - 1\<rparr>) s
                 in if m_refcount (messages s m) = 0 then active_done m s else Ret s))))"

definition qmgr_entry_move_todo :: "active_done \<Rightarrow> config \<Rightarrow> queue_id \<Rightarrow> entry_id \<Rightarrow> qmgr \<Rightarrow> qmgr outcome" where
  "qmgr_entry_move_todo active_done conf dst e s =
     (let t = q_transport (queues s dst); m = e_message (entries s e);
          src_job = p_job (peers s (e_peer (entries s e)));
          n = int (length (e_rcpt_list (entries s e)))
      in if e_stream (entries s e) \<noteq> None then Panic ''qmgr_entry_move_todo''
         else if QMGR_QUEUE_THROTTLED (queues s dst) then Panic ''qmgr_entry_move_todo''
         else if QMGR_TRANSPORT_THROTTLED (transports s t) then Panic ''qmgr_entry_move_todo''
         else obind (qmgr_job_obtain m t s) (\<lambda>(dst_job, s).
           let (dst_peer, s) = qmgr_peer_obtain dst_job dst s
           in obind (qmgr_entry_create conf dst_peer m s) (\<lambda>(new, s).
             let old_list = e_rcpt_list (entries s e); new_list = e_rcpt_list (entries s new);
                 s = upd_entry e (\<lambda>x. x\<lparr>e_rcpt_list := new_list\<rparr>) s;
                 s = upd_entry new (\<lambda>x. x\<lparr>e_rcpt_list := old_list\<rparr>) s;
                 s = upd_job src_job (\<lambda>x. x\<lparr>j_rcpt_count := j_rcpt_count x - n\<rparr>) s;
                 s = upd_job dst_job (\<lambda>x. x\<lparr>j_rcpt_count := j_rcpt_count x + n\<rparr>) s
             in qmgr_entry_done active_done conf e QMGR_QUEUE_TODO s)))"

section \<open>The invariant of peers\<close>

text \<open>The entries of a peer, on either list of its queue.\<close>

definition peer_entries :: "qmgr \<Rightarrow> peer_id \<Rightarrow> entry_id list" where
  "peer_entries s p = filter (\<lambda>e. e_peer (entries s e) = p)
     (q_todo (queues s (p_queue (peers s p))) @ q_busy (queues s (p_queue (peers s p))))"

text \<open>
  A peer counts its entries. While an operation is in progress the count may be off: \<open>d\<close> says by
  how much.
\<close>

definition refs :: "(peer_id \<Rightarrow> int) \<Rightarrow> qmgr \<Rightarrow> bool" where
  "refs d s \<longleftrightarrow> (\<forall>p. p_refcount (peers s p) = int (length (peer_entries s p)) + d p)"

text \<open>A job's table of peers: live peers with entries, of queues of the job's transport.\<close>

definition peer_named :: "qmgr \<Rightarrow> job_id \<Rightarrow> string \<Rightarrow> peer_id \<Rightarrow> bool" where
  "peer_named s j name p \<longleftrightarrow> p_job (peers s p) = j \<and> q_name (queues s (p_queue (peers s p))) = name
     \<and> j < heap_next s \<and> p < heap_next s \<and> (Peer_obj, p) \<notin> set (heap_freed s)
     \<and> queue_linked s (p_queue (peers s p))
     \<and> q_transport (queues s (p_queue (peers s p))) = j_transport (jobs s j)"

definition on_job :: "qmgr \<Rightarrow> queue_id \<Rightarrow> entry_id \<Rightarrow> bool" where
  "on_job s q e \<longleftrightarrow>
     j_peer_byname (jobs s (p_job (peers s (e_peer (entries s e))))) (q_name (queues s q)) = Some (e_peer (entries s e))"

text \<open>\<open>X\<close> are peers that have just been created and may not have an entry yet.\<close>

definition peers_inv :: "peer_id set \<Rightarrow> qmgr \<Rightarrow> bool" where
  "peers_inv X s \<longleftrightarrow>
     (\<forall>j name p. j_peer_byname (jobs s j) name = Some p \<longrightarrow>
        peer_named s j name p \<and> (p \<in> X \<or> 0 < p_refcount (peers s p)))
     \<and> (\<forall>q e. e \<in> set (q_todo (queues s q) @ q_busy (queues s q)) \<longrightarrow> on_job s q e)"

text \<open>A transport's table of jobs by queue id.\<close>

definition jobs_named :: "qmgr \<Rightarrow> bool" where
  "jobs_named s \<longleftrightarrow> (\<forall>t id j. t_job_byname (transports s t) id = Some j \<longrightarrow>
     j_transport (jobs s j) = t \<and> j < heap_next s)"

definition qmgr_full :: "(peer_id \<Rightarrow> int) \<Rightarrow> peer_id set \<Rightarrow> qmgr \<Rightarrow> bool" where
  "qmgr_full d X s \<longleftrightarrow> qmgr_inv s \<and> refs d s \<and> peers_inv X s \<and> jobs_named s"

abbreviation qmgr_good :: "qmgr \<Rightarrow> bool" where
  "qmgr_good \<equiv> qmgr_full (\<lambda>_. 0) {}"

text \<open>Steps that leave entries, peers and the list contents alone.\<close>

definition quiet :: "qmgr \<Rightarrow> qmgr \<Rightarrow> bool" where
  "quiet s s' \<longleftrightarrow> lists_frame s s' \<and> (\<forall>j. job_view (jobs s' j) = job_view (jobs s j))
     \<and> (\<forall>q. q_name (queues s' q) = q_name (queues s q) \<and> q_transport (queues s' q) = q_transport (queues s q))
     \<and> (\<forall>q. queue_linked s' q = queue_linked s q)
     \<and> (\<forall>t. t_job_byname (transports s' t) = t_job_byname (transports s t))"

lemma quiet_refl [simp]: "quiet s s"
  by (simp add: quiet_def lists_frame_def)

lemma quiet_trans: "quiet s s' \<Longrightarrow> quiet s' s'' \<Longrightarrow> quiet s s''"
  unfolding quiet_def lists_frame_def by metis

lemma job_viewD:
  assumes "job_view x = job_view y"
  shows "j_transport x = j_transport y" "j_message x = j_message y" "j_peer_byname x = j_peer_byname y"
  using assms by (simp_all add: job_view_def)

lemma quiet_refs: "quiet s s' \<Longrightarrow> refs d s' = refs d s"
  by (simp add: quiet_def lists_frame_def refs_def peer_entries_def)

lemma quiet_peers_inv:
  assumes "quiet s s'"
  shows "peers_inv X s' = peers_inv X s"
proof -
  have eqs: "entries s' = entries s" "peers s' = peers s" "heap_next s' = heap_next s"
    and q: "\<And>q. q_todo (queues s' q) = q_todo (queues s q)" "\<And>q. q_busy (queues s' q) = q_busy (queues s q)"
      "\<And>q. q_name (queues s' q) = q_name (queues s q)" "\<And>q. q_transport (queues s' q) = q_transport (queues s q)"
      "\<And>q. queue_linked s' q = queue_linked s q"
    and j: "\<And>j. job_view (jobs s' j) = job_view (jobs s j)"
    and fr: "\<And>p. (Peer_obj, p) \<in> set (heap_freed s') \<longleftrightarrow> (Peer_obj, p) \<in> set (heap_freed s)"
    using assms by (auto simp: quiet_def lists_frame_def)
  have "peer_named s' = peer_named s" "on_job s' = on_job s"
    by (simp_all add: fun_eq_iff peer_named_def on_job_def eqs q fr job_viewD [OF j])
  then show ?thesis by (simp add: peers_inv_def eqs q job_viewD [OF j])
qed

lemma jobs_named_mono:
  assumes "jobs_named s" and "\<And>t. t_job_byname (transports s' t) = t_job_byname (transports s t)"
    and "\<And>j. job_view (jobs s' j) = job_view (jobs s j)" and "heap_next s \<le> heap_next s'"
  shows "jobs_named s'"
  using assms job_viewD(1) [OF assms(3)] by (auto simp: jobs_named_def intro: less_le_trans)

lemma quiet_jobs_named: "quiet s s' \<Longrightarrow> jobs_named s' = jobs_named s"
  by (simp add: quiet_def lists_frame_def jobs_named_def job_view_def)

lemma quiet_full:
  assumes "qmgr_full d X s" and "quiet s s'" and "queues_inv s'"
  shows "qmgr_full d X s'"
proof -
  have "entries_inv s'"
    using assms(1,2) by (intro entries_inv_frame [of s s']) (auto simp: qmgr_full_def qmgr_inv_def quiet_def)
  then show ?thesis
    using assms quiet_refs quiet_peers_inv quiet_jobs_named by (simp add: qmgr_full_def qmgr_inv_def)
qed

lemma same_core_quiet: "same_core s s' \<Longrightarrow> quiet s s'"
  using same_core_queue [of s s'] queue_linked_cong [of s' s]
  by (auto simp: quiet_def lists_frame_def same_core_def)

lemma same_core_full:
  assumes "same_core s s'" and "qmgr_full d X s"
  shows "qmgr_full d X s'"
  using quiet_full [OF assms(2) same_core_quiet [OF assms(1)]] qmgr_inv_same_core [OF assms(1)] assms(2)
  by (simp add: qmgr_full_def qmgr_inv_def)

section \<open>Queue operations are quiet\<close>

lemma quietI:
  assumes "entries s' = entries s" and "peers s' = peers s" and "heap_next s' = heap_next s"
    and "heap_freed s' = heap_freed s" and "\<And>j. job_view (jobs s' j) = job_view (jobs s j)"
    and "\<And>q. q_todo (queues s' q) = q_todo (queues s q) \<and> q_busy (queues s' q) = q_busy (queues s q)
      \<and> q_name (queues s' q) = q_name (queues s q) \<and> q_transport (queues s' q) = q_transport (queues s q)"
    and "\<And>t. t_queue_list (transports s' t) = t_queue_list (transports s t)"
    and "\<And>t. t_job_byname (transports s' t) = t_job_byname (transports s t)"
  shows "quiet s s'"
  using assms by (auto simp: quiet_def lists_frame_def queue_linked_def)

lemma positive_feedback_frame:
  "positive_feedback t qu = Ret qu' \<Longrightarrow> \<exists>w su fa. qu' = qu\<lparr>q_window := w, q_success := su, q_failure := fa\<rparr>"
proof (cases "positive_feedback t qu = Ret qu")
  case True
  moreover assume "positive_feedback t qu = Ret qu'"
  ultimately have "qu' = qu\<lparr>q_window := q_window qu, q_success := q_success qu, q_failure := q_failure qu\<rparr>" by simp
  then show ?thesis by blast
next
  case False
  assume "positive_feedback t qu = Ret qu'"
  with False show ?thesis by (auto simp: positive_feedback_def Let_def split: if_splits option.splits prod.splits)
qed

lemma unthrottle_quiet: "qmgr_queue_unthrottle q s = Ret s' \<Longrightarrow> quiet s s'"
  by (rule quietI) (auto simp: qmgr_queue_unthrottle_def Let_def split: if_splits dest!: positive_feedback_frame)

lemma suspend_quiet: "qmgr_queue_suspend q d s = Ret s' \<Longrightarrow> quiet s s'"
  by (rule quietI) (auto simp: qmgr_queue_suspend_def split: if_splits)

lemma throttle_quiet:
  assumes "qmgr_queue_throttle conf q dsn s = Ret s'"
  shows "quiet s s'"
proof -
  obtain v fc where cf: "count_fail_cohort (queue_transport s q) (queues s q) = (queues s q)\<lparr>q_fail_cohorts := fc, q_window := v\<rparr>"
    by (rule count_fail_cohort_cases)
  show ?thesis
    using assms
    by (intro quietI) (auto simp: qmgr_queue_throttle_def Let_def cf negative_feedback_def
        split: if_splits option.splits prod.splits)
qed

lemma blocker_update_quiet: "quiet s (qmgr_job_blocker_update q s)"
  by (rule quietI) (simp_all add: blocker_update_frame t_viewD(3) [OF blocker_update_frame(9)])

lemma unthrottle_full:
  assumes full: "qmgr_full d X s" and "queue_linked s q" and "\<not> QMGR_QUEUE_SUSPENDED (queues s q)"
  shows "returns (qmgr_queue_unthrottle q s)
    (\<lambda>s'. qmgr_full d X s' \<and> quiet s s' \<and> queue_linked s' q \<and> QMGR_QUEUE_READY (queues s' q))"
proof -
  have "queues_inv s" using full by (simp add: qmgr_full_def qmgr_inv_def)
  from qmgr_queue_unthrottle_inv [OF this assms(2,3)] show ?thesis
    using quiet_full [OF full] unthrottle_quiet by (auto simp: returns_def)
qed

lemma throttle_full:
  assumes full: "qmgr_full d X s" and "queue_linked s q" and "QMGR_QUEUE_READY (queues s q)" and "dsn_ok dsn"
  shows "returns (qmgr_queue_throttle conf q dsn s) (\<lambda>s'. qmgr_full d X s' \<and> quiet s s' \<and> queue_linked s' q
    \<and> 0 \<le> q_window (queues s' q) \<and> q_window (queues s' q) \<le> q_window (queues s q))"
proof -
  have "queues_inv s" using full by (simp add: qmgr_full_def qmgr_inv_def)
  from qmgr_queue_throttle_inv [OF this assms(2-4), of conf] show ?thesis
    using quiet_full [OF full] throttle_quiet by (auto simp: returns_def)
qed

lemma suspend_full:
  assumes full: "qmgr_full d X s" and "queue_linked s q" and "QMGR_QUEUE_READY (queues s q)"
    and "q_busy (queues s q) = []"
  shows "returns (qmgr_queue_suspend q delay s)
    (\<lambda>s'. qmgr_full d X s' \<and> quiet s s' \<and> queue_linked s' q \<and> QMGR_QUEUE_SUSPENDED (queues s' q))"
proof -
  have "queues_inv s" using full by (simp add: qmgr_full_def qmgr_inv_def)
  from qmgr_queue_suspend_inv [OF this assms(2-4), of delay] show ?thesis
    using quiet_full [OF full] suspend_quiet by (auto simp: returns_def)
qed

lemma blocker_update_full:
  assumes full: "qmgr_full d X s" and "queue_linked s q"
  shows "qmgr_full d X (qmgr_job_blocker_update q s)"
  using quiet_full [OF full blocker_update_quiet] qmgr_job_blocker_update_inv assms
  by (simp add: qmgr_full_def qmgr_inv_def)

lemma queue_done_full:
  assumes good: "qmgr_good s" and linked: "queue_linked s q" and idle: "queue_idle (queues s q)"
  shows "returns (qmgr_queue_done q s) qmgr_good"
proof -
  have qi: "queues_inv s" and ei: "entries_inv s" and rf: "refs (\<lambda>_. 0) s" and pi: "peers_inv {} s"
    using good by (simp_all add: qmgr_full_def qmgr_inv_def)
  obtain s' where ret: "qmgr_queue_done q s = Ret s'" and qi': "queues_inv s'" and qs: "queues s' = queues s"
    using qmgr_queue_done_inv [OF qi linked idle] by (auto simp: returns_def)
  have eqs: "entries s' = entries s" "peers s' = peers s" "heap_next s' = heap_next s" "jobs s' = jobs s"
    "heap_freed s' = (Queue_obj, q) # heap_freed s"
    using ret by (auto simp: qmgr_queue_done_def Let_def split: if_splits)
  have list: "t_queue_list (transports s' t) = (if t = q_transport (queues s q)
      then remove1 q (t_queue_list (transports s t)) else t_queue_list (transports s t))" for t
    using ret by (auto simp: qmgr_queue_done_def Let_def split: if_splits)
  have link: "queue_linked s' r" if "queue_linked s r" "r \<noteq> q" for r
    using that by (auto simp: queue_linked_def qs list in_set_remove1)
  have empty: "q_todo (queues s q) = []" "q_busy (queues s q) = []" using idle by (simp_all add: queue_idle_def)
  have "entries_inv s'"
    by (rule entries_inv_frame [OF ei]) (use link empty in \<open>auto simp: lists_frame_def eqs qs\<close>)
  moreover have "refs (\<lambda>_. 0) s'" using rf by (simp add: refs_def peer_entries_def eqs qs)
  moreover have "peer_named s' j name p" if "peer_named s j name p" "0 < p_refcount (peers s p)" for j name p
  proof -
    have "peer_entries s p \<noteq> []" using rf that(2) by (auto simp: refs_def)
    then have "p_queue (peers s p) \<noteq> q" using empty by (auto simp: peer_entries_def)
    then show ?thesis using that(1) link by (simp add: peer_named_def eqs qs)
  qed
  then have "peers_inv {} s'" using pi by (auto simp: peers_inv_def on_job_def eqs qs)
  moreover have "jobs_named s'"
    using good ret by (auto simp: qmgr_full_def qmgr_queue_done_def Let_def split: if_splits intro: jobs_named_mono)
  ultimately show ?thesis using qi' ret by (simp add: qmgr_full_def qmgr_inv_def)
qed

section \<open>Disposing of an entry\<close>

definition which_list :: "which_queue \<Rightarrow> queue \<Rightarrow> entry_id list" where
  "which_list which qu = (case which of QMGR_QUEUE_BUSY \<Rightarrow> q_busy qu | QMGR_QUEUE_TODO \<Rightarrow> q_todo qu)"

text \<open>Facts about an entry on a list.\<close>

lemma listed_entry:
  assumes full: "qmgr_full d X s" and e: "e \<in> set (q_todo (queues s q) @ q_busy (queues s q))"
  shows "e_queue (entries s e) = q" "p_queue (peers s (e_peer (entries s e))) = q" "queue_linked s q"
    "e < heap_next s" "e_peer (entries s e) < heap_next s"
    "(Entry_obj, e) \<notin> set (heap_freed s)" "(Peer_obj, e_peer (entries s e)) \<notin> set (heap_freed s)"
    "j_peer_byname (jobs s (p_job (peers s (e_peer (entries s e))))) (q_name (queues s q)) = Some (e_peer (entries s e))"
    "q_transport (queues s q) = j_transport (jobs s (p_job (peers s (e_peer (entries s e)))))"
proof -
  have ei: "entries_inv s" and pi: "peers_inv X s" using full by (simp_all add: qmgr_full_def qmgr_inv_def)
  have oq: "on_queue s e q" and "queue_linked s q" using entries_invD(1) [OF ei, of e q] e by auto
  then show "e_queue (entries s e) = q" "p_queue (peers s (e_peer (entries s e))) = q" "queue_linked s q"
    "e < heap_next s" "e_peer (entries s e) < heap_next s"
    "(Entry_obj, e) \<notin> set (heap_freed s)" "(Peer_obj, e_peer (entries s e)) \<notin> set (heap_freed s)"
    by (simp_all add: on_queue_def)
  show byname: "j_peer_byname (jobs s (p_job (peers s (e_peer (entries s e))))) (q_name (queues s q)) = Some (e_peer (entries s e))"
    using pi e unfolding peers_inv_def on_job_def by blast
  then show "q_transport (queues s q) = j_transport (jobs s (p_job (peers s (e_peer (entries s e)))))"
    using pi oq unfolding peers_inv_def peer_named_def on_queue_def by metis
qed

lemma which_list_mem: "e \<in> set (which_list which qu) \<Longrightarrow> e \<in> set (q_todo qu @ q_busy qu)"
  by (cases which) (auto simp: which_list_def)

text \<open>The new contents of the queue and of the peer after the entry is taken off.\<close>

definition unlinked_queue :: "which_queue \<Rightarrow> entry_id \<Rightarrow> queue \<Rightarrow> queue" where
  "unlinked_queue which e qu = (case which of
     QMGR_QUEUE_BUSY \<Rightarrow> qu\<lparr>q_busy := remove1 e (q_busy qu), q_busy_refcount := q_busy_refcount qu - 1\<rparr>
   | QMGR_QUEUE_TODO \<Rightarrow> qu\<lparr>q_todo := remove1 e (q_todo qu), q_todo_refcount := q_todo_refcount qu - 1\<rparr>)"

definition unlinked_peer :: "which_queue \<Rightarrow> entry_id \<Rightarrow> peer \<Rightarrow> peer" where
  "unlinked_peer which e pe = (case which of QMGR_QUEUE_BUSY \<Rightarrow> pe
   | QMGR_QUEUE_TODO \<Rightarrow> pe\<lparr>p_entry_list := remove1 e (p_entry_list pe)\<rparr>)"

lemma entry_unlink_frame:
  "queues (entry_unlink e which s) = (queues s)(e_queue (entries s e) := unlinked_queue which e (queues s (e_queue (entries s e))))"
  "peers (entry_unlink e which s) = (peers s)(e_peer (entries s e) := unlinked_peer which e (peers s (e_peer (entries s e))))"
  "entries (entry_unlink e which s) = entries s" "heap_next (entry_unlink e which s) = heap_next s"
  "heap_freed (entry_unlink e which s) = heap_freed s" "timers (entry_unlink e which s) = timers s"
  "transports (entry_unlink e which s) = transports s"
  "job_view (jobs (entry_unlink e which s) j) = job_view (jobs s j)"
  by (cases which; auto simp: entry_unlink_def unlinked_queue_def unlinked_peer_def Let_def)+

lemma unlinked_simps [simp]:
  "q_window (unlinked_queue which e qu) = q_window qu" "q_name (unlinked_queue which e qu) = q_name qu"
  "q_transport (unlinked_queue which e qu) = q_transport qu" "q_dsn (unlinked_queue which e qu) = q_dsn qu"
  "p_queue (unlinked_peer which e pe) = p_queue pe" "p_job (unlinked_peer which e pe) = p_job pe"
  "p_refcount (unlinked_peer which e pe) = p_refcount pe"
  by (cases which; simp add: unlinked_queue_def unlinked_peer_def)+

lemma unlinked_lists:
  assumes "distinct (q_todo qu @ q_busy qu)" and "e \<in> set (which_list which qu)"
  shows "distinct (q_todo (unlinked_queue which e qu) @ q_busy (unlinked_queue which e qu))"
    and "set (q_todo (unlinked_queue which e qu)) = set (q_todo qu) - {e}"
    and "set (q_busy (unlinked_queue which e qu)) = set (q_busy qu) - {e}"
  using assms by (cases which; auto simp: which_list_def unlinked_queue_def)+

lemma unlinked_queue_ok:
  "queue_ok t qu \<Longrightarrow> e \<in> set (which_list which qu) \<Longrightarrow> queue_ok t (unlinked_queue which e qu)"
  by (cases which) (auto simp: queue_ok_def which_list_def unlinked_queue_def length_remove1_int queue_status_defs)

lemma entry_unlink_inv:
  assumes inv: "qmgr_inv s" and e: "e \<in> set (which_list which (queues s (e_queue (entries s e))))"
  shows "qmgr_inv (entry_unlink e which s)"
proof -
  let ?q = "e_queue (entries s e)" and ?p = "e_peer (entries s e)" and ?s' = "entry_unlink e which s"
  have qi: "queues_inv s" and ei: "entries_inv s" using inv by (simp_all add: qmgr_inv_def)
  have mem: "e \<in> set (q_todo (queues s ?q)) \<union> set (q_busy (queues s ?q))" using which_list_mem [OF e] by simp
  have linked: "queue_linked s ?q" and oq: "on_queue s e ?q" using entries_invD(1) [OF ei mem] by auto
  note qd = queue_linkedD [OF qi linked] and tm = queue_timers_linked [OF qi linked]
  note fr = entry_unlink_frame [of e which s] and ul = unlinked_lists [OF entries_invD(2) [OF ei, of ?q] e]
  have "queues_inv ?s'"
    by (rule queues_inv_local [OF qi linked fr(1)])
      (use unlinked_queue_ok [OF qd(2) e] tm in \<open>auto simp: fr queue_status_defs\<close>)
  moreover have "entries_inv ?s'"
  proof (rule entries_inv_move [OF ei fr(1) fr(2) fr(3) fr(4) fr(5)])
    show "queue_linked ?s' r = queue_linked s r" for r by (rule queue_linked_cong) (simp_all add: fr)
    show "p_queue (peers s ?p) = ?q" "p_queue (unlinked_peer which e (peers s ?p)) = ?q"
      using oq by (simp_all add: on_queue_def)
    show "on_queue s x ?q \<and> queue_linked s ?q"
      if "x \<in> set (q_todo (unlinked_queue which e (queues s ?q)) @ q_busy (unlinked_queue which e (queues s ?q)))" for x
      using that ul entries_invD(1) [OF ei, of x ?q] by auto
    show "distinct (q_todo (unlinked_queue which e (queues s ?q)) @ q_busy (unlinked_queue which e (queues s ?q)))"
      by (rule ul(1))
    show "distinct (p_entry_list (unlinked_peer which e (peers s ?p)))"
      using entries_invD(3) [OF ei, of ?p] by (cases which) (auto simp: unlinked_peer_def)
    show "x \<in> set (p_entry_list (unlinked_peer which e (peers s ?p)))
        \<longleftrightarrow> on_peer s x ?p \<and> x \<in> set (q_todo (unlinked_queue which e (queues s ?q)))" for x
      using entries_invD(4) [OF ei, of x ?p] entries_invD(3) [OF ei, of ?p] entries_invD(2) [OF ei, of ?q] oq e
      by (cases which) (auto simp: unlinked_peer_def unlinked_queue_def on_queue_def which_list_def)
    show "\<not> on_peer s x ?p \<Longrightarrow> x \<in> set (q_todo (unlinked_queue which e (queues s ?q)))
        \<longleftrightarrow> x \<in> set (q_todo (queues s ?q))" for x
      using ul(2) by (auto simp: on_peer_def)
  qed
  ultimately show ?thesis by (simp add: qmgr_inv_def)
qed

lemma filter_remove1_length:
  assumes "distinct xs" and "e \<in> set xs"
  shows "int (length (filter P (remove1 e xs))) = int (length (filter P xs)) - (if P e then 1 else 0)"
  using assms by (induction xs) auto

abbreviation one_off :: "peer_id \<Rightarrow> peer_id \<Rightarrow> int" where
  "one_off p \<equiv> (\<lambda>r. if r = p then 1 else 0)"

lemma entry_unlink_full:
  assumes good: "qmgr_good s" and e: "e \<in> set (which_list which (queues s (e_queue (entries s e))))"
  shows "qmgr_full (one_off (e_peer (entries s e))) {} (entry_unlink e which s)"
proof -
  let ?q = "e_queue (entries s e)" and ?p = "e_peer (entries s e)" and ?s' = "entry_unlink e which s"
  have ei: "entries_inv s" and pi: "peers_inv {} s" and rf: "refs (\<lambda>_. 0) s" and inv: "qmgr_inv s"
    using good by (simp_all add: qmgr_full_def qmgr_inv_def)
  note fr = entry_unlink_frame [of e which s] and le = listed_entry [OF good which_list_mem [OF e]]
  have d: "distinct (q_todo (queues s ?q))" "distinct (q_busy (queues s ?q))"
    using entries_invD(2) [OF ei, of ?q] by auto
  have pq: "p_queue (peers ?s' r) = p_queue (peers s r)" "p_job (peers ?s' r) = p_job (peers s r)"
    "p_refcount (peers ?s' r) = p_refcount (peers s r)" for r by (simp_all add: fr)
  have lists: "set (q_todo (queues ?s' r) @ q_busy (queues ?s' r)) \<subseteq> set (q_todo (queues s r) @ q_busy (queues s r))" for r
    using unlinked_lists [OF entries_invD(2) [OF ei, of ?q] e] by (auto simp: fr split: if_splits)
  have len: "int (length (peer_entries ?s' r)) = int (length (peer_entries s r)) - one_off ?p r" for r
  proof (cases "p_queue (peers s r) = ?q")
    case True
    then have "peer_entries ?s' r = filter (\<lambda>x. e_peer (entries s x) = r)
        (q_todo (unlinked_queue which e (queues s ?q)) @ q_busy (unlinked_queue which e (queues s ?q)))"
      by (auto simp: peer_entries_def fr)
    with True show ?thesis
      using filter_remove1_length [OF d(1), of e "\<lambda>x. e_peer (entries s x) = r"]
        filter_remove1_length [OF d(2), of e "\<lambda>x. e_peer (entries s x) = r"] e
      by (cases which) (auto simp: peer_entries_def unlinked_queue_def which_list_def)
  next
    case False
    then have "r \<noteq> ?p" using le(2) by auto
    then show ?thesis using False by (simp add: peer_entries_def pq fr)
  qed
  have "refs (one_off ?p) ?s'" using rf len by (simp add: refs_def pq)
  moreover have "queue_linked ?s' r = queue_linked s r" "q_name (queues ?s' r) = q_name (queues s r)"
    "q_transport (queues ?s' r) = q_transport (queues s r)" for r
    by (simp_all add: queue_linked_def fr)
  then have "peer_named ?s' = peer_named s" "on_job ?s' = on_job s"
    by (simp_all add: fun_eq_iff peer_named_def on_job_def fr(3-7) pq job_viewD [OF fr(8)])
  note same = this
  have "peers_inv {} ?s'"
    using pi lists unfolding peers_inv_def job_viewD(3) [OF fr(8)] pq same by blast
  ultimately show ?thesis
    using entry_unlink_inv [OF inv e] good jobs_named_mono [of s ?s'] fr by (simp add: qmgr_full_def)
qed

text \<open>Freeing the entry, and returning recipient slots.\<close>

lemma free_full:
  assumes full: "qmgr_full d X s" and "a < heap_next s" and "k \<noteq> Queue_obj" and "k \<noteq> Peer_obj"
    and "\<And>e q. e \<in> set (q_todo (queues s q) @ q_busy (queues s q)) \<Longrightarrow> \<not> (k = Entry_obj \<and> a = e)"
  shows "qmgr_full d X (myfree k a s)"
proof -
  have "qmgr_inv (myfree k a s)"
    using full assms(2-5) by (intro qmgr_inv_free_other) (auto simp: qmgr_full_def)
  moreover have "peer_named (myfree k a s) = peer_named s" "on_job (myfree k a s) = on_job s"
    using assms(4) by (auto simp: fun_eq_iff peer_named_def on_job_def queue_linked_def)
  then have "peers_inv X (myfree k a s) = peers_inv X s" by (simp add: peers_inv_def)
  moreover have "refs d (myfree k a s) = refs d s" "jobs_named (myfree k a s) = jobs_named s"
    by (simp_all add: refs_def peer_entries_def jobs_named_def)
  ultimately show ?thesis using full by (simp add: qmgr_full_def)
qed

lemma entry_release_full:
  assumes full: "qmgr_full d X s" and live: "e < heap_next s"
    and off: "\<And>q. e \<notin> set (q_todo (queues s q) @ q_busy (queues s q))"
  shows "qmgr_full d X (entry_release e s)"
proof -
  define s1 where "s1 = entry_uncount e s"
  have s1: "entry_release e s = myfree Entry_obj e s1" "same_core s s1"
    by (simp_all add: s1_def entry_release_def entry_uncount_def Let_def same_core_def job_view_def)
  have "qmgr_full d X s1" using same_core_full [OF s1(2) full] .
  moreover have "heap_next s1 = heap_next s" using s1(2) by (simp add: same_core_def)
  ultimately show ?thesis
    unfolding s1(1) using off live same_core_queue(1,2) [OF s1(2)] by (intro free_full) auto
qed

lemma return_limits_core: "same_core s (return_limits j m s)"
proof -
  have "same_core s (fold (sponsor_limits j m) js s)" for js
    by (rule fold_preserves) (auto simp: sponsor_limits_def)
  then show ?thesis by (simp add: return_limits_def Let_def)
qed

text \<open>Suspending a rate-limited queue.\<close>

lemma rate_limit_queue_full:
  assumes full: "qmgr_full d X s" and linked: "queue_linked s q" and t: "t = q_transport (queues s q)"
    and idle: "which = QMGR_QUEUE_BUSY \<Longrightarrow> 0 < t_rate_delay (transports s t) \<Longrightarrow> q_busy (queues s q) = []"
  shows "returns (rate_limit_queue which t q s) (\<lambda>s'. qmgr_full d X s' \<and> quiet s s')"
proof (cases "which = QMGR_QUEUE_BUSY \<and> 0 < t_rate_delay (transports s t)")
  case False
  then show ?thesis using full by (auto simp: rate_limit_queue_def)
next
  case True
  have qi: "queues_inv s" using full by (simp add: qmgr_full_def qmgr_inv_def)
  have win: "q_window (queues s q) \<le> 1"
    using queue_linkedD(1,2) [OF qi linked] True t by (auto simp: transport_ok_def queue_ok_def)
  have "returns (if QMGR_QUEUE_THROTTLED (queues s q) then qmgr_queue_unthrottle q s else Ret s)
      (\<lambda>s'. qmgr_full d X s' \<and> quiet s s')"
    using returns_mono [OF unthrottle_full [OF full linked]] full by (auto simp: queue_status_defs)
  then have "returns (obind (if QMGR_QUEUE_THROTTLED (queues s q) then qmgr_queue_unthrottle q s else Ret s)
      (\<lambda>s. if QMGR_QUEUE_READY (queues s q) then qmgr_queue_suspend q (t_rate_delay (transports s t)) s else Ret s))
      (\<lambda>s'. qmgr_full d X s' \<and> quiet s s')"
    unfolding returns_obind
  proof (rule returns_mono, goal_cases)
    case (1 s1)
    then have l: "queue_linked s1 q" "q_busy (queues s1 q) = []"
      using linked idle True by (auto simp: quiet_def lists_frame_def)
    have "returns (qmgr_queue_suspend q delay s1) (\<lambda>s'. qmgr_full d X s' \<and> quiet s s')"
      if "QMGR_QUEUE_READY (queues s1 q)" for delay
      by (rule returns_mono [OF suspend_full, of d X s1]) (use 1 l that quiet_trans [of s s1] in auto)
    then show ?case using 1 by simp
  qed
  then show ?thesis using True win by (simp add: rate_limit_queue_def)
qed

lemma update_blocker_full:
  assumes "qmgr_full d X s" and "queue_linked s q"
  shows "qmgr_full d X (update_blocker t q s)" and "quiet s (update_blocker t q s)"
  using assms blocker_update_full blocker_update_quiet by (auto simp: update_blocker_def)

text \<open>Releasing the peer brings its count up to date.\<close>

lemma peer_release_full:
  assumes full: "qmgr_full (one_off p) {} s"
    and named: "j_peer_byname (jobs s (p_job (peers s p))) (q_name (queues s (p_queue (peers s p)))) = Some p"
  shows "returns (peer_release p s) (\<lambda>s'. qmgr_good s' \<and> queues s' = queues s \<and> transports s' = transports s
    \<and> messages s' = messages s \<and> entries s' = entries s)"
proof -
  have inv: "qmgr_inv s" and ei: "entries_inv s" and rf: "refs (one_off p) s" and pi: "peers_inv {} s"
    using full by (simp_all add: qmgr_full_def qmgr_inv_def)
  define s1 where "s1 = upd_peer p (\<lambda>x. x\<lparr>p_refcount := p_refcount x - 1\<rparr>) s"
  have eqs: "entries s1 = entries s" "queues s1 = queues s" "jobs s1 = jobs s" "transports s1 = transports s"
    "heap_next s1 = heap_next s" "heap_freed s1 = heap_freed s" "timers s1 = timers s" "messages s1 = messages s"
    and pe: "p_queue (peers s1 r) = p_queue (peers s r)" "p_job (peers s1 r) = p_job (peers s r)"
      "p_entry_list (peers s1 r) = p_entry_list (peers s r)"
      "p_refcount (peers s1 r) = p_refcount (peers s r) - one_off p r" for r
    by (simp_all add: s1_def)
  have "on_queue s1 = on_queue s" "on_peer s1 = on_peer s" "queue_linked s1 = queue_linked s" "on_job s1 = on_job s"
    "peer_named s1 = peer_named s" "queue_good s1 = queue_good s" "queue_list_ok s1 = queue_list_ok s"
    "queue_timers_ok s1 = queue_timers_ok s"
    by (simp_all add: fun_eq_iff on_queue_def on_peer_def queue_linked_def on_job_def peer_named_def queue_good_def
        queue_list_ok_def belongs_def queue_timers_ok_def eqs pe)
  note same = this
  have inv1: "qmgr_inv s1"
    using inv by (simp add: qmgr_inv_def queues_inv_def entries_inv_def same eqs pe)
  have jn1: "jobs_named s1" using full by (auto simp: qmgr_full_def eqs intro: jobs_named_mono)
  have ents: "peer_entries s1 = peer_entries s" by (simp add: fun_eq_iff peer_entries_def eqs pe)
  have rf1: "refs (\<lambda>_. 0) s1" using rf by (simp add: refs_def ents pe)
  have count: "p_refcount (peers s1 p) = int (length (peer_entries s p))" using rf1 by (simp add: refs_def ents)
  have named1: "0 < p_refcount (peers s1 r)" if "r \<noteq> p" "j_peer_byname (jobs s j) name = Some r" for r j name
    using pi that by (auto simp: peers_inv_def pe)
  show ?thesis
  proof (cases "p_refcount (peers s1 p) = 0")
    case False
    then have "0 < p_refcount (peers s1 p)" using count by simp
    then have "0 < p_refcount (peers s1 r)" if "j_peer_byname (jobs s j) name = Some r" for r j name
      using named1 that by (cases "r = p") auto
    then have "peers_inv {} s1" using pi by (auto simp: peers_inv_def same eqs)
    then have "qmgr_good s1" using inv1 rf1 jn1 by (simp add: qmgr_full_def)
    then show ?thesis using False eqs by (simp add: peer_release_def s1_def [symmetric] Let_def del: store_defs)
  next
    case True
    let ?j = "p_job (peers s p)" and ?n = "q_name (queues s (p_queue (peers s p)))"
    define js where "js = (jobs s)(?j := (jobs s ?j)\<lparr>j_peer_list := remove1 p (j_peer_list (jobs s ?j)),
      j_peer_byname := (j_peer_byname (jobs s ?j))(?n := None)\<rparr>)"
    define s2 where "s2 = s1\<lparr>jobs := js\<rparr>"
    have no_entry: "e_peer (entries s e) \<noteq> p" if "e \<in> set (q_todo (queues s q) @ q_busy (queues s q))" for e q
    proof
      assume "e_peer (entries s e) = p"
      then have "e \<in> set (peer_entries s p)" using listed_entry(2) [OF full that] that by (auto simp: peer_entries_def)
      then show False using True count by simp
    qed
    have "e \<notin> set (p_entry_list (peers s p))" for e
      using entries_invD(4) [OF ei, of e p] no_entry [of e "p_queue (peers s p)"] by (auto simp: on_peer_def)
    then have empty: "p_entry_list (peers s1 p) = []" unfolding pe by (metis list.set_intros(1) neq_Nil_conv)
    have ret: "peer_release p s = Ret (myfree Peer_obj p s2)"
      using True empty named
      by (simp add: peer_release_def s1_def [symmetric] Let_def qmgr_peer_free_def eqs pe s2_def js_def
          del: upd_peer_def)
    have live: "p < heap_next s" "j_peer_byname (jobs s j) name = Some p \<Longrightarrow> j = ?j \<and> name = ?n" for j name
      using pi named by (auto simp: peers_inv_def peer_named_def)
    have "qmgr_inv (myfree Peer_obj p s2)"
    proof (rule qmgr_inv_free_other)
      show "qmgr_inv s2" using inv1 by (simp add: s2_def)
    qed (use live no_entry eqs in \<open>auto simp: s2_def\<close>)
    moreover have "refs (\<lambda>_. 0) (myfree Peer_obj p s2)" using rf1 by (simp add: refs_def peer_entries_def s2_def)
    moreover have "peers_inv {} (myfree Peer_obj p s2)"
    proof -
      have j: "j_peer_byname (js k) name = (if k = ?j \<and> name = ?n then None else j_peer_byname (jobs s k) name)"
        "j_transport (js k) = j_transport (jobs s k)" for k name by (auto simp: js_def)
      have "queue_linked (myfree Peer_obj p s2) q = queue_linked s q" for q
        by (simp add: queue_linked_def s2_def eqs)
      then have pn: "peer_named (myfree Peer_obj p s2) k name r" if "peer_named s k name r" "r \<noteq> p" for k name r
        using that by (simp add: peer_named_def s2_def j eqs pe)
      have oj: "on_job (myfree Peer_obj p s2) q e"
        if "e \<in> set (q_todo (queues s q) @ q_busy (queues s q))" "on_job s q e" for q e
        using that(2) no_entry [OF that(1)] named by (auto simp: on_job_def s2_def j eqs pe)
      have "peer_named (myfree Peer_obj p s2) k name r \<and> 0 < p_refcount (peers s1 r)"
        if "j_peer_byname (js k) name = Some r" for k name r
      proof -
        have b: "j_peer_byname (jobs s k) name = Some r" "\<not> (k = ?j \<and> name = ?n)"
          using that by (simp_all add: j split: if_splits)
        then have "r \<noteq> p" using live(2) by blast
        moreover have "peer_named s k name r" using pi b(1) by (simp add: peers_inv_def)
        ultimately show ?thesis using pn named1 b(1) by blast
      qed
      then show ?thesis
        using pi oj unfolding peers_inv_def by (simp add: s2_def eqs)
    qed
    moreover have "jobs_named (myfree Peer_obj p s2)"
      using jn1 by (auto simp: jobs_named_def s2_def js_def eqs)
    ultimately show ?thesis using ret eqs by (simp add: qmgr_full_def s2_def)
  qed
qed

lemma last_done_full:
  assumes full: "qmgr_full d X s" and linked: "queue_linked s q"
  shows "qmgr_full d X (upd_queue q (\<lambda>x. x\<lparr>q_last_done := v\<rparr>) s)"
proof -
  have qi: "queues_inv s" using full by (simp add: qmgr_full_def qmgr_inv_def)
  let ?qu = "(queues s q)\<lparr>q_last_done := v\<rparr>"
  have ok: "queue_ok (queue_transport s q) ?qu"
    using queue_linkedD(2) [OF qi linked] by (auto simp: queue_ok_def queue_status_defs)
  have "queues_inv (s\<lparr>queues := (queues s)(q := ?qu)\<rparr>)"
    by (rule queues_inv_local [OF qi linked, where qu = ?qu])
      (use ok queue_timers_linked [OF qi linked] in \<open>auto simp: queue_status_defs\<close>)
  moreover have "quiet s (s\<lparr>queues := (queues s)(q := ?qu)\<rparr>)" by (rule quietI) auto
  ultimately show ?thesis using quiet_full [OF full] by simp
qed

lemma discard_queue_full:
  assumes good: "qmgr_good s" and linked: "queue_linked s q"
  shows "returns (discard_queue conf q s) qmgr_good"
proof (cases "q_todo (queues s q) = [] \<and> q_busy (queues s q) = []")
  case False
  then show ?thesis using good by (auto simp: discard_queue_def)
next
  case True
  have "returns (if QMGR_QUEUE_THROTTLED (queues s q) \<and> queue_count s > 2 * var_qmgr_rcpt_limit conf
      then qmgr_queue_unthrottle q s else Ret s) (\<lambda>s'. qmgr_good s' \<and> quiet s s')"
    using returns_mono [OF unthrottle_full [OF good linked]] good by (auto simp: queue_status_defs)
  then have "returns (obind (if QMGR_QUEUE_THROTTLED (queues s q) \<and> queue_count s > 2 * var_qmgr_rcpt_limit conf
      then qmgr_queue_unthrottle q s else Ret s)
      (\<lambda>s. if QMGR_QUEUE_READY (queues s q) then qmgr_queue_done q s else Ret s)) qmgr_good"
    unfolding returns_obind
  proof (rule returns_mono, goal_cases)
    case (1 s1)
    then have "queue_linked s1 q" "q_todo (queues s1 q) = []" "q_busy (queues s1 q) = []"
      using linked True by (auto simp: quiet_def lists_frame_def)
    then show ?case using 1 queue_done_full [of s1 q] by (simp add: queue_idle_def)
  qed
  then show ?thesis using True by (simp add: discard_queue_def)
qed

lemma message_refcount_full:
  "qmgr_full d X (upd_message m f s) = qmgr_full d X s"
proof -
  have "same_core s (upd_message m f s)" "same_core (upd_message m f s) s" by (simp_all add: same_core_def)
  then show ?thesis using same_core_full by blast
qed

text \<open>
  What \<open>qmgr_active_done\<close> may do: it disposes of a message that has no more entries, and leaves
  the invariant intact.
\<close>

definition disposes :: "active_done \<Rightarrow> bool" where
  "disposes active_done \<longleftrightarrow> (\<forall>m s. qmgr_good s \<longrightarrow> returns (active_done m s) qmgr_good)"

text \<open>The state after the entry is off its list, freed, and its recipient slots are returned.\<close>

definition detached :: "entry_id \<Rightarrow> which_queue \<Rightarrow> qmgr \<Rightarrow> qmgr" where
  "detached e which s = return_limits (p_job (peers s (e_peer (entries s e)))) (e_message (entries s e))
     (entry_release e (entry_unlink e which s))"

lemma detached_frame:
  "q_busy (queues (detached e which s) q) = q_busy (queues (entry_unlink e which s) q)"
  "q_transport (queues (detached e which s) q) = q_transport (queues s q)"
  "q_name (queues (detached e which s) q) = q_name (queues s q)"
  "p_queue (peers (detached e which s) p) = p_queue (peers s p)"
  "p_job (peers (detached e which s) p) = p_job (peers s p)"
  "job_view (jobs (detached e which s) k) = job_view (jobs s k)"
  "t_view (transports (detached e which s) t) = t_view (transports s t)"
proof -
  define s1 where "s1 = entry_unlink e which s"
  note fr = entry_unlink_frame [of e which s, folded s1_def]
  define s2 where "s2 = entry_release e s1"
  define s3 where "s3 = detached e which s"
  have core: "same_core s2 s3" unfolding s3_def detached_def s2_def s1_def by (rule return_limits_core)
  have v2: "queues s2 = queues s1" "transports s2 = transports s1" "peers s2 = peers s1"
    "job_view (jobs s2 j) = job_view (jobs s1 j)" for j
    by (simp_all add: s2_def entry_release_def entry_uncount_def Let_def job_view_def)
  have c: "peers s3 = peers s2" "job_view (jobs s3 k) = job_view (jobs s2 k)" "t_view (transports s3 t) = t_view (transports s2 t)"
    using core by (simp_all add: same_core_def)
  note sc = same_core_queue [OF core]
  show "q_busy (queues (detached e which s) q) = q_busy (queues (entry_unlink e which s) q)"
    "q_transport (queues (detached e which s) q) = q_transport (queues s q)"
    "q_name (queues (detached e which s) q) = q_name (queues s q)"
    "p_queue (peers (detached e which s) p) = p_queue (peers s p)"
    "p_job (peers (detached e which s) p) = p_job (peers s p)"
    "job_view (jobs (detached e which s) k) = job_view (jobs s k)"
    "t_view (transports (detached e which s) t) = t_view (transports s t)"
    unfolding s3_def [symmetric] s1_def [symmetric] by (simp_all add: sc c v2 fr)
qed

lemma detached_linked: "queue_linked (detached e which s) q = queue_linked s q"
  by (rule queue_linked_cong) (simp_all add: detached_frame)

lemma detached_full:
  assumes good: "qmgr_good s" and e: "e \<in> set (which_list which (queues s (e_queue (entries s e))))"
  shows "qmgr_full (one_off (e_peer (entries s e))) {} (detached e which s)"
proof -
  let ?q = "e_queue (entries s e)"
  have ei: "entries_inv s" using good by (simp add: qmgr_full_def qmgr_inv_def)
  note fr = entry_unlink_frame [of e which s] and ul = unlinked_lists [OF entries_invD(2) [OF ei, of ?q] e]
  have off: "e \<notin> set (q_todo (queues (entry_unlink e which s) r) @ q_busy (queues (entry_unlink e which s) r))" for r
  proof (cases "r = ?q")
    case True
    then show ?thesis using ul(2,3) by (simp add: fr)
  next
    case False
    moreover have "\<not> on_queue s e r" using False by (simp add: on_queue_def)
    ultimately show ?thesis using entries_invD(1) [OF ei, of e r] by (auto simp: fr)
  qed
  have "qmgr_full (one_off (e_peer (entries s e))) {} (entry_release e (entry_unlink e which s))"
    by (rule entry_release_full [OF entry_unlink_full [OF good e] _ off])
      (simp add: fr listed_entry(4) [OF good which_list_mem [OF e]])
  then show ?thesis unfolding detached_def by (rule same_core_full [OF return_limits_core])
qed

lemma detached_idle:
  assumes good: "qmgr_good s" and e: "e \<in> set (q_busy (queues s (e_queue (entries s e))))"
    and rate: "0 < t_rate_delay (queue_transport s (e_queue (entries s e)))"
  shows "q_busy (queues (detached e QMGR_QUEUE_BUSY s) (e_queue (entries s e))) = []"
proof -
  let ?q = "e_queue (entries s e)"
  have qi: "queues_inv s" using good by (simp add: qmgr_full_def qmgr_inv_def)
  have linked: "queue_linked s ?q" using listed_entry(3) [OF good, of e ?q] e by auto
  have "queue_ok (queue_transport s ?q) (queues s ?q)" "t_dest_concurrency_limit (queue_transport s ?q) = 1"
    using queue_linkedD(1,2) [OF qi linked] rate by (simp_all add: transport_ok_def)
  then have "length (q_busy (queues s ?q)) \<le> 1" by (simp add: queue_ok_def)
  then have "q_busy (queues s ?q) = [e]" using e by (cases "q_busy (queues s ?q)") auto
  then show ?thesis by (simp add: detached_frame entry_unlink_frame unlinked_queue_def)
qed

lemma qmgr_entry_done_full:
  assumes good: "qmgr_good s" and disp: "disposes active_done"
    and e: "e \<in> set (which_list which (queues s (e_queue (entries s e))))" and closed: "e_stream (entries s e) = None"
  shows "returns (qmgr_entry_done active_done conf e which s) qmgr_good"
proof -
  let ?q = "e_queue (entries s e)" and ?p = "e_peer (entries s e)" and ?m = "e_message (entries s e)"
  let ?t = "j_transport (jobs s (p_job (peers s ?p)))" and ?s3 = "detached e which s"
  note le = listed_entry [OF good which_list_mem [OF e]] and fr = detached_frame [of e which s]
  have l3: "queue_linked ?s3 ?q" using le(3) by (simp add: detached_linked)
  have idle: "q_busy (queues ?s3 ?q) = []" if "which = QMGR_QUEUE_BUSY" "0 < t_rate_delay (transports ?s3 ?t)"
    using detached_idle [OF good] that e t_viewD(5) [OF fr(7), of ?t] le(9) by (simp add: which_list_def)
  have 1: "returns (rate_limit_queue which ?t ?q ?s3) (\<lambda>s4. qmgr_full (one_off ?p) {} s4 \<and> quiet ?s3 s4)"
    by (rule rate_limit_queue_full [OF detached_full [OF good e] l3 _ idle]) (simp_all add: fr le(9))
  have 2: "returns (peer_release ?p (update_blocker ?t ?q s4)) (\<lambda>s5. qmgr_good s5 \<and> queue_linked s5 ?q)"
    if s4: "qmgr_full (one_off ?p) {} s4" "quiet ?s3 s4" for s4
  proof -
    let ?s = "update_blocker ?t ?q s4"
    have l4: "queue_linked s4 ?q" using s4(2) l3 by (simp add: quiet_def)
    note ub = update_blocker_full [OF s4(1) l4, of ?t]
    have qt: "quiet ?s3 ?s" using quiet_trans [OF s4(2) ub(2)] .
    then have "\<And>k. job_view (jobs ?s k) = job_view (jobs s k)" "\<And>r. q_name (queues ?s r) = q_name (queues s r)"
      "peers ?s = peers ?s3" and l: "queue_linked ?s ?q"
      using l3 by (auto simp: quiet_def lists_frame_def fr)
    then have "j_peer_byname (jobs ?s (p_job (peers ?s ?p))) (q_name (queues ?s (p_queue (peers ?s ?p)))) = Some ?p"
      using le(2,8) job_viewD(3) [of "jobs ?s _" "jobs s _"] by (simp add: fr)
    from peer_release_full [OF ub(1) this] show ?thesis
      by (rule returns_mono) (use l in \<open>auto simp: queue_linked_def\<close>)
  qed
  have 3: "returns (obind (discard_queue conf ?q s6)
      (\<lambda>s. let s = upd_message ?m (\<lambda>x. x\<lparr>m_refcount := m_refcount x - 1\<rparr>) s
           in if m_refcount (messages s ?m) = 0 then active_done ?m s else Ret s)) qmgr_good"
    if "qmgr_good s6" "queue_linked s6 ?q" for s6
    unfolding returns_obind
    by (rule returns_mono [OF discard_queue_full [OF that]])
      (use disp in \<open>auto simp: disposes_def Let_def message_refcount_full simp del: upd_message_def\<close>)
  define K where "K s = (let s = (if which = QMGR_QUEUE_BUSY then upd_queue ?q (\<lambda>x. x\<lparr>q_last_done := event_now s\<rparr>) s else s)
      in obind (discard_queue conf ?q s) (\<lambda>s.
         let s = upd_message ?m (\<lambda>x. x\<lparr>m_refcount := m_refcount x - 1\<rparr>) s
         in if m_refcount (messages s ?m) = 0 then active_done ?m s else Ret s))" for s
  have 4: "returns (K s5) qmgr_good" if "qmgr_good s5" "queue_linked s5 ?q" for s5
    unfolding K_def Let_def [of "if which = QMGR_QUEUE_BUSY then _ else _"]
    by (rule 3) (use last_done_full [OF that] that in \<open>auto simp: queue_linked_def\<close>)
  have "returns (obind (rate_limit_queue which ?t ?q ?s3) (\<lambda>s. obind (peer_release ?p (update_blocker ?t ?q s)) K)) qmgr_good"
    unfolding returns_obind
    by (rule returns_mono [OF 1], rule returns_mono [OF 2]) (use 4 in auto)
  then show ?thesis
    using closed unfolding qmgr_entry_done_def K_def detached_def Let_def by simp
qed

section \<open>Moving entries between the lists\<close>

lemma shuffle_full:
  assumes full: "qmgr_full d X s" and inv: "qmgr_inv s'" and ent: "entries s' = entries s"
    and pe: "\<And>p. p_queue (peers s' p) = p_queue (peers s p) \<and> p_job (peers s' p) = p_job (peers s p)
      \<and> p_refcount (peers s' p) = p_refcount (peers s p)"
    and heap: "heap_next s' = heap_next s" "heap_freed s' = heap_freed s"
    and jv: "\<And>j. job_view (jobs s' j) = job_view (jobs s j)"
    and qs: "\<And>q. q_name (queues s' q) = q_name (queues s q) \<and> q_transport (queues s' q) = q_transport (queues s q)
      \<and> mset (q_todo (queues s' q) @ q_busy (queues s' q)) = mset (q_todo (queues s q) @ q_busy (queues s q))"
    and link: "\<And>q. queue_linked s' q = queue_linked s q"
    and jn: "\<And>t. t_job_byname (transports s' t) = t_job_byname (transports s t)"
  shows "qmgr_full d X s'"
proof -
  have "jobs_named s'" using full jv jn heap by (auto simp: qmgr_full_def intro: jobs_named_mono)
  moreover
  have "length (peer_entries s' p) = length (peer_entries s p)" for p
    using qs [of "p_queue (peers s p)"] pe [of p] unfolding peer_entries_def ent
    by (metis mset_filter size_mset)
  then have "refs d s'" using full pe by (simp add: refs_def qmgr_full_def)
  moreover have "peer_named s' = peer_named s" "on_job s' = on_job s"
    by (simp_all add: fun_eq_iff peer_named_def on_job_def ent pe heap qs link job_viewD [OF jv])
  moreover have "set (q_todo (queues s' q) @ q_busy (queues s' q)) = set (q_todo (queues s q) @ q_busy (queues s q))" for q
    using qs by (metis set_mset_mset)
  ultimately show ?thesis
    using full inv unfolding qmgr_full_def peers_inv_def job_viewD(3) [OF jv] by (simp add: pe)
qed

lemma entry_select_full:
  assumes full: "qmgr_full d X s" and suitable: "peer_suitable s p"
  shows "qmgr_full d X (snd (qmgr_entry_select p s))"
proof -
  have inv: "qmgr_inv s" and ei: "entries_inv s" using full by (simp_all add: qmgr_full_def qmgr_inv_def)
  obtain e es where es: "p_entry_list (peers s p) = e # es"
    using suitable by (cases "p_entry_list (peers s p)") (auto simp: peer_suitable_def)
  have "e \<in> set (q_todo (queues s (p_queue (peers s p))))" using entries_invD(4) [OF ei, of e p] es by auto
  moreover from this have "e_queue (entries s e) = p_queue (peers s p)"
    using entries_invD(1) [OF ei, of e "p_queue (peers s p)"] by (simp add: on_queue_def)
  ultimately have mem: "e \<in> set (q_todo (queues s (e_queue (entries s e))))" by simp
  show ?thesis
    by (rule shuffle_full [OF full qmgr_entry_select_inv [OF inv suitable]])
      (use mem in \<open>auto simp: qmgr_entry_select_Some [OF es] selected_queue_def queue_linked_def\<close>)
qed

lemma entry_unselect_full:
  assumes full: "qmgr_full d X s" and busy: "e \<in> set (q_busy (queues s (e_queue (entries s e))))"
  shows "qmgr_full d X (qmgr_entry_unselect e s)"
proof -
  have inv: "qmgr_inv s" using full by (simp add: qmgr_full_def)
  show ?thesis
    by (rule shuffle_full [OF full qmgr_entry_unselect_inv [OF inv busy]])
      (use busy in \<open>auto simp: qmgr_entry_unselect_def Let_def queue_linked_def\<close>)
qed

section \<open>Creating entries\<close>

lemma job_create_full:
  assumes full: "qmgr_full d X s"
  shows "qmgr_full d X (snd (qmgr_job_create m t s))"
proof -
  let ?s' = "snd (qmgr_job_create m t s)" and ?j = "heap_next s"
  have inv: "qmgr_inv s" and rf: "refs d s" and pi: "peers_inv X s" and qi: "queues_inv s" and ei: "entries_inv s"
    using full by (simp_all add: qmgr_full_def qmgr_inv_def)
  have eqs: "queues ?s' = queues s" "entries ?s' = entries s" "peers ?s' = peers s" "timers ?s' = timers s"
    "heap_freed ?s' = heap_freed s" "heap_next ?s' = Suc ?j" "t_view (transports ?s' u) = t_view (transports s u)" for u
    by (simp_all add: qmgr_job_create_def Let_def t_view_def)
  have js: "k \<noteq> ?j \<Longrightarrow> jobs ?s' k = jobs s k" "j_peer_byname (jobs ?s' ?j) = Map.empty" for k
    by (simp_all add: qmgr_job_create_def Let_def)
  have link: "queue_linked ?s' q = queue_linked s q" for q by (rule queue_linked_cong) (simp_all add: eqs)
  have "queue_list_ok ?s' u" for u
    using queues_invD(3) [OF qi, of u] t_viewD(3) [OF eqs(7), of u] by (fastforce simp: queue_list_ok_def belongs_def eqs)
  moreover have "queue_good ?s' q = queue_good s q" "queue_timers_ok ?s' q = queue_timers_ok s q" for q
    by (simp_all add: queue_good_def queue_timers_ok_def link eqs(1-6) t_viewD [OF eqs(7)])
  moreover have "\<forall>a \<in> set (heap_freed ?s'). snd a < heap_next ?s'"
    using qi by (auto simp: queues_inv_def eqs less_Suc_eq)
  ultimately have "queues_inv ?s'" using qi by (simp add: queues_inv_def link)
  moreover have "entries_inv ?s'"
  proof -
    have "on_queue s e q \<Longrightarrow> on_queue ?s' e q" "on_peer ?s' e p = on_peer s e p" for e p q
      by (auto simp: on_queue_def on_peer_def eqs(1-6))
    then show ?thesis using ei unfolding entries_inv_def link eqs(1-3) by blast
  qed
  moreover have "refs d ?s'" using rf by (simp add: refs_def peer_entries_def eqs(1-3))
  moreover have "peers_inv X ?s'"
  proof -
    have fresh: "j_peer_byname (jobs s k) name = Some p \<Longrightarrow> k \<noteq> ?j" for k name p
      using pi by (auto simp: peers_inv_def peer_named_def)
    have by_eq: "j_peer_byname (jobs ?s' k) name = Some p \<longleftrightarrow> j_peer_byname (jobs s k) name = Some p" for k name p
      using js fresh by (cases "k = ?j") auto
    have "peer_named ?s' k name p" if "peer_named s k name p" for k name p
      using that js(1) [of k] by (simp add: peer_named_def link eqs(1-6))
    moreover have "on_job ?s' q e = on_job s q e" for q e by (simp add: on_job_def by_eq eqs(1-3))
    ultimately show ?thesis using pi unfolding peers_inv_def by_eq eqs(1-3) by blast
  qed
  moreover have "jobs_named ?s'"
    using full by (auto simp: qmgr_full_def jobs_named_def qmgr_job_create_def Let_def intro: less_SucI)
  ultimately show ?thesis by (simp add: qmgr_full_def qmgr_inv_def)
qed

lemma link_lists_core [simp]: "same_core s (link_lists j s') = same_core s s'"
  by (rule same_core_right) (simp add: same_core_def link_lists_def Let_def split: prod.split)

lemma take_over_unread_core [simp]: "same_core s (take_over_unread j s') = same_core s s'"
  by (simp add: take_over_unread_def Let_def split: option.split)

lemma job_link_core: "qmgr_job_link j s = Ret s' \<Longrightarrow> same_core s s'"
  by (auto simp: qmgr_job_link_def Let_def split: if_splits)

text \<open>What obtaining a job leaves alone: everything but jobs, and addresses that are in use.\<close>

definition job_frame :: "qmgr \<Rightarrow> qmgr \<Rightarrow> bool" where
  "job_frame s s' \<longleftrightarrow> entries s' = entries s \<and> peers s' = peers s \<and> heap_freed s' = heap_freed s
     \<and> heap_next s \<le> heap_next s'
     \<and> (\<forall>q. (queues s' q)\<lparr>q_blocker_tag := 0\<rparr> = (queues s q)\<lparr>q_blocker_tag := 0\<rparr>)
     \<and> (\<forall>t. t_view (transports s' t) = t_view (transports s t) \<and> t_flags (transports s' t) = t_flags (transports s t))"

lemma link_lists_flags [simp]: "t_flags (transports (link_lists j s) t) = t_flags (transports s t)"
  by (simp add: link_lists_def Let_def split: prod.split)

lemma give_slots_flags [simp]: "t_flags (transports (give_slots j u n s) t) = t_flags (transports s t)"
  by (simp add: give_slots_def Let_def)

lemma give_pool_flags [simp]: "t_flags (transports (give_pool j u s) t) = t_flags (transports s t)"
  by (simp add: give_pool_def)

lemma advance_next_unread_flags [simp]: "t_flags (transports (advance_next_unread j s) t) = t_flags (transports s t)"
  by (simp add: advance_next_unread_def Let_def)

lemma move_limits_flags [simp]: "t_flags (transports (qmgr_job_move_limits j s) t) = t_flags (transports s t)"
  by (simp add: qmgr_job_move_limits_def Let_def split: option.split)

lemma take_over_unread_flags [simp]: "t_flags (transports (take_over_unread j s) t) = t_flags (transports s t)"
  by (simp add: take_over_unread_def Let_def split: option.split)

lemma job_link_flags: "qmgr_job_link j s = Ret s' \<Longrightarrow> t_flags (transports s' t) = t_flags (transports s t)"
  by (auto simp: qmgr_job_link_def Let_def split: if_splits)

lemma job_obtain_full:
  assumes full: "qmgr_full d X s"
  shows "returns (qmgr_job_obtain m t s) (\<lambda>(j, s'). qmgr_full d X s' \<and> job_frame s s'
    \<and> j_transport (jobs s' j) = t \<and> j < heap_next s')"
proof -
  define r where "r = (case qmgr_job_find m t s of Some j \<Rightarrow> (j, s) | None \<Rightarrow> qmgr_job_create m t s)"
  obtain j s1 where r: "r = (j, s1)" by (cases r)
  have 1: "qmgr_full d X s1 \<and> job_frame s s1 \<and> j_transport (jobs s1 j) = t \<and> j < heap_next s1"
  proof (cases "qmgr_job_find m t s")
    case None
    then have "s1 = snd (qmgr_job_create m t s)" "j = fst (qmgr_job_create m t s)" using r by (simp_all add: r_def)
    then show ?thesis using job_create_full [OF full, of m t]
      by (simp add: qmgr_job_create_def Let_def job_frame_def t_view_def)
  next
    case (Some k)
    then have "s1 = s" "j = k" using r by (simp_all add: r_def)
    then show ?thesis using full Some by (auto simp: qmgr_full_def jobs_named_def qmgr_job_find_def job_frame_def)
  qed
  obtain s2 where s2: "(if j_stack_level (jobs s1 j) < 0 then qmgr_job_link j s1 else Ret s1) = Ret s2"
    by (cases "j_stack_level (jobs s1 j) < 0") (auto simp: qmgr_job_link_def Let_def)
  have core: "same_core s1 s2" and fl: "t_flags (transports s2 u) = t_flags (transports s1 u)" for u
    using s2 job_link_core job_link_flags by (auto split: if_splits)
  define s3 where "s3 = (let s = RESET_CANDIDATE_CACHE t s2
    in if IS_BLOCKER s j t then upd_transport t (\<lambda>x. x\<lparr>t_job_current := first_of (t_job_list x)\<rparr>)
                                  (upd_job j (\<lambda>x. x\<lparr>j_blocker_tag := 0\<rparr>) s) else s)"
  have ret: "qmgr_job_obtain m t s = Ret (j, s3)"
    using r s2 by (simp add: qmgr_job_obtain_def r_def [symmetric] Let_def s3_def)
  have core3: "same_core s2 s3" by (simp add: s3_def Let_def RESET_CANDIDATE_CACHE_def same_core_def)
  have fl3: "t_flags (transports s3 u) = t_flags (transports s2 u)" for u
    by (simp add: s3_def Let_def RESET_CANDIDATE_CACHE_def)
  have sc: "same_core s1 s3" using core core3 same_core_trans by blast
  have "qmgr_full d X s3" using same_core_full [OF sc] 1 by blast
  moreover have "job_frame s s3" using 1 sc fl fl3 by (simp add: job_frame_def same_core_def)
  moreover have "j_transport (jobs s3 j) = t \<and> j < heap_next s3"
    using sc 1 by (simp add: same_core_def job_view_def)
  ultimately show ?thesis unfolding ret by simp
qed

text \<open>The peer of a job for a queue: found, or created without entries.\<close>

definition peer_ready :: "qmgr \<Rightarrow> job_id \<Rightarrow> queue_id \<Rightarrow> peer_id \<Rightarrow> bool" where
  "peer_ready s j q p \<longleftrightarrow> p_queue (peers s p) = q \<and> p_job (peers s p) = j
     \<and> j_peer_byname (jobs s j) (q_name (queues s q)) = Some p \<and> p < heap_next s \<and> (Peer_obj, p) \<notin> set (heap_freed s)"

lemma peer_create_full:
  assumes full: "qmgr_full (\<lambda>_. 0) {} s" and linked: "queue_linked s q" and job: "j < heap_next s"
    and xp: "q_transport (queues s q) = j_transport (jobs s j)" and new: "qmgr_peer_find j q s = None"
    and ret: "qmgr_peer_create j q s = (p, s')"
  shows "qmgr_full (\<lambda>_. 0) {p} s' \<and> peer_ready s' j q p"
proof -
  have inv: "qmgr_inv s" and ei: "entries_inv s" and rf: "refs (\<lambda>_. 0) s" and pi: "peers_inv {} s" and qi: "queues_inv s"
    using full by (simp_all add: qmgr_full_def qmgr_inv_def)
  have p: "p = heap_next s" and s': "s' = snd (qmgr_peer_create j q s)"
    using ret by (auto simp: qmgr_peer_create_def Let_def)
  have eqs: "queues s' = queues s" "transports s' = transports s" "entries s' = entries s"
    "heap_freed s' = heap_freed s" "heap_next s' = Suc p"
    "peers s' = (peers s)(p := \<lparr>p_job = j, p_queue = q, p_refcount = 0, p_entry_list = []\<rparr>)"
    using ret by (auto simp: qmgr_peer_create_def Let_def)
  have js: "j_peer_byname (jobs s' k) name = (if k = j \<and> name = q_name (queues s q) then Some p else j_peer_byname (jobs s k) name)"
    "j_transport (jobs s' k) = j_transport (jobs s k)" for k name
    using ret by (auto simp: qmgr_peer_create_def Let_def)
  have link: "queue_linked s' r = queue_linked s r" for r by (simp add: queue_linked_def eqs)
  have free: "\<forall>a \<in> set (heap_freed s). snd a < p" using qi p by (simp add: queues_inv_def)
  then have live: "(Peer_obj, p) \<notin> set (heap_freed s)" by auto
  have old: "e_peer (entries s e) \<noteq> p" if "e \<in> set (q_todo (queues s r) @ q_busy (queues s r))" for e r
    using listed_entry(5) [OF full that] p by simp
  have "filter (\<lambda>e. e_peer (entries s e) = p) (q_todo (queues s r) @ q_busy (queues s r)) = []" for r
    using old by (auto simp: filter_empty_conv)
  then have "refs (\<lambda>_. 0) s'" using rf by (auto simp: refs_def peer_entries_def eqs)
  moreover have "peers_inv {p} s'"
  proof -
    have nm: "peer_named s' k name r \<and> (r \<in> {p} \<or> 0 < p_refcount (peers s' r))"
      if "j_peer_byname (jobs s' k) name = Some r" for k name r
    proof (cases "k = j \<and> name = q_name (queues s q)")
      case True
      then have "r = p" using that by (simp add: js)
      then show ?thesis
        using True linked job xp live p by (simp add: peer_named_def eqs link js)
    next
      case False
      then have "j_peer_byname (jobs s k) name = Some r" using that by (simp add: js split: if_splits)
      then have "peer_named s k name r" "0 < p_refcount (peers s r)" using pi by (auto simp: peers_inv_def)
      moreover from this(1) have "r \<noteq> p" using p by (simp add: peer_named_def)
      ultimately show ?thesis using p by (simp add: peer_named_def eqs link js)
    qed
    have "on_job s' r e" if "e \<in> set (q_todo (queues s r) @ q_busy (queues s r))" for r e
      using listed_entry(8) [OF full that] old [OF that] new by (auto simp: on_job_def eqs js qmgr_peer_find_def)
    then show ?thesis using nm unfolding peers_inv_def eqs(1) by blast
  qed
  moreover have "jobs_named s'" using full p by (auto simp: qmgr_full_def jobs_named_def eqs js intro: less_SucI)
  moreover have "peer_ready s' j q p" using live by (simp add: peer_ready_def eqs js)
  ultimately show ?thesis
    using qmgr_peer_create_inv [OF inv, of j q] by (simp add: qmgr_full_def s' [symmetric])
qed

lemma peer_find_full:
  assumes full: "qmgr_full d X s" and linked: "queue_linked s q" and xp: "q_transport (queues s q) = j_transport (jobs s j)"
    and find: "qmgr_peer_find j q s = Some p"
  shows "peer_ready s j q p"
proof -
  have qi: "queues_inv s" and pi: "peers_inv X s" using full by (simp_all add: qmgr_full_def qmgr_inv_def)
  have nm: "peer_named s j (q_name (queues s q)) p" using pi find by (simp add: peers_inv_def qmgr_peer_find_def)
  then have l: "queue_linked s (p_queue (peers s p))" by (simp add: peer_named_def)
  have "q_name (queues s (p_queue (peers s p))) = q_name (queues s q)"
    "q_transport (queues s (p_queue (peers s p))) = q_transport (queues s q)"
    using nm xp unfolding peer_named_def by metis+
  then have "Some (p_queue (peers s p)) = Some q"
    using queue_linkedD(3) [OF qi l] queue_linkedD(3) [OF qi linked] by metis
  then have "p_queue (peers s p) = q" by simp
  then show ?thesis using nm find by (simp add: peer_ready_def peer_named_def qmgr_peer_find_def)
qed

lemma entry_create_Ret:
  assumes "\<not> QMGR_QUEUE_THROTTLED (queues s q)" and pq: "p_queue (peers s p) = q" "p_job (peers s p) = j" and e: "e = heap_next s"
  obtains c where "qmgr_entry_create conf p m s = Ret (e,
    s\<lparr>heap_next := Suc e,
       entries := (entries s)(e := \<lparr>e_stream = None, e_message = m, e_rcpt_list = [], e_queue = q, e_peer = p\<rparr>),
       messages := (messages s)(m := (messages s m)\<lparr>m_refcount := m_refcount (messages s m) + 1\<rparr>),
       peers := (peers s)(p := (peers s p)\<lparr>p_entry_list := p_entry_list (peers s p) @ [e], p_refcount := p_refcount (peers s p) + 1\<rparr>),
       queues := (queues s)(q := (queues s q)\<lparr>q_todo := q_todo (queues s q) @ [e],
         q_todo_refcount := q_todo_refcount (queues s q) + 1, q_clog_time_to_warn := c\<rparr>),
       jobs := (jobs s)(j := (jobs s j)\<lparr>j_read_entries := j_read_entries (jobs s j) + 1\<rparr>)\<rparr>)"
proof -
  let ?s1 = "s\<lparr>heap_next := Suc e,
     entries := (entries s)(e := \<lparr>e_stream = None, e_message = m, e_rcpt_list = [], e_queue = q, e_peer = p\<rparr>),
     messages := (messages s)(m := (messages s m)\<lparr>m_refcount := m_refcount (messages s m) + 1\<rparr>),
     peers := (peers s)(p := (peers s p)\<lparr>p_entry_list := p_entry_list (peers s p) @ [e], p_refcount := p_refcount (peers s p) + 1\<rparr>),
     queues := (queues s)(q := (queues s q)\<lparr>q_todo := q_todo (queues s q) @ [e],
       q_todo_refcount := q_todo_refcount (queues s q) + 1\<rparr>),
     jobs := (jobs s)(j := (jobs s j)\<lparr>j_read_entries := j_read_entries (jobs s j) + 1\<rparr>)\<rparr>"
  obtain c where "clog_warning conf q ?s1 = ?s1\<lparr>queues := (queues ?s1)(q := (queues ?s1 q)\<lparr>q_clog_time_to_warn := c\<rparr>)\<rparr>"
    by (rule clog_warning_frame)
  then show ?thesis using assms by (intro that [of c]) (simp add: qmgr_entry_create_def Let_def)
qed

lemma entry_create_full:
  assumes full: "qmgr_full (\<lambda>_. 0) X s" and X: "X \<subseteq> {p}" and linked: "queue_linked s q" and ready: "peer_ready s j q p"
    and alive: "\<not> QMGR_QUEUE_THROTTLED (queues s q)"
  shows "returns (qmgr_entry_create conf p m s) (\<lambda>(e, s'). qmgr_good s' \<and> e = heap_next s
    \<and> (\<forall>x < heap_next s. entries s' x = entries s x) \<and> entries s' e = \<lparr>e_stream = None, e_message = m, e_rcpt_list = [], e_queue = q, e_peer = p\<rparr>
    \<and> (\<forall>r. set (q_todo (queues s r)) \<subseteq> set (q_todo (queues s' r)) \<and> q_busy (queues s' r) = q_busy (queues s r)))"
proof -
  have inv: "qmgr_inv s" and ei: "entries_inv s" and rf: "refs (\<lambda>_. 0) s" and pi: "peers_inv X s"
    using full by (simp_all add: qmgr_full_def qmgr_inv_def)
  have p: "p_queue (peers s p) = q" "p_job (peers s p) = j" "p < heap_next s" "(Peer_obj, p) \<notin> set (heap_freed s)"
    and nm: "j_peer_byname (jobs s j) (q_name (queues s q)) = Some p"
    using ready by (simp_all add: peer_ready_def)
  let ?e = "heap_next s"
  obtain c where ret: "qmgr_entry_create conf p m s = Ret (?e,
    s\<lparr>heap_next := Suc ?e,
       entries := (entries s)(?e := \<lparr>e_stream = None, e_message = m, e_rcpt_list = [], e_queue = q, e_peer = p\<rparr>),
       messages := (messages s)(m := (messages s m)\<lparr>m_refcount := m_refcount (messages s m) + 1\<rparr>),
       peers := (peers s)(p := (peers s p)\<lparr>p_entry_list := p_entry_list (peers s p) @ [?e], p_refcount := p_refcount (peers s p) + 1\<rparr>),
       queues := (queues s)(q := (queues s q)\<lparr>q_todo := q_todo (queues s q) @ [?e],
         q_todo_refcount := q_todo_refcount (queues s q) + 1, q_clog_time_to_warn := c\<rparr>),
       jobs := (jobs s)(j := (jobs s j)\<lparr>j_read_entries := j_read_entries (jobs s j) + 1\<rparr>)\<rparr>)"
    (is "_ = Ret (_, ?s')")
    by (rule entry_create_Ret [OF alive p(1,2) refl])
  have inv': "qmgr_inv ?s'"
    using qmgr_entry_create_inv [OF inv, of p conf m] linked alive p ret by simp
  have old: "e \<noteq> ?e" if "e \<in> set (q_todo (queues s r) @ q_busy (queues s r))" for e r
    using listed_entry(4) [OF full that] by simp
  have "length (peer_entries ?s' r) = length (peer_entries s r) + (if r = p then 1 else 0)" for r
  proof -
    let ?Q = "p_queue (peers s r)" and ?P = "\<lambda>x. e_peer (entries s x) = r"
    define P where "P x \<longleftrightarrow> e_peer (entries ?s' x) = r" for x
    have Pe: "P ?e \<longleftrightarrow> p = r" by (simp add: P_def)
    have "filter P (q_todo (queues s ?Q)) = filter ?P (q_todo (queues s ?Q))"
      "filter P (q_busy (queues s ?Q)) = filter ?P (q_busy (queues s ?Q))"
      using old [of _ ?Q] by (auto simp: P_def intro!: filter_cong)
    note fp = this
    have "peer_entries ?s' r = filter P (q_todo (queues ?s' ?Q) @ q_busy (queues ?s' ?Q))"
      using p(1) by (auto simp: peer_entries_def P_def [abs_def])
    then show ?thesis
      using p(1) Pe fp by (cases "?Q = q") (auto simp: peer_entries_def)
  qed
  then have "refs (\<lambda>_. 0) ?s'" using rf by (auto simp: refs_def)
  moreover have "peers_inv {} ?s'"
  proof -
    have link: "queue_linked ?s' r = queue_linked s r" for r by (simp add: queue_linked_def)
    have byname: "j_peer_byname (jobs ?s' k) = j_peer_byname (jobs s k)" for k by simp
    have "peer_named ?s' k name r \<and> 0 < p_refcount (peers ?s' r)" if "j_peer_byname (jobs s k) name = Some r" for k name r
    proof -
      have "peer_named s k name r" "r = p \<or> 0 < p_refcount (peers s r)" using pi that X by (auto simp: peers_inv_def)
      moreover have "0 \<le> p_refcount (peers s p)" using rf by (simp add: refs_def)
      ultimately show ?thesis using p by (auto simp: peer_named_def link)
    qed
    moreover have "on_job ?s' r e" if "e \<in> set (q_todo (queues ?s' r) @ q_busy (queues ?s' r))" for r e
    proof (cases "e = ?e")
      case True
      then have "r = q" using that old [of e r] by (auto split: if_splits)
      then show ?thesis using True nm p by (simp add: on_job_def)
    next
      case False
      then have "e \<in> set (q_todo (queues s r) @ q_busy (queues s r))" using that by (auto split: if_splits)
      from listed_entry(8) [OF full this] show ?thesis using False by (auto simp: on_job_def)
    qed
    ultimately show ?thesis unfolding peers_inv_def byname by blast
  qed
  moreover have "jobs_named ?s'" using full by (auto simp: qmgr_full_def jobs_named_def intro: less_SucI)
  ultimately have "qmgr_good ?s'" using inv' by (simp add: qmgr_full_def)
  then show ?thesis unfolding ret by auto
qed

section \<open>Moving an entry to another queue\<close>

lemma entries_rcpt_full:
  assumes "qmgr_full d X s" and "\<And>e. e_queue (es e) = e_queue (entries s e) \<and> e_peer (es e) = e_peer (entries s e)"
  shows "qmgr_full d X (s\<lparr>entries := es\<rparr>)"
proof -
  let ?s' = "s\<lparr>entries := es\<rparr>"
  have "queue_linked ?s' = queue_linked s" "queue_good ?s' = queue_good s" "queue_list_ok ?s' = queue_list_ok s"
    "queue_timers_ok ?s' = queue_timers_ok s" "on_queue ?s' = on_queue s" "on_peer ?s' = on_peer s"
    "on_job ?s' = on_job s" "peer_named ?s' = peer_named s" "peer_entries ?s' = peer_entries s"
    using assms(2) by (simp_all add: fun_eq_iff queue_linked_def queue_good_def queue_list_ok_def belongs_def
        queue_timers_ok_def on_queue_def on_peer_def on_job_def peer_named_def peer_entries_def)
  note same = this
  have "refs d ?s' = refs d s" by (simp add: refs_def same)
  then show ?thesis
    using assms(1) by (simp add: qmgr_full_def qmgr_inv_def queues_inv_def entries_inv_def peers_inv_def jobs_named_def same)
qed

lemma job_counts_full:
  assumes "qmgr_full d X s" and "\<And>j. job_view (js j) = job_view (jobs s j)"
  shows "qmgr_full d X (s\<lparr>jobs := js\<rparr>)"
  using assms by (intro same_core_full [OF _ assms(1)]) simp

lemma peer_obtain_full:
  assumes good: "qmgr_good s" and linked: "queue_linked s q" and job: "j < heap_next s"
    and xp: "q_transport (queues s q) = j_transport (jobs s j)"
    and ret: "qmgr_peer_obtain j q s = (p, s')"
  obtains X where "qmgr_full (\<lambda>_. 0) X s'" and "X \<subseteq> {p}" and "peer_ready s' j q p"
    and "queues s' = queues s" and "entries s' = entries s" and "transports s' = transports s" and "heap_next s \<le> heap_next s'"
proof (cases "qmgr_peer_find j q s")
  case None
  then have ret': "qmgr_peer_create j q s = (p, s')" using ret by (simp add: qmgr_peer_obtain_def)
  from peer_create_full [OF good linked job xp None ret'] show ?thesis
    using ret' by (intro that [of "{p}"]) (auto simp: qmgr_peer_create_def Let_def)
next
  case (Some r)
  then have "r = p" "s' = s" using ret by (simp_all add: qmgr_peer_obtain_def)
  then show ?thesis using peer_find_full [OF good linked xp Some] good by (intro that [of "{}"]) simp_all
qed

lemma qmgr_entry_move_todo_full:
  assumes good: "qmgr_good s" and disp: "disposes active_done"
    and e: "e \<in> set (q_todo (queues s (e_queue (entries s e))))" and closed: "e_stream (entries s e) = None"
    and linked: "queue_linked s dst" and alive: "\<not> QMGR_QUEUE_THROTTLED (queues s dst)"
    and xp: "\<not> QMGR_TRANSPORT_THROTTLED (queue_transport s dst)"
  shows "returns (qmgr_entry_move_todo active_done conf dst e s) qmgr_good"
proof -
  let ?t = "q_transport (queues s dst)" and ?m = "e_message (entries s e)"
  have live: "e < heap_next s" using listed_entry(4) [OF good, of e] e by auto
  have "qmgr_entry_move_todo active_done conf dst e s = obind (qmgr_job_obtain ?m ?t s) (\<lambda>(dst_job, s').
      let (dst_peer, s') = qmgr_peer_obtain dst_job dst s'
      in obind (qmgr_entry_create conf dst_peer ?m s') (\<lambda>(new, s').
        let old_list = e_rcpt_list (entries s' e); new_list = e_rcpt_list (entries s' new);
            s' = upd_entry e (\<lambda>x. x\<lparr>e_rcpt_list := new_list\<rparr>) s';
            s' = upd_entry new (\<lambda>x. x\<lparr>e_rcpt_list := old_list\<rparr>) s';
            s' = upd_job (p_job (peers s (e_peer (entries s e)))) (\<lambda>x. x\<lparr>j_rcpt_count := j_rcpt_count x - int (length (e_rcpt_list (entries s e)))\<rparr>) s';
            s' = upd_job dst_job (\<lambda>x. x\<lparr>j_rcpt_count := j_rcpt_count x + int (length (e_rcpt_list (entries s e)))\<rparr>) s'
        in qmgr_entry_done active_done conf e QMGR_QUEUE_TODO s'))" (is "_ = obind _ (\<lambda>(dst_job, s'). ?K dst_job s')")
    using closed alive xp by (simp add: qmgr_entry_move_todo_def Let_def)
  moreover have "returns (?K j s1) qmgr_good"
    if s1: "qmgr_good s1" "job_frame s s1" "j_transport (jobs s1 j) = ?t" "j < heap_next s1" for j s1
  proof -
    obtain p s2 where po: "qmgr_peer_obtain j dst s1 = (p, s2)" by fastforce
    have qs: "q_transport (queues s1 q) = q_transport (queues s q)" "q_window (queues s1 q) = q_window (queues s q)"
      "q_todo (queues s1 q) = q_todo (queues s q)" for q
      using s1(2) blocker_tag_reset_eq [of "queues s1 q" "queues s q"] by (simp_all add: job_frame_def)
    have l1: "queue_linked s1 dst"
      using linked queue_linked_cong [of s1 s dst] s1(2) qs by (simp add: job_frame_def)
    obtain X where s2: "qmgr_full (\<lambda>_. 0) X s2" "X \<subseteq> {p}" "peer_ready s2 j dst p" "queues s2 = queues s1"
      "entries s2 = entries s1" "transports s2 = transports s1" "heap_next s1 \<le> heap_next s2"
      by (rule peer_obtain_full [OF s1(1) l1 s1(4) _ po]) (simp_all add: qs s1(3))
    have "queue_linked s2 dst" "\<not> QMGR_QUEUE_THROTTLED (queues s2 dst)"
      using l1 alive by (simp_all add: queue_linked_def s2 qs queue_status_defs)
    from entry_create_full [OF s2(1,2) this(1) s2(3) this(2), of conf ?m]
    obtain new s3 where ret: "qmgr_entry_create conf p ?m s2 = Ret (new, s3)" and s3: "qmgr_good s3" "new = heap_next s2"
      "\<forall>x < heap_next s2. entries s3 x = entries s2 x" "\<forall>r. set (q_todo (queues s2 r)) \<subseteq> set (q_todo (queues s3 r))"
      by (auto simp: returns_def)
    have ne: "e < heap_next s2" "e \<noteq> new" using live s1(2) s2(7) s3(2) by (simp_all add: job_frame_def)
    have ee: "entries s3 e = entries s e" using s3(3) ne s2(5) s1(2) by (simp add: job_frame_def)
    have mem: "e \<in> set (q_todo (queues s3 (e_queue (entries s e))))" using s3(4) s2(4) qs e by auto
    have "returns (qmgr_entry_done active_done conf e QMGR_QUEUE_TODO (s3\<lparr>entries := (entries s3)(e := (entries s3 e)\<lparr>e_rcpt_list := a\<rparr>,
        new := (entries s3 new)\<lparr>e_rcpt_list := b\<rparr>), jobs := js\<rparr>)) qmgr_good"
      if js: "\<And>k. job_view (js k) = job_view (jobs s3 k)" for a b js
      by (rule qmgr_entry_done_full [OF job_counts_full [OF entries_rcpt_full [OF s3(1)]] disp])
        (use js ee ne mem closed in \<open>auto simp: which_list_def\<close>)
    then show ?thesis using po ret ne by (simp add: Let_def)
  qed
  ultimately show ?thesis
    unfolding returns_obind by (simp add: returns_obind) (rule returns_mono [OF job_obtain_full [OF good]], auto)
qed

end
