(* ===== verification/C_Lib.thy ===== *)
theory C_Lib
  imports Postfix_Prelude "HOL-Library.Word"
begin

text \<open>
  The part of the C language and library that the modelled code uses on strings and integers:
  character classes of the ASCII locale, \<^verbatim>\<open>strtol()\<close> with base 10, decimal output with
  \<^verbatim>\<open>sprintf()\<close>, and the integer types of an LP64 platform. Strings are lists of characters
  without the terminating null. Nothing in this theory models a file of the repository.
\<close>

section \<open>Characters\<close>

abbreviation char_code :: "char \<Rightarrow> nat" where
  "char_code c \<equiv> of_char c"

definition isspace :: "char \<Rightarrow> bool" where
  "isspace c \<longleftrightarrow> c = CHR '' '' \<or> (9 \<le> char_code c \<and> char_code c \<le> 13)"

definition isdigit :: "char \<Rightarrow> bool" where
  "isdigit c \<longleftrightarrow> 48 \<le> char_code c \<and> char_code c \<le> 57"

definition isupper :: "char \<Rightarrow> bool" where
  "isupper c \<longleftrightarrow> 65 \<le> char_code c \<and> char_code c \<le> 90"

definition islower :: "char \<Rightarrow> bool" where
  "islower c \<longleftrightarrow> 97 \<le> char_code c \<and> char_code c \<le> 122"

definition isalpha :: "char \<Rightarrow> bool" where
  "isalpha c \<longleftrightarrow> isupper c \<or> islower c"

definition isalnum :: "char \<Rightarrow> bool" where
  "isalnum c \<longleftrightarrow> isalpha c \<or> isdigit c"

definition isprint :: "char \<Rightarrow> bool" where
  "isprint c \<longleftrightarrow> 32 \<le> char_code c \<and> char_code c \<le> 126"

definition isascii :: "char \<Rightarrow> bool" where
  "isascii c \<longleftrightarrow> char_code c < 128"

definition iscntrl :: "char \<Rightarrow> bool" where
  "iscntrl c \<longleftrightarrow> char_code c < 32 \<or> char_code c = 127"

definition toupper :: "char \<Rightarrow> char" where
  "toupper c = (if islower c then char_of (char_code c - 32) else c)"

definition tolower :: "char \<Rightarrow> char" where
  "tolower c = (if isupper c then char_of (char_code c + 32) else c)"

lemmas ctype_defs = isspace_def isdigit_def isupper_def islower_def isalpha_def isalnum_def
  isprint_def isascii_def iscntrl_def

lemma char_code_of [simp]: "n < 256 \<Longrightarrow> char_code (char_of n) = (n :: nat)"
  by (simp add: of_char_of)

lemma char_code_inject: "char_code c = char_code d \<longleftrightarrow> c = d"
  by simp

section \<open>Integers\<close>

definition INT_MAX :: int where "INT_MAX = 2147483647"
definition INT_MIN :: int where "INT_MIN = - 2147483648"
definition LONG_MAX :: int where "LONG_MAX = 9223372036854775807"
definition LONG_MIN :: int where "LONG_MIN = - 9223372036854775808"

text \<open>Conversion to a 32-bit \<^verbatim>\<open>int\<close> keeps the low-order bits.\<close>

definition to_int :: "int \<Rightarrow> int" where
  "to_int n = sint (word_of_int n :: 32 word)"

definition fits_int :: "int \<Rightarrow> bool" where
  "fits_int n \<longleftrightarrow> INT_MIN \<le> n \<and> n \<le> INT_MAX"

lemma to_int_eq_iff: "to_int n = n \<longleftrightarrow> fits_int n"
proof
  assume "to_int n = n"
  then show "fits_int n"
    using sint_ge [of "word_of_int n :: 32 word"] sint_lt [of "word_of_int n :: 32 word"]
    by (simp add: to_int_def fits_int_def INT_MIN_def INT_MAX_def)
next
  assume "fits_int n"
  then have "signed_take_bit 31 n = n"
    by (simp add: signed_take_bit_int_eq_self_iff fits_int_def INT_MIN_def INT_MAX_def)
  then show "to_int n = n" by (simp add: to_int_def sint_sbintrunc')
qed

section \<open>Numbers as text\<close>

definition digit_char :: "nat \<Rightarrow> char" where
  "digit_char d = char_of (48 + d)"

definition digit_val :: "char \<Rightarrow> nat" where
  "digit_val c = char_code c - 48"

lemma digit_char_simps [simp]:
  "d < 10 \<Longrightarrow> isdigit (digit_char d)" "d < 10 \<Longrightarrow> digit_val (digit_char d) = d"
  by (simp_all add: isdigit_def digit_val_def digit_char_def)

fun nat_digits :: "nat \<Rightarrow> string" where
  "nat_digits n = (if n < 10 then [digit_char n] else nat_digits (n div 10) @ [digit_char (n mod 10)])"

declare nat_digits.simps [simp del]

text \<open>\<^verbatim>\<open>sprintf("%d")\<close>.\<close>

definition sprintf_d :: "int \<Rightarrow> string" where
  "sprintf_d n = (if n < 0 then CHR ''-'' # nat_digits (nat (- n)) else nat_digits (nat n))"

text \<open>The value of a string of decimal digits.\<close>

definition digits_val :: "string \<Rightarrow> nat" where
  "digits_val ds = foldl (\<lambda>v d. 10 * v + digit_val d) 0 ds"

lemma nat_digits_props: "nat_digits n \<noteq> [] \<and> (\<forall>d \<in> set (nat_digits n). isdigit d) \<and> digits_val (nat_digits n) = n"
proof (induction n rule: nat_digits.induct)
  case (1 n)
  show ?case
  proof (cases "n < 10")
    case True
    then show ?thesis by (subst (1 2 3) nat_digits.simps) (simp add: digits_val_def)
  next
    case False
    with 1 show ?thesis by (subst (1 2 3) nat_digits.simps) (auto simp: digits_val_def)
  qed
qed

text \<open>
  \<^verbatim>\<open>strtol(s, &end, 10)\<close>: white space, an optional sign, digits. The result is the value,
  clamped with \<^verbatim>\<open>ERANGE\<close> set when it does not fit, and the rest of the string; without
  digits the value is 0 and the rest is the whole string.
\<close>

definition clamp_long :: "int \<Rightarrow> int \<times> bool" where
  "clamp_long v = (if v > LONG_MAX then (LONG_MAX, True) else if v < LONG_MIN then (LONG_MIN, True) else (v, False))"

definition strtol :: "string \<Rightarrow> int \<times> bool \<times> string" where
  "strtol s =
     (let t = dropWhile isspace s;
          neg = (t \<noteq> [] \<and> hd t = CHR ''-'');
          u = (if t \<noteq> [] \<and> (hd t = CHR ''-'' \<or> hd t = CHR ''+'') then tl t else t);
          ds = takeWhile isdigit u
      in if ds = [] then (0, False, s)
         else let (v, erange) = clamp_long (if neg then - int (digits_val ds) else int (digits_val ds))
              in (v, erange, dropWhile isdigit u))"

lemma takeWhile_digits: "takeWhile isdigit (nat_digits n @ rest) = nat_digits n @ takeWhile isdigit rest"
  "dropWhile isdigit (nat_digits n @ rest) = dropWhile isdigit rest"
  using nat_digits_props [of n] by simp_all

lemma hd_digits: "isdigit (hd (nat_digits n @ rest))"
  using nat_digits_props [of n] by (cases "nat_digits n") auto

lemma not_space_digit: "isdigit c \<Longrightarrow> \<not> isspace c \<and> c \<noteq> CHR ''-'' \<and> c \<noteq> CHR ''+''"
  by (auto simp: isdigit_def isspace_def)

lemma digits_val_append_nondigit:
  "rest = [] \<or> \<not> isdigit (hd rest) \<Longrightarrow> takeWhile isdigit rest = [] \<and> dropWhile isdigit rest = rest"
  by (cases rest) auto

text \<open>Reading back what was printed.\<close>

lemma strtol_sprintf_d:
  assumes "fits_int n" and "rest = [] \<or> \<not> isdigit (hd rest)"
  shows "strtol (sprintf_d n @ rest) = (n, False, rest)"
proof -
  let ?ds = "nat_digits (nat \<bar>n\<bar>)"
  obtain d ds where ds: "?ds = d # ds" "isdigit d" using nat_digits_props [of "nat \<bar>n\<bar>"] by (cases ?ds) auto
  have minus: "\<not> isspace (CHR ''-'')" by (simp add: isspace_def)
  have clamp: "clamp_long n = (n, False)"
    using assms(1) by (simp add: clamp_long_def LONG_MAX_def LONG_MIN_def fits_int_def INT_MAX_def INT_MIN_def)
  have tw: "takeWhile isdigit (?ds @ rest) = ?ds" "dropWhile isdigit (?ds @ rest) = rest"
    using takeWhile_digits digits_val_append_nondigit [OF assms(2)] by simp_all
  have val: "digits_val ?ds = nat \<bar>n\<bar>" "?ds \<noteq> []" using nat_digits_props by simp_all
  show ?thesis
  proof (cases "n < 0")
    case True
    then have "sprintf_d n = CHR ''-'' # ?ds" by (simp add: sprintf_d_def)
    then show ?thesis using True tw val clamp minus by (simp add: strtol_def Let_def)
  next
    case False
    then have s: "sprintf_d n = ?ds" by (simp add: sprintf_d_def)
    have "dropWhile isspace (?ds @ rest) = ?ds @ rest" "hd (?ds @ rest) \<noteq> CHR ''-''" "hd (?ds @ rest) \<noteq> CHR ''+''"
      using ds not_space_digit [OF ds(2)] by simp_all
    then show ?thesis using False tw val clamp by (simp add: s strtol_def Let_def del: append_is_Nil_conv) 
  qed
qed

end
