(* ===== verification/Mac_Expand.thy ===== *)
theory Mac_Expand
  imports C_Lib "HOL-Library.Sublist"
begin

unbundle bit_operations_syntax

text \<open>
  Expansion of \<open>$name\<close> and of conditional and relational expressions in text:
  \<^verbatim>\<open>src/src/util/mac_parse.c\<close>, \<^verbatim>\<open>mac_expand.c\<close>, the part of \<^verbatim>\<open>dict.c\<close> that applies it to a
  dictionary, and the helpers \<^verbatim>\<open>alldig.c\<close>, \<^verbatim>\<open>name_code.c\<close> and \<^verbatim>\<open>printable.c\<close>. The expansion of a
  looked up value may contain references again, so the C functions call each other recursively. The
  model has the number of nested calls that the process stack can hold as an argument, and \<open>Diverge\<close>
  is the result of exhausting it. Shown are: text is protected by doubling its dollar signs, what a conditional
  expression stands for, that replaced text obeys the character filter, when
  the expansion ends, and that the nesting limit does not always make it end.
\<close>

section \<open>Helpers\<close>

definition alldig :: "string \<Rightarrow> bool" where
  "alldig str \<longleftrightarrow> str \<noteq> [] \<and> (\<forall>c \<in> set str. isdigit c)"

function printable_except :: "bool \<Rightarrow> string \<Rightarrow> char \<Rightarrow> string \<Rightarrow> string" where
  "printable_except util_utf8_enable [] replacement except = []"
| "printable_except util_utf8_enable (ch # cp) replacement except =
     (if isascii ch \<and> (isprint ch \<or> ch \<in> set except)
      then ch # printable_except util_utf8_enable cp replacement except
      else if util_utf8_enable \<and> 194 \<le> char_code ch \<and> char_code ch \<le> 254
        \<and> cp \<noteq> [] \<and> 128 \<le> char_code (hd cp) \<and> char_code (hd cp) < 192
      then let trail = (\<lambda>c. 128 \<le> char_code c \<and> char_code c < 192)
           in ch # takeWhile trail cp @ printable_except util_utf8_enable (dropWhile trail cp) replacement except
      else replacement # printable_except util_utf8_enable cp replacement except)"
  by pat_completeness auto

termination
  by (relation "measure (\<lambda>(u, str, r, e). length str)") (auto simp: less_Suc_eq_le length_dropWhile_le)

definition printable :: "bool \<Rightarrow> string \<Rightarrow> char \<Rightarrow> string" where
  "printable util_utf8_enable str replacement = printable_except util_utf8_enable str replacement []"

definition NAME_CODE_FLAG_NONE :: "32 word" where "NAME_CODE_FLAG_NONE = 0"
definition NAME_CODE_FLAG_STRICT_CASE :: "32 word" where "NAME_CODE_FLAG_STRICT_CASE = 1"

text \<open>A name table ends with an entry that has no name; its code is the result for an unknown name.\<close>

fun name_code :: "(string \<times> 'c) list \<Rightarrow> 'c \<Rightarrow> 32 word \<Rightarrow> string \<Rightarrow> 'c" where
  "name_code [] none flags name = none"
| "name_code ((n, code) # np) none flags name =
     (if (if flags AND NAME_CODE_FLAG_STRICT_CASE \<noteq> 0 then name = n else map tolower name = map tolower n) then code
      else name_code np none flags name)"

text \<open>The sign of \<^verbatim>\<open>strcmp()\<close>, which compares bytes without sign.\<close>

fun strcmp :: "string \<Rightarrow> string \<Rightarrow> int" where
  "strcmp [] [] = 0"
| "strcmp [] (b # bs) = -1"
| "strcmp (a # as) [] = 1"
| "strcmp (a # as) (b # bs) =
     (if char_code a < char_code b then -1 else if char_code b < char_code a then 1 else strcmp as bs)"

section \<open>Splitting text into literals and references\<close>

datatype mac_type = MAC_PARSE_LITERAL | MAC_PARSE_EXPR

type_synonym mac_status = "32 word"

definition MAC_PARSE_OK :: mac_status where "MAC_PARSE_OK = 0"
definition MAC_PARSE_ERROR :: mac_status where "MAC_PARSE_ERROR = 1"
definition MAC_PARSE_UNDEF :: mac_status where "MAC_PARSE_UNDEF = 2"

type_synonym 'c mac_action = "mac_type \<Rightarrow> string \<Rightarrow> 'c \<Rightarrow> (mac_status \<times> 'c) outcome"

text \<open>
  The text up to the parenthesis that closes the current nesting level, and what follows it;
  \<open>None\<close> when the text ends before.
\<close>

fun balance :: "char \<Rightarrow> char \<Rightarrow> nat \<Rightarrow> string \<Rightarrow> (string \<times> string) option" where
  "balance op cl level [] = None"
| "balance op cl level (c # ep) =
     (let level = (if c = op then level + 1 else if c = cl then level - 1 else level)
      in if level = 0 then Some ([], ep)
         else case balance op cl level ep of None \<Rightarrow> None | Some (body, rest) \<Rightarrow> Some (c # body, rest))"

definition mac_name_char :: "char \<Rightarrow> bool" where
  "mac_name_char c \<longleftrightarrow> isalnum c \<or> c = CHR ''_''"

text \<open>The call of the action, with the buffer as its argument.\<close>

definition MAC_PARSE_ACTION :: "'c mac_action \<Rightarrow> mac_type \<Rightarrow> string \<Rightarrow> mac_status \<Rightarrow> 'c \<Rightarrow> (mac_status \<times> 'c) outcome" where
  "MAC_PARSE_ACTION action type buf status context =
     obind (action type buf context) (\<lambda>(st, context). Ret (status OR st, context))"

text \<open>
  The reference after a dollar sign: the text between parentheses or the longest name, with what follows.
  An error that was found before ends the scan at a parenthesis.
\<close>

definition mac_reference :: "mac_status \<Rightarrow> string \<Rightarrow> mac_status \<times> (string \<times> string) option" where
  "mac_reference status vp =
     (if vp \<noteq> [] \<and> (hd vp = CHR ''('' \<or> hd vp = CHR ''{'')
      then case balance (hd vp) (if hd vp = CHR ''('' then CHR '')'' else CHR ''}'') 1 (tl vp) of
             None \<Rightarrow> (status OR MAC_PARSE_ERROR, None)
           | Some r \<Rightarrow> (status, if status AND MAC_PARSE_ERROR \<noteq> 0 then None else Some r)
      else (status, Some (takeWhile mac_name_char vp, dropWhile mac_name_char vp)))"

lemma balance_split:
  assumes "balance op cl level s = Some (body, rest)" and "0 < level"
  shows "s = body @ cl # rest"
  using assms
  by (induction s arbitrary: level body) (auto simp: Let_def split: if_splits option.splits prod.splits)

lemma mac_reference_shrinks:
  "mac_reference status vp = (st, Some (name, rest)) \<Longrightarrow> length rest \<le> length vp"
  using balance_split [of _ _ 1 "tl vp"]
  by (cases vp) (auto simp: mac_reference_def length_dropWhile_le split: if_splits option.splits dest!: balance_split
      intro: le_trans [OF length_dropWhile_le])

function mac_parse_loop :: "'c mac_action \<Rightarrow> string \<Rightarrow> string \<Rightarrow> mac_status \<Rightarrow> 'c \<Rightarrow> (mac_status \<times> 'c) outcome" where
  "mac_parse_loop action [] buf status context =
     (if buf \<noteq> [] \<and> status AND MAC_PARSE_ERROR = 0
      then MAC_PARSE_ACTION action MAC_PARSE_LITERAL buf status context
      else Ret (status, context))"
| "mac_parse_loop action (ch # vp) buf status context =
     (if ch \<noteq> CHR ''$'' then mac_parse_loop action vp (buf @ [ch]) status context
      else if vp \<noteq> [] \<and> hd vp = CHR ''$'' then mac_parse_loop action (tl vp) (buf @ [ch]) status context
      else obind (if buf \<noteq> [] then MAC_PARSE_ACTION action MAC_PARSE_LITERAL buf status context else Ret (status, context))
        (\<lambda>(status, context). case mac_reference status vp of
             (status, None) \<Rightarrow> Ret (status, context)
           | (status, Some (name, rest)) \<Rightarrow>
               if name = [] then Ret (status OR MAC_PARSE_ERROR, context)
               else obind (MAC_PARSE_ACTION action MAC_PARSE_EXPR name status context)
                 (\<lambda>(status, context). mac_parse_loop action rest [] status context)))"
  by pat_completeness auto

termination
  by (relation "measure (\<lambda>(action, vp, buf, status, context). length vp)")
    (auto simp: less_Suc_eq_le dest!: mac_reference_shrinks [OF sym])

definition mac_parse :: "string \<Rightarrow> 'c mac_action \<Rightarrow> 'c \<Rightarrow> (mac_status \<times> 'c) outcome" where
  "mac_parse val action context = mac_parse_loop action val [] 0 context"

section \<open>Expansion\<close>

datatype mac_mode = MAC_EXP_MODE_TEST | MAC_EXP_MODE_USE

definition MAC_EXP_FLAG_NONE :: "32 word" where "MAC_EXP_FLAG_NONE = 0"
definition MAC_EXP_FLAG_RECURSE :: "32 word" where "MAC_EXP_FLAG_RECURSE = 1"
definition MAC_EXP_FLAG_APPEND :: "32 word" where "MAC_EXP_FLAG_APPEND = 2"
definition MAC_EXP_FLAG_SCAN :: "32 word" where "MAC_EXP_FLAG_SCAN = 4"
definition MAC_EXP_FLAG_PRINTABLE :: "32 word" where "MAC_EXP_FLAG_PRINTABLE = 8"

text \<open>
  \<^verbatim>\<open>MAC_EXP_CONTEXT\<close> in two records: what the caller of \<^verbatim>\<open>mac_expand()\<close> gives, and what changes. The look-up function
  may abort the process. The first record also has the global \<^verbatim>\<open>util_utf8_enable\<close> and whether \<^verbatim>\<open>errno\<close> has the
  value \<^verbatim>\<open>ERANGE\<close> from some earlier call.
\<close>

record mac_env =
  mc_flags :: "32 word"
  mc_filter :: "string option"
  mc_lookup :: "string \<Rightarrow> mac_mode \<Rightarrow> string option outcome"
  mc_utf8 :: bool
  mc_errno_erange :: bool

record mac_context =
  mc_result :: string
  mc_status :: mac_status
  mc_level :: int

abbreviation mac_flag :: "mac_env \<Rightarrow> 32 word \<Rightarrow> bool" where
  "mac_flag env flag \<equiv> mc_flags env AND flag \<noteq> 0"

abbreviation mac_failed :: "mac_context \<Rightarrow> bool" where
  "mac_failed mc \<equiv> mc_status mc AND MAC_PARSE_ERROR \<noteq> 0"

definition MAC_EXP_BVAL_TRUE :: string where "MAC_EXP_BVAL_TRUE = ''true''"
definition MAC_EXP_BVAL_FALSE :: string where "MAC_EXP_BVAL_FALSE = []"

datatype mac_op = MAC_EXP_OP_TOK_NONE | MAC_EXP_OP_TOK_EQ | MAC_EXP_OP_TOK_NE
  | MAC_EXP_OP_TOK_LT | MAC_EXP_OP_TOK_LE | MAC_EXP_OP_TOK_GE | MAC_EXP_OP_TOK_GT

definition mac_exp_op_table :: "(string \<times> mac_op) list" where
  "mac_exp_op_table =
     [(''=='', MAC_EXP_OP_TOK_EQ), (''!='', MAC_EXP_OP_TOK_NE), (''<'', MAC_EXP_OP_TOK_LT),
      (''<='', MAC_EXP_OP_TOK_LE), (''>='', MAC_EXP_OP_TOK_GE), (''>'', MAC_EXP_OP_TOK_GT)]"

definition mac_exp_space :: "char \<Rightarrow> bool" where
  "mac_exp_space c \<longleftrightarrow> c = CHR '' '' \<or> c = CHR 0x09 \<or> c = CHR 0x0D \<or> c = CHR 0x0A"

definition atol_or_die :: "mac_env \<Rightarrow> string \<Rightarrow> int outcome" where
  "atol_or_die env strval =
     (case strtol strval of (result, erange, remainder) \<Rightarrow>
        if strval = [] \<or> remainder \<noteq> [] \<or> erange \<or> mc_errno_erange env then Panic ''mac_exp_eval'' else Ret result)"

definition mac_exp_eval :: "mac_env \<Rightarrow> string \<Rightarrow> mac_op \<Rightarrow> string \<Rightarrow> bool outcome" where
  "mac_exp_eval env left tok_val rite =
     obind (if alldig left \<and> alldig rite
            then obind (atol_or_die env left) (\<lambda>l. obind (atol_or_die env rite) (\<lambda>r. Ret (l - r)))
            else Ret (strcmp left rite)) (\<lambda>delta.
       case tok_val of
         MAC_EXP_OP_TOK_EQ \<Rightarrow> Ret (delta = 0)
       | MAC_EXP_OP_TOK_NE \<Rightarrow> Ret (delta \<noteq> 0)
       | MAC_EXP_OP_TOK_LT \<Rightarrow> Ret (delta < 0)
       | MAC_EXP_OP_TOK_LE \<Rightarrow> Ret (delta \<le> 0)
       | MAC_EXP_OP_TOK_GE \<Rightarrow> Ret (delta \<ge> 0)
       | MAC_EXP_OP_TOK_GT \<Rightarrow> Ret (delta > 0)
       | MAC_EXP_OP_TOK_NONE \<Rightarrow> Panic ''mac_exp_eval'')"

definition mac_exp_parse_error :: "mac_context \<Rightarrow> mac_context" where
  "mac_exp_parse_error mc = mc\<lparr>mc_status := mc_status mc OR MAC_PARSE_ERROR\<rparr>"

text \<open>\<^verbatim>\<open>MAC_EXP_FIND_LEFT_CURLY\<close>: the text from the opening brace that follows optional white space.\<close>

definition MAC_EXP_FIND_LEFT_CURLY :: "string \<Rightarrow> string option" where
  "MAC_EXP_FIND_LEFT_CURLY cp =
     (let cp = dropWhile mac_exp_space cp in if cp \<noteq> [] \<and> hd cp = CHR ''{'' then Some cp else None)"

text \<open>The text between the brace at the start and its counterpart, and what follows after white space.\<close>

definition mac_exp_extract_curly_payload :: "string \<Rightarrow> (string \<times> string) option" where
  "mac_exp_extract_curly_payload bp =
     (case balance (CHR ''{'') (CHR ''}'') 1 (tl bp) of
        None \<Rightarrow> None | Some (payload, cp) \<Rightarrow> Some (payload, dropWhile mac_exp_space cp))"

text \<open>
  The operand of a conditional: text in braces, or all that is left. With unbalanced braces there is none.
\<close>

definition mac_exp_operand :: "string \<Rightarrow> (string \<times> string) option" where
  "mac_exp_operand cp =
     (case MAC_EXP_FIND_LEFT_CURLY cp of
        Some cp \<Rightarrow> mac_exp_extract_curly_payload cp
      | None \<Rightarrow> Some (cp, []))"

text \<open>Both recursive calls are arguments of the functions that are called between them.\<close>

type_synonym mac_expander = "string \<Rightarrow> string \<Rightarrow> (string \<times> mac_status) outcome"

text \<open>
  A relational expression gives the value it stands for and the text after it, or \<open>None\<close> when the caller has to return with an
  error in the status.
\<close>

definition mac_exp_parse_relational ::
    "mac_expander \<Rightarrow> mac_env \<Rightarrow> string \<Rightarrow> mac_context \<Rightarrow> ((string \<times> string) option \<times> mac_context) outcome" where
  "mac_exp_parse_relational expand env bp mc =
     (case mac_exp_extract_curly_payload bp of
        None \<Rightarrow> Ret (None, mac_exp_parse_error mc)
      | Some (left_op_strval, cp) \<Rightarrow>
          let op_char = (\<lambda>c. c \<in> set ''<>!=?+-*/~&|%'');
              op_tokval = name_code mac_exp_op_table MAC_EXP_OP_TOK_NONE NAME_CODE_FLAG_NONE (takeWhile op_char cp)
          in if op_tokval = MAC_EXP_OP_TOK_NONE then Ret (None, mac_exp_parse_error mc)
             else case MAC_EXP_FIND_LEFT_CURLY (dropWhile op_char cp) of
               None \<Rightarrow> Ret (None, mac_exp_parse_error mc)
             | Some cp \<Rightarrow>
                 (case mac_exp_extract_curly_payload cp of
                    None \<Rightarrow> Ret (None, mac_exp_parse_error mc)
                  | Some (rite_op_strval, cp) \<Rightarrow>
                      obind (expand [] left_op_strval) (\<lambda>(left, st1).
                      obind (expand [] rite_op_strval) (\<lambda>(rite, st2).
                      obind (mac_exp_eval env left op_tokval rite) (\<lambda>op_result.
                        let mc = mc\<lparr>mc_status := mc_status mc OR st1 OR st2\<rparr>
                        in if mac_failed mc then Ret (None, mc)
                           else Ret (Some (if op_result then MAC_EXP_BVAL_TRUE else MAC_EXP_BVAL_FALSE, cp), mc))))))"

text \<open>
  The name at the start of an expression: its characters up to the end of the text or up to a \<open>?\<close> or \<open>:\<close>
  operator, both after optional white space. The result is the name, the operator if there is one, and
  the text after it; \<open>None\<close> is a syntax error.
\<close>

fun mac_exp_name :: "string \<Rightarrow> (string \<times> char option \<times> string) option" where
  "mac_exp_name [] = Some ([], None, [])"
| "mac_exp_name (c # cp) =
     (case dropWhile mac_exp_space (c # cp) of
        [] \<Rightarrow> Some ([], None, [])
      | ch # rest \<Rightarrow>
          if ch = CHR ''?'' \<or> ch = CHR '':'' then Some ([], Some ch, rest)
          else if \<not> mac_name_char c then None
          else case mac_exp_name cp of None \<Rightarrow> None | Some (name, r) \<Rightarrow> Some (c # name, r))"

text \<open>What is known when the result of an expression is chosen: the operator, the value and the text after the operator.\<close>

type_synonym mac_selector = "char option \<times> string option \<times> string"

text \<open>The first half of the call-back function for an expression; \<open>None\<close> means to return the status.\<close>

definition mac_exp_subject :: "mac_expander \<Rightarrow> mac_env \<Rightarrow> string \<Rightarrow> mac_context \<Rightarrow> (mac_selector option \<times> mac_context) outcome" where
  "mac_exp_subject expand env cp mc =
     (case MAC_EXP_FIND_LEFT_CURLY cp of
        Some cp \<Rightarrow>
          obind (mac_exp_parse_relational expand env cp mc) (\<lambda>(r, mc).
            case r of
              None \<Rightarrow> Ret (None, mc)
            | Some (val, cp) \<Rightarrow>
                (case cp of
                   [] \<Rightarrow> Ret (Some (None, Some val, []), mc)
                 | ch # cp \<Rightarrow>
                     if ch \<noteq> CHR ''?'' \<and> ch \<noteq> CHR '':'' then Ret (None, mac_exp_parse_error mc)
                     else Ret (Some (Some ch, Some val, cp), mc)))
      | None \<Rightarrow>
          (case mac_exp_name (dropWhile mac_exp_space cp) of
             None \<Rightarrow> Ret (None, mac_exp_parse_error mc)
           | Some (name, ch, cp) \<Rightarrow>
               obind (mc_lookup env name (if ch = None then MAC_EXP_MODE_USE else MAC_EXP_MODE_TEST)) (\<lambda>val.
                 Ret (Some (ch, val, cp), mc))))"

text \<open>Parse more text with the same context.\<close>

definition mac_reparse :: "mac_context mac_action \<Rightarrow> string \<Rightarrow> mac_context \<Rightarrow> mac_context outcome" where
  "mac_reparse action val mc =
     obind (mac_parse val action mc) (\<lambda>(st, mc). Ret (mc\<lparr>mc_status := mc_status mc OR st\<rparr>))"

text \<open>Without recursion the value is appended, with unwanted characters replaced.\<close>

definition mac_exp_clean :: "mac_env \<Rightarrow> string \<Rightarrow> string" where
  "mac_exp_clean env val =
     (if mac_flag env MAC_EXP_FLAG_PRINTABLE then printable (mc_utf8 env) val (CHR ''_'')
      else case mc_filter env of
        None \<Rightarrow> val | Some allowed \<Rightarrow> map (\<lambda>c. if c \<in> set allowed then c else CHR ''_'') val)"

text \<open>The part of the \<^verbatim>\<open>switch\<close> for the colon operator, which the question mark operator continues with.\<close>

definition mac_exp_colon ::
    "mac_context mac_action \<Rightarrow> mac_env \<Rightarrow> string option \<Rightarrow> string \<Rightarrow> mac_context \<Rightarrow> (bool \<times> mac_context) outcome" where
  "mac_exp_colon action env val cp mc =
     (case mac_exp_operand cp of
        None \<Rightarrow> Ret (False, mac_exp_parse_error mc)
      | Some (res_iffalse, cp) \<Rightarrow>
          obind (if val = None \<or> val = Some [] \<or> mac_flag env MAC_EXP_FLAG_SCAN
                 then mac_reparse action res_iffalse mc else Ret mc) (\<lambda>mc.
            Ret (if cp \<noteq> [] then (False, mac_exp_parse_error mc) else (True, mc))))"

text \<open>The whole \<^verbatim>\<open>switch\<close>; the flag of the result tells whether the call-back function continues to its end.\<close>

definition mac_exp_select ::
    "mac_context mac_action \<Rightarrow> mac_env \<Rightarrow> mac_selector \<Rightarrow> mac_context \<Rightarrow> (bool \<times> mac_context) outcome" where
  "mac_exp_select action env sel mc =
     (case sel of
        (Some ch, val, cp) \<Rightarrow>
          if ch = CHR ''?'' then
            (case mac_exp_operand cp of
               None \<Rightarrow> Ret (False, mac_exp_parse_error mc)
             | Some (res_iftrue, cp) \<Rightarrow>
                 obind (if val \<noteq> None \<and> val \<noteq> Some [] \<or> mac_flag env MAC_EXP_FLAG_SCAN
                        then mac_reparse action res_iftrue mc else Ret mc) (\<lambda>mc.
                   case cp of
                     [] \<Rightarrow> Ret (True, mc)
                   | c # cp \<Rightarrow> if c \<noteq> CHR '':'' then Ret (False, mac_exp_parse_error mc)
                               else mac_exp_colon action env val cp mc))
          else if ch = CHR '':'' then mac_exp_colon action env val cp mc
          else Panic ''mac_expand_callback''
      | (None, None, cp) \<Rightarrow> Ret (True, mc\<lparr>mc_status := mc_status mc OR MAC_PARSE_UNDEF\<rparr>)
      | (None, Some val, cp) \<Rightarrow>
          if val = [] \<or> mac_flag env MAC_EXP_FLAG_SCAN then Ret (True, mc)
          else if mac_flag env MAC_EXP_FLAG_RECURSE then obind (mac_reparse action val mc) (\<lambda>mc. Ret (True, mc))
          else Ret (True, mc\<lparr>mc_result := mc_result mc @ mac_exp_clean env val\<rparr>))"

text \<open>\<^verbatim>\<open>mac_expand()\<close> with the action that it gives to \<^verbatim>\<open>mac_parse()\<close>.\<close>

definition mac_expand_with :: "mac_context mac_action \<Rightarrow> mac_env \<Rightarrow> mac_expander" where
  "mac_expand_with action env result pattern =
     (let mc = \<lparr>mc_result = (if mc_flags env AND (MAC_EXP_FLAG_APPEND OR MAC_EXP_FLAG_SCAN) = 0 then [] else result),
                mc_status = 0, mc_level = 0\<rparr>
      in obind (mac_parse pattern action mc) (\<lambda>(status, mc). Ret (mc_result mc, status)))"

primrec mac_expand_callback :: "nat \<Rightarrow> mac_env \<Rightarrow> mac_context mac_action" where
  "mac_expand_callback 0 env type buf mc = Diverge"
| "mac_expand_callback (Suc stack) env type buf mc =
     (let action = mac_expand_callback stack env;
          over = (mc_level mc > 100);
          mc = mc\<lparr>mc_level := mc_level mc + 1\<rparr>;
          mc = (if over then mac_exp_parse_error mc else mc)
      in if mac_failed mc then Ret (mc_status mc, mc)
         else obind (case type of
             MAC_PARSE_EXPR \<Rightarrow>
               obind (mac_exp_subject (mac_expand_with action env) env buf mc) (\<lambda>(sel, mc).
                 case sel of None \<Rightarrow> Ret (False, mc) | Some sel \<Rightarrow> mac_exp_select action env sel mc)
           | MAC_PARSE_LITERAL \<Rightarrow>
               Ret (True, if mac_flag env MAC_EXP_FLAG_SCAN then mc else mc\<lparr>mc_result := mc_result mc @ buf\<rparr>))
           (\<lambda>(finish, mc). let mc = (if finish then mc\<lparr>mc_level := mc_level mc - 1\<rparr> else mc)
                           in Ret (mc_status mc, mc)))"

definition mac_expand :: "nat \<Rightarrow> mac_env \<Rightarrow> mac_expander" where
  "mac_expand stack env = mac_expand_with (mac_expand_callback stack env) env"

section \<open>References to a dictionary\<close>

type_synonym conf_dict = "string \<rightharpoonup> string"

text \<open>
  The dictionaries with configuration parameters are tables in memory, for which a look-up has no errors.
  A dictionary that does not exist is an empty one.
\<close>

definition dict_eval_lookup :: "conf_dict \<Rightarrow> string \<Rightarrow> mac_mode \<Rightarrow> string option outcome" where
  "dict_eval_lookup dict key unused_type = Ret (dict key)"

text \<open>
  What the result depends on besides the arguments: the room on the stack, and the two global variables.
\<close>

record process =
  proc_stack :: nat
  proc_utf8 :: bool
  proc_errno_erange :: bool

definition dict_eval_env :: "process \<Rightarrow> conf_dict \<Rightarrow> bool \<Rightarrow> mac_env" where
  "dict_eval_env proc dict recursive =
     \<lparr>mc_flags = (if recursive then MAC_EXP_FLAG_RECURSE else MAC_EXP_FLAG_NONE), mc_filter = None,
      mc_lookup = dict_eval_lookup dict, mc_utf8 = proc_utf8 proc, mc_errno_erange = proc_errno_erange proc\<rparr>"

definition dict_eval :: "process \<Rightarrow> conf_dict \<Rightarrow> string \<Rightarrow> bool \<Rightarrow> string outcome" where
  "dict_eval proc dict val recursive =
     obind (mac_expand (proc_stack proc) (dict_eval_env proc dict recursive) [] val) (\<lambda>(buf, status).
       if status AND MAC_PARSE_ERROR \<noteq> 0 then Panic ''dict_eval'' else Ret buf)"

section \<open>Reasoning about the parser\<close>

lemma status_or [simp]:
  "(a OR b) AND MAC_PARSE_ERROR = 0 \<longleftrightarrow> a AND MAC_PARSE_ERROR = 0 \<and> b AND MAC_PARSE_ERROR = 0"
  by (simp add: MAC_PARSE_ERROR_def and_one_eq even_iff_mod_2_eq_zero [symmetric] even_or_iff)

lemma error_bit [simp]: "MAC_PARSE_ERROR AND MAC_PARSE_ERROR = MAC_PARSE_ERROR" "MAC_PARSE_ERROR \<noteq> 0"
  by (simp_all add: MAC_PARSE_ERROR_def)

lemma mac_reference_cases:
  assumes "mac_reference status vp = (st, Some (name, rest))"
  obtains op cl where "vp = op # name @ cl # rest" and "op = CHR ''('' \<or> op = CHR ''{''" and "st = status"
  | "vp = name @ rest" and "\<forall>c \<in> set name. mac_name_char c" and "st = status"
proof (cases "vp \<noteq> [] \<and> (hd vp = CHR ''('' \<or> hd vp = CHR ''{'')")
  case True
  then show ?thesis using assms that(1)
    by (cases vp) (auto simp: mac_reference_def split: option.splits if_splits dest!: balance_split)
next
  case False
  then have "name = takeWhile mac_name_char vp" "rest = dropWhile mac_name_char vp" "st = status"
    using assms by (auto simp: mac_reference_def)
  then show ?thesis using that(2) by (metis set_takeWhileD takeWhile_dropWhile_id)
qed

lemma mac_reference_rest: "mac_reference status vp = (st, Some (name, rest)) \<Longrightarrow> suffix rest vp"
  by (erule mac_reference_cases) (simp_all add: suffix_Cons suffix_append)

lemma mac_reference_name: "mac_reference status vp = (st, Some (name, rest)) \<Longrightarrow> sublist name vp"
  by (erule mac_reference_cases) (simp_all add: sublist_append sublist_Cons_right)

lemma mac_parse_loop_yields:
  assumes act: "\<And>type b c. I c \<Longrightarrow> b \<noteq> [] \<Longrightarrow> (case type of MAC_PARSE_LITERAL \<Rightarrow> set b \<subseteq> A | MAC_PARSE_EXPR \<Rightarrow> Q b) \<Longrightarrow>
      yields loop (action type b c) (\<lambda>r. I (snd r))"
    and R_suffix: "\<And>s t. R s \<Longrightarrow> suffix t s \<Longrightarrow> R t"
    and R_ref: "\<And>st vp st' name rest. R (CHR ''$'' # vp) \<Longrightarrow> mac_reference st vp = (st', Some (name, rest)) \<Longrightarrow> Q name"
    and "R s" and "set s \<subseteq> A" and "set buf \<subseteq> A" and "I c"
  shows "yields loop (mac_parse_loop action s buf status c) (\<lambda>r. I (snd r))"
  using assms(4-)
proof (induction s arbitrary: buf status c rule: length_induct)
  case (1 s)
  have lit: "yields loop (if buf \<noteq> [] then MAC_PARSE_ACTION action MAC_PARSE_LITERAL buf status c else Ret (status, c)) (\<lambda>r. I (snd r))"
    using 1 act [of c buf MAC_PARSE_LITERAL] by (auto simp: MAC_PARSE_ACTION_def split_beta)
  show ?case
  proof (cases s)
    case Nil
    then show ?thesis using lit 1 by (auto split: if_splits)
  next
    case (Cons ch vp)
    have IH: "yields loop (mac_parse_loop action t b st c) (\<lambda>r. I (snd r))"
      if "suffix t vp" "set b \<subseteq> A" "I c" for t b st c
    proof -
      have "length t < length s" using that(1) Cons by (simp add: suffix_length_le less_Suc_eq_le)
      moreover have "R t" using 1 that(1) Cons by (meson R_suffix suffix_ConsI)
      moreover have "set t \<subseteq> A" using that(1) 1 Cons set_mono_suffix by fastforce
      ultimately show ?thesis using 1 that by blast
    qed
    have ref: "yields loop (case mac_reference st vp of
             (status, None) \<Rightarrow> Ret (status, c)
           | (status, Some (name, rest)) \<Rightarrow>
               if name = [] then Ret (status OR MAC_PARSE_ERROR, c)
               else obind (MAC_PARSE_ACTION action MAC_PARSE_EXPR name status c)
                 (\<lambda>(status, c). mac_parse_loop action rest [] status c)) (\<lambda>r. I (snd r))"
      if "ch = CHR ''$''" "I c" for st c
    proof (cases "mac_reference st vp")
      case (Pair st' r)
      show ?thesis
      proof (cases "r = None \<or> fst (the r) = []")
        case True
        then show ?thesis using Pair that by (cases r) auto
      next
        case False
        then obtain name rest where r: "r = Some (name, rest)" "name \<noteq> []" by (cases r) auto
        have "Q name" using R_ref [of vp st st' name rest] 1 Cons that Pair r by simp
        then have "yields loop (action MAC_PARSE_EXPR name c) (\<lambda>r. I (snd r))" using act [of c name MAC_PARSE_EXPR] r that by simp
        then show ?thesis using IH [of rest "[]"] mac_reference_rest [of st vp st' name rest] Pair r
          by (auto simp: MAC_PARSE_ACTION_def split_beta elim!: yields_mono)
      qed
    qed
    show ?thesis
    proof (cases "ch = CHR ''$'' \<and> \<not> (vp \<noteq> [] \<and> hd vp = CHR ''$'')")
      case True
      then have ch: "ch = CHR ''$''" "(vp \<noteq> [] \<and> hd vp = CHR ''$'') = False" by auto
      have "yields loop (mac_parse_loop action (CHR ''$'' # vp) buf status c) (\<lambda>r. I (snd r))"
        unfolding mac_parse_loop.simps(2) ch(2)
        by (simp only: simp_thms if_True if_False) (rule yields_obindI [OF lit], use ref [OF ch(1)] in auto)
      then show ?thesis unfolding Cons ch(1) .
    next
      case False
      moreover have "suffix (tl vp) vp" by simp
      ultimately show ?thesis using IH [of vp "buf @ [ch]" c] IH [of "tl vp" "buf @ [ch]" c] 1 Cons by (auto simp: suffix_tl)
    qed
  qed
qed

lemma mac_parse_yields:
  assumes "\<And>type b c. I c \<Longrightarrow> b \<noteq> [] \<Longrightarrow> (case type of MAC_PARSE_LITERAL \<Rightarrow> set b \<subseteq> A | MAC_PARSE_EXPR \<Rightarrow> Q b) \<Longrightarrow>
      yields loop (action type b c) (\<lambda>r. I (snd r))"
    and "\<And>s t. R s \<Longrightarrow> suffix t s \<Longrightarrow> R t"
    and "\<And>st vp st' name rest. R (CHR ''$'' # vp) \<Longrightarrow> mac_reference st vp = (st', Some (name, rest)) \<Longrightarrow> Q name"
    and "R s" and "set s \<subseteq> A" and "I c"
  shows "yields loop (mac_parse s action c) (\<lambda>r. I (snd r))"
  unfolding mac_parse_def by (rule mac_parse_loop_yields [where A = A and Q = Q and R = R]) (use assms in auto)

lemma dropWhile_Cons_parts:
  assumes "dropWhile P cp = d # ds"
  shows "suffix (d # ds) cp" "suffix ds cp" "length ds < length cp"
proof -
  show *: "suffix (d # ds) cp" using suffix_dropWhile [of P cp] by (simp add: assms)
  then show "suffix ds cp" by (rule suffix_ConsD)
  show "length ds < length cp" using suffix_length_le [OF *] by simp
qed

lemma find_left_curly:
  assumes "MAC_EXP_FIND_LEFT_CURLY cp = Some r"
  obtains s where "r = CHR ''{'' # s" and "suffix r cp" and "suffix s cp" and "length s < length cp"
proof (cases "dropWhile mac_exp_space cp")
  case Nil
  then show ?thesis using assms by (simp add: MAC_EXP_FIND_LEFT_CURLY_def)
next
  case (Cons d ds)
  then have "r = d # ds" "d = CHR ''{''" using assms by (auto simp: MAC_EXP_FIND_LEFT_CURLY_def split: if_splits)
  then show ?thesis using that [of ds] dropWhile_Cons_parts [OF Cons] by simp
qed

lemma extract_payload:
  assumes "mac_exp_extract_curly_payload (c # s) = Some (payload, rest)"
  shows "prefix payload s \<and> suffix rest s \<and> length payload < length s \<and> length rest < length s"
proof -
  obtain t where t: "balance (CHR ''{'') (CHR ''}'') 1 s = Some (payload, t)" and r: "rest = dropWhile mac_exp_space t"
    using assms by (auto simp: mac_exp_extract_curly_payload_def split: option.splits)
  have s: "s = payload @ CHR ''}'' # t" using balance_split [OF t] by simp
  have "suffix rest t" by (simp add: r suffix_dropWhile)
  then show ?thesis using suffix_length_le [of rest t] by (auto simp: s suffix_append suffix_Cons)
qed

lemma operand_parts:
  assumes "mac_exp_operand cp = Some (res, rest)"
  shows "sublist res cp \<and> suffix rest cp"
proof (cases "MAC_EXP_FIND_LEFT_CURLY cp")
  case None
  then show ?thesis using assms by (simp add: mac_exp_operand_def)
next
  case (Some r)
  then obtain s where r: "r = CHR ''{'' # s" "suffix s cp" by (rule find_left_curly)
  then have "prefix res s \<and> suffix rest s"
    using assms Some extract_payload [of "CHR ''{''" s res rest] by (simp add: mac_exp_operand_def)
  then show ?thesis
    using sublist_order.order_trans [OF prefix_imp_sublist suffix_imp_sublist [OF r(2)]] suffix_order.order_trans [OF _ r(2)]
    by blast
qed

lemma name_parts:
  assumes "mac_exp_name cp = Some (name, ch, rest)"
  shows "suffix rest cp \<and> (case ch of None \<Rightarrow> rest = [] | Some c \<Rightarrow> length rest < length cp \<and> (c = CHR ''?'' \<or> c = CHR '':''))"
  using assms
proof (induction cp arbitrary: name)
  case (Cons c cp)
  note IH = Cons.IH and prems = Cons.prems
  show ?case
  proof (cases "dropWhile mac_exp_space (c # cp)")
    case Nil
    then show ?thesis using prems by auto
  next
    case (Cons d ds)
    note parts = dropWhile_Cons_parts(2,3) [OF Cons]
    show ?thesis
    proof (cases "d = CHR ''?'' \<or> d = CHR '':''")
      case True
      then show ?thesis using Cons prems parts by auto
    next
      case False
      then obtain name' where "mac_exp_name cp = Some (name', ch, rest)"
        using Cons prems by (auto split: if_splits option.splits)
      from IH [OF this] show ?thesis by (auto simp: suffix_Cons split: option.splits)
    qed
  qed
qed auto

text \<open>What the first half of the call-back function finds.\<close>

definition selector_ok :: "(string \<Rightarrow> bool) \<Rightarrow> string \<Rightarrow> mac_selector \<Rightarrow> bool" where
  "selector_ok V buf sel \<longleftrightarrow> (case sel of (ch, val, cp) \<Rightarrow>
     (\<forall>v. val = Some v \<longrightarrow> V v) \<and> suffix cp buf \<and> (case ch of None \<Rightarrow> True | Some c \<Rightarrow> length cp < length buf \<and> (c = CHR ''?'' \<or> c = CHR '':'')))"

definition settable :: "(mac_context \<Rightarrow> bool) \<Rightarrow> bool" where
  "settable J \<longleftrightarrow> (\<forall>mc st. J mc \<longrightarrow> J (mc\<lparr>mc_status := mc_status mc OR st\<rparr>))"

lemma settable_error: "settable J \<Longrightarrow> J mc \<Longrightarrow> J (mac_exp_parse_error mc)"
  by (simp add: settable_def mac_exp_parse_error_def)

lemma parse_error_fails [simp]: "mc_status (mac_exp_parse_error mc) AND MAC_PARSE_ERROR \<noteq> 0"
  by (simp add: mac_exp_parse_error_def)

lemma name_value_yields: "yields loop (atol_or_die env s) (\<lambda>_. True)" "yields loop (mac_exp_eval env l tok r) (\<lambda>_. True)"
proof -
  show *: "yields loop (atol_or_die env s) (\<lambda>_. True)" for s by (simp add: atol_or_die_def split: prod.splits)
  show "yields loop (mac_exp_eval env l tok r) (\<lambda>_. True)"
    by (cases "alldig l \<and> alldig r"; cases tok) (auto simp: mac_exp_eval_def intro!: yields_mono [OF *])
qed

lemma relational_yields:
  assumes "settable J" and "J mc"
    and ex: "\<And>t. sublist t bp \<Longrightarrow> length t < length bp \<Longrightarrow> yields loop (expand [] t) (\<lambda>_. True)"
  shows "yields loop (mac_exp_parse_relational expand env (CHR ''{'' # bp) mc) (\<lambda>r. J (snd r)
    \<and> (case fst r of None \<Rightarrow> mac_failed (snd r) | Some (val, cp) \<Rightarrow>
      (val = MAC_EXP_BVAL_TRUE \<or> val = MAC_EXP_BVAL_FALSE) \<and> suffix cp bp \<and> length cp < length bp))"
proof (cases "mac_exp_extract_curly_payload (CHR ''{'' # bp)")
  case None
  then show ?thesis using settable_error [OF assms(1,2)] by (simp add: mac_exp_parse_relational_def)
next
  case (Some r)
  obtain left cp where r: "r = (left, cp)" by (cases r)
  note left = extract_payload [OF Some [unfolded r]]
  let ?op = "\<lambda>c. c \<in> set ''<>!=?+-*/~&|%''"
  show ?thesis
  proof (cases "MAC_EXP_FIND_LEFT_CURLY (dropWhile ?op cp)")
    case None
    then show ?thesis using Some r settable_error [OF assms(1,2)]
      by (simp add: mac_exp_parse_relational_def Let_def del: set_simps)
  next
    case (Some cp')
    then obtain s where s: "cp' = CHR ''{'' # s" "suffix s (dropWhile ?op cp)" by (rule find_left_curly)
    have "suffix s cp" by (rule suffix_order.order_trans [OF s(2) suffix_dropWhile])
    then have s_bp: "suffix s bp" "length s < length bp"
      using left suffix_order.order_trans [of s cp bp] suffix_length_le [of s cp] by auto
    show ?thesis
    proof (cases "mac_exp_extract_curly_payload cp'")
      case None
      then show ?thesis using Some \<open>_ = Some r\<close> r settable_error [OF assms(1,2)]
        by (simp add: mac_exp_parse_relational_def Let_def del: set_simps)
    next
      case (Some r2)
      obtain rite cp2 where r2: "r2 = (rite, cp2)" by (cases r2)
      note rite = extract_payload [OF Some [unfolded r2 s(1)]]
      have ex1: "yields loop (expand [] left) (\<lambda>_. True)" using left by (intro ex) auto
      have ex2: "yields loop (expand [] rite) (\<lambda>_. True)"
        using rite s_bp by (intro ex) (auto intro: sublist_order.order_trans [OF prefix_imp_sublist suffix_imp_sublist])
      have cp2: "suffix cp2 bp" "length cp2 < length bp"
        using rite s_bp suffix_order.order_trans [of cp2 s bp] by auto
      have J: "J (mc\<lparr>mc_status := mc_status mc OR a OR b\<rparr>)" for a b
        using assms(1,2) by (simp add: settable_def or.assoc)
      show ?thesis
        using Some r2 \<open>MAC_EXP_FIND_LEFT_CURLY _ = _\<close> \<open>_ = Some r\<close> r settable_error [OF assms(1,2)] cp2 J
        by (auto simp: mac_exp_parse_relational_def Let_def simp del: set_simps
            intro!: yields_mono [OF ex1] yields_mono [OF ex2] yields_mono [OF name_value_yields(2)])
    qed
  qed
qed

lemma subject_yields:
  assumes "settable J" and "J mc" and lk: "\<And>name mode. yields loop (mc_lookup env name mode) (\<lambda>val. \<forall>v. val = Some v \<longrightarrow> V v)"
    and V: "V MAC_EXP_BVAL_TRUE" "V MAC_EXP_BVAL_FALSE"
    and ex: "\<And>t. MAC_EXP_FIND_LEFT_CURLY buf \<noteq> None \<Longrightarrow> sublist t buf \<Longrightarrow> length t < length buf \<Longrightarrow> yields loop (expand [] t) (\<lambda>_. True)"
  shows "yields loop (mac_exp_subject expand env buf mc) (\<lambda>r. J (snd r)
    \<and> (case fst r of None \<Rightarrow> mac_failed (snd r) | Some sel \<Rightarrow> selector_ok V buf sel))"
proof (cases "MAC_EXP_FIND_LEFT_CURLY buf")
  case None
  show ?thesis
  proof (cases "mac_exp_name (dropWhile mac_exp_space buf)")
    case None
    with \<open>MAC_EXP_FIND_LEFT_CURLY buf = None\<close> show ?thesis using settable_error [OF assms(1,2)] by (simp add: mac_exp_subject_def)
  next
    case (Some r)
    obtain name ch cp where r: "r = (name, ch, cp)" by (cases r)
    have "suffix cp buf" "length (dropWhile mac_exp_space buf) \<le> length buf"
      using name_parts [OF Some [unfolded r]] suffix_order.order_trans [OF _ suffix_dropWhile] by (auto simp: length_dropWhile_le)
    with \<open>MAC_EXP_FIND_LEFT_CURLY buf = None\<close> show ?thesis using Some name_parts [OF Some [unfolded r]] assms(2)
      by (auto simp: r mac_exp_subject_def selector_ok_def split: option.splits intro!: yields_mono [OF lk])
  qed
next
  case (Some cp)
  then obtain s where s: "cp = CHR ''{'' # s" "suffix s buf" "length s < length buf" by (rule find_left_curly)
  have e: "yields loop (expand [] t) (\<lambda>_. True)" if "sublist t s" "length t < length s" for t
    using that s(2,3) sublist_order.order_trans [OF that(1) suffix_imp_sublist] Some by (intro ex) auto
  have "yields loop (mac_exp_parse_relational expand env cp mc) (\<lambda>r. J (snd r)
    \<and> (case fst r of None \<Rightarrow> mac_failed (snd r) | Some (val, cp) \<Rightarrow>
      (val = MAC_EXP_BVAL_TRUE \<or> val = MAC_EXP_BVAL_FALSE) \<and> suffix cp s \<and> length cp < length s))"
    unfolding s(1) by (rule relational_yields) (use assms(1,2) e in auto)
  then show ?thesis unfolding mac_exp_subject_def Some option.case
  proof (rule yields_obindI, goal_cases)
    case (1 x)
    obtain rr mc' where x: "x = (rr, mc')" by (cases x)
    show ?case
    proof (cases rr)
      case None
      then show ?thesis using 1 x by simp
    next
      case (Some vc)
      obtain val cp2 where vc: "vc = (val, cp2)" by (cases vc)
      have cp2: "suffix cp2 buf" "length cp2 < length buf"
        using 1 x Some vc s suffix_order.order_trans [of cp2 s buf] by auto
      then show ?thesis using 1 x Some vc settable_error [OF assms(1), of mc'] V
        by (cases cp2) (auto simp: selector_ok_def dest: suffix_ConsD)
    qed
  qed
qed

lemma reparse_yields:
  assumes "settable J" and "yields loop (mac_parse t action mc) (\<lambda>r. J (snd r))"
  shows "yields loop (mac_reparse action t mc) J"
  unfolding mac_reparse_def using assms(1) by (intro yields_obindI [OF assms(2)]) (auto simp: settable_def)

lemma colon_yields:
  assumes "settable J" and "J mc" and re: "\<And>t mc. sublist t cp \<Longrightarrow> J mc \<Longrightarrow> yields loop (mac_parse t action mc) (\<lambda>r. J (snd r))"
  shows "yields loop (mac_exp_colon action env val cp mc) (\<lambda>r. J (snd r) \<and> (\<not> fst r \<longrightarrow> mac_failed (snd r)))"
proof (cases "mac_exp_operand cp")
  case None
  then show ?thesis using settable_error [OF assms(1,2)] by (simp add: mac_exp_colon_def)
next
  case (Some r)
  obtain res cp2 where r: "r = (res, cp2)" by (cases r)
  have "yields loop (mac_reparse action res mc) J"
    using operand_parts [OF Some [unfolded r]] by (intro reparse_yields assms re) auto
  then show ?thesis using Some r assms(2) settable_error [OF assms(1)]
    by (auto simp: mac_exp_colon_def elim!: yields_mono)
qed

lemma select_yields:
  assumes "settable J" and "J mc" and "selector_ok V buf (ch, val, cp)"
    and re: "\<And>t mc. ch \<noteq> None \<Longrightarrow> sublist t cp \<Longrightarrow> J mc \<Longrightarrow> yields loop (mac_parse t action mc) (\<lambda>r. J (snd r))"
    and rec: "\<And>v. ch = None \<Longrightarrow> val = Some v \<Longrightarrow> V v \<Longrightarrow> \<not> mac_flag env MAC_EXP_FLAG_SCAN \<Longrightarrow> mac_flag env MAC_EXP_FLAG_RECURSE \<Longrightarrow> yields loop (mac_parse v action mc) (\<lambda>r. J (snd r))"
    and app: "\<And>v. \<not> mac_flag env MAC_EXP_FLAG_SCAN \<Longrightarrow> \<not> mac_flag env MAC_EXP_FLAG_RECURSE \<Longrightarrow>
        J (mc\<lparr>mc_result := mc_result mc @ mac_exp_clean env v\<rparr>)"
  shows "yields loop (mac_exp_select action env (ch, val, cp) mc) (\<lambda>r. J (snd r) \<and> (\<not> fst r \<longrightarrow> mac_failed (snd r)))"
proof (cases ch)
  case None
  have "yields loop (mac_reparse action v mc) J" if "val = Some v" "\<not> mac_flag env MAC_EXP_FLAG_SCAN" "mac_flag env MAC_EXP_FLAG_RECURSE" for v
    using None that assms(3) by (intro reparse_yields assms rec) (auto simp: selector_ok_def)
  then have "yields loop (obind (mac_reparse action v mc) (\<lambda>mc. Ret (True, mc))) (\<lambda>r. J (snd r) \<and> (\<not> fst r \<longrightarrow> mac_failed (snd r)))"
    if "val = Some v" "\<not> mac_flag env MAC_EXP_FLAG_SCAN" "mac_flag env MAC_EXP_FLAG_RECURSE" for v
    using that by simp
  then show ?thesis using None assms(1,2) app
    by (cases val) (simp_all add: mac_exp_select_def settable_def)
next
  case (Some c)
  note re = re [unfolded Some, simplified]
  consider "c = CHR '':''" | "c = CHR ''?''" "mac_exp_operand cp = None"
    | res cp2 where "c = CHR ''?''" "mac_exp_operand cp = Some (res, cp2)"
    using assms(3) Some by (cases "mac_exp_operand cp") (auto simp: selector_ok_def)
  then show ?thesis
  proof cases
    case 1
    then show ?thesis using Some colon_yields [OF assms(1,2) re] by (simp add: mac_exp_select_def)
  next
    case 2
    then show ?thesis using Some settable_error [OF assms(1,2)] by (simp add: mac_exp_select_def)
  next
    case 3
    note parts = operand_parts [OF 3(2)]
    have 1: "yields loop (if val \<noteq> None \<and> val \<noteq> Some [] \<or> mac_flag env MAC_EXP_FLAG_SCAN then mac_reparse action res mc else Ret mc) J"
      using parts assms(2) reparse_yields [OF assms(1) re [of res mc]] by simp
    have 2: "yields loop (mac_exp_colon action env val cp3 mc') (\<lambda>r. J (snd r) \<and> (\<not> fst r \<longrightarrow> mac_failed (snd r)))"
      if "J mc'" "cp2 = d # cp3" for mc' d cp3
    proof (rule colon_yields [OF assms(1) that(1)])
      fix t mc assume "sublist t cp3" "J mc"
      moreover have "suffix cp3 cp" using parts that(2) by (auto dest: suffix_ConsD)
      ultimately show "yields loop (mac_parse t action mc) (\<lambda>r. J (snd r))"
        by (intro re) (auto intro: sublist_order.order_trans [OF _ suffix_imp_sublist])
    qed
    have "yields loop (case cp2 of [] \<Rightarrow> Ret (True, mc')
                   | c # cp \<Rightarrow> if c \<noteq> CHR '':'' then Ret (False, mac_exp_parse_error mc')
                               else mac_exp_colon action env val cp mc')
          (\<lambda>r. J (snd r) \<and> (\<not> fst r \<longrightarrow> mac_failed (snd r)))" if "J mc'" for mc'
      using that 2 [OF that] settable_error [OF assms(1) that] by (cases cp2) auto
    from yields_obindI [OF 1 this] show ?thesis using 3 Some unfolding mac_exp_select_def by simp
  qed
qed

text \<open>
  One call of the call-back function: \<open>J\<close> is kept between the check of the nesting level and the end
  of the function, given that the expansion of the parts of the expression keeps it.
\<close>

lemma callback_yields:
  assumes J: "settable J" and "\<not> mac_failed mc" and "mc_level mc \<le> 100" and Jmc: "J (mc\<lparr>mc_level := mc_level mc + 1\<rparr>)"
    and lk: "\<And>name mode. yields loop (mc_lookup env name mode) (\<lambda>val. \<forall>v. val = Some v \<longrightarrow> V v)"
    and V: "V MAC_EXP_BVAL_TRUE" "V MAC_EXP_BVAL_FALSE"
    and ex: "\<And>t. MAC_EXP_FIND_LEFT_CURLY buf \<noteq> None \<Longrightarrow> sublist t buf \<Longrightarrow> length t < length buf \<Longrightarrow>
        yields loop (mac_expand_with (mac_expand_callback stack env) env [] t) (\<lambda>_. True)"
    and re: "\<And>t mc. sublist t buf \<Longrightarrow> length t < length buf \<Longrightarrow> J mc \<Longrightarrow>
        yields loop (mac_parse t (mac_expand_callback stack env) mc) (\<lambda>r. J (snd r))"
    and rec: "\<And>v mc. \<not> mac_flag env MAC_EXP_FLAG_SCAN \<Longrightarrow> mac_flag env MAC_EXP_FLAG_RECURSE \<Longrightarrow> V v \<Longrightarrow> J mc \<Longrightarrow>
        yields loop (mac_parse v (mac_expand_callback stack env) mc) (\<lambda>r. J (snd r))"
    and app: "\<And>v mc. \<not> mac_flag env MAC_EXP_FLAG_SCAN \<Longrightarrow> \<not> mac_flag env MAC_EXP_FLAG_RECURSE \<Longrightarrow> J mc \<Longrightarrow>
        J (mc\<lparr>mc_result := mc_result mc @ mac_exp_clean env v\<rparr>)"
  shows "yields loop (mac_expand_callback (Suc stack) env MAC_PARSE_EXPR buf mc) (\<lambda>r.
    (J (snd r) \<and> mac_failed (snd r)) \<or> (\<exists>mc'. J mc' \<and> snd r = mc'\<lparr>mc_level := mc_level mc' - 1\<rparr>))"
proof -
  let ?mc = "mc\<lparr>mc_level := mc_level mc + 1\<rparr>"
  let ?action = "mac_expand_callback stack env"
  have fin: "yields loop (obind (mac_exp_subject (mac_expand_with ?action env) env buf ?mc) (\<lambda>(sel, mc).
       case sel of None \<Rightarrow> Ret (False, mc) | Some sel \<Rightarrow> mac_exp_select ?action env sel mc))
       (\<lambda>r. J (snd r) \<and> (\<not> fst r \<longrightarrow> mac_failed (snd r)))"
  proof (rule yields_obindI)
    show "yields loop (mac_exp_subject (mac_expand_with ?action env) env buf ?mc)
       (\<lambda>r. J (snd r) \<and> (case fst r of None \<Rightarrow> mac_failed (snd r) | Some sel \<Rightarrow> selector_ok V buf sel))"
      by (rule subject_yields) (use J Jmc lk V ex in auto)
  next
    fix x assume x: "J (snd x) \<and> (case fst x of None \<Rightarrow> mac_failed (snd x) | Some sel \<Rightarrow> selector_ok V buf sel)"
    obtain r mc' where xp: "x = (r, mc')" by (cases x)
    show "yields loop (case x of (sel, mc) \<Rightarrow> case sel of None \<Rightarrow> Ret (False, mc) | Some sel \<Rightarrow> mac_exp_select ?action env sel mc)
       (\<lambda>r. J (snd r) \<and> (\<not> fst r \<longrightarrow> mac_failed (snd r)))"
    proof (cases r)
      case None
      then show ?thesis using x xp by simp
    next
      case (Some sel)
      obtain ch val cp where sel: "sel = (ch, val, cp)" by (cases sel)
      have ok: "selector_ok V buf (ch, val, cp)" "J mc'" using x xp Some sel by auto
      have "yields loop (mac_exp_select ?action env (ch, val, cp) mc') (\<lambda>r. J (snd r) \<and> (\<not> fst r \<longrightarrow> mac_failed (snd r)))"
      proof (rule select_yields [OF J ok(2,1)])
        fix t mc assume t: "ch \<noteq> None" "sublist t cp" "J mc"
        moreover have "suffix cp buf" "length cp < length buf" using ok t(1) by (auto simp: selector_ok_def split: option.splits)
        ultimately show "yields loop (mac_parse t ?action mc) (\<lambda>r. J (snd r))"
          using sublist_length_le [of t cp] by (intro re) (auto intro: sublist_order.order_trans [OF _ suffix_imp_sublist])
      qed (use ok app rec in auto)
      then show ?thesis using xp Some sel by simp
    qed
  qed
  have "mac_expand_callback (Suc stack) env MAC_PARSE_EXPR buf mc =
      obind (obind (mac_exp_subject (mac_expand_with ?action env) env buf ?mc) (\<lambda>(sel, mc).
       case sel of None \<Rightarrow> Ret (False, mc) | Some sel \<Rightarrow> mac_exp_select ?action env sel mc))
       (\<lambda>(finish, mc). let mc = (if finish then mc\<lparr>mc_level := mc_level mc - 1\<rparr> else mc) in Ret (mc_status mc, mc))"
    using assms(2,3) by (simp add: Let_def)
  then show ?thesis by (simp only:) (rule yields_obindI [OF fin], auto simp: Let_def split: prod.splits)
qed

lemma callback_at_once:
  "mac_failed mc \<or> mc_level mc > 100 \<Longrightarrow> \<exists>mc'. mac_expand_callback (Suc stack) env type buf mc = Ret (mc_status mc', mc')
     \<and> mac_failed mc' \<and> mc_result mc' = mc_result mc"
  by (auto simp: Let_def mac_exp_parse_error_def)

lemma callback_literal:
  "\<not> mac_failed mc \<Longrightarrow> mc_level mc \<le> 100 \<Longrightarrow> mac_expand_callback (Suc stack) env MAC_PARSE_LITERAL buf mc =
     Ret (mc_status mc, if mac_flag env MAC_EXP_FLAG_SCAN then mc else mc\<lparr>mc_result := mc_result mc @ buf\<rparr>)"
  by (simp add: Let_def)

section \<open>When the expansion ends\<close>

text \<open>Texts without a relational expression, also within other expressions.\<close>

definition starts_curly :: "string \<Rightarrow> bool" where
  "starts_curly s \<longleftrightarrow> MAC_EXP_FIND_LEFT_CURLY s \<noteq> None"

fun rel_free :: "string \<Rightarrow> bool" where
  "rel_free [] \<longleftrightarrow> True"
| "rel_free (c # s) \<longleftrightarrow> \<not> (c = CHR ''$'' \<and> s \<noteq> [] \<and> (hd s = CHR ''('' \<or> hd s = CHR ''{'') \<and> starts_curly (tl s)) \<and> rel_free s"

lemma starts_curly_append: "starts_curly s \<Longrightarrow> starts_curly (s @ t)"
  by (induction s) (auto simp: starts_curly_def MAC_EXP_FIND_LEFT_CURLY_def split: if_splits)

lemma rel_free_append: "rel_free (s @ t) \<Longrightarrow> rel_free s \<and> rel_free t"
proof (induction s)
  case (Cons c s)
  then show ?case using starts_curly_append [of "tl s" t] by (cases s) auto
qed simp

lemma rel_free_sublist: "rel_free s \<Longrightarrow> sublist t s \<Longrightarrow> rel_free t"
  by (auto simp: sublist_def dest: rel_free_append)

lemma name_not_curly: "\<forall>c \<in> set name. mac_name_char c \<Longrightarrow> \<not> starts_curly name"
  by (cases name) (auto simp: starts_curly_def MAC_EXP_FIND_LEFT_CURLY_def mac_exp_space_def mac_name_char_def ctype_defs)

lemma rel_free_reference:
  assumes "rel_free (CHR ''$'' # vp)" and "mac_reference st vp = (st', Some (name, rest))"
  shows "\<not> starts_curly name \<and> rel_free name"
  using assms(2)
proof (cases rule: mac_reference_cases)
  case (1 op cl)
  then have "\<not> starts_curly (name @ cl # rest)" "rel_free (name @ cl # rest)" using assms(1) by auto
  then show ?thesis using starts_curly_append [of name] rel_free_append [of name] by blast
next
  case 2
  then show ?thesis using assms(1) name_not_curly rel_free_append [of name rest] by auto
qed


lemmas mac_run_defs = dict_eval_lookup_def mac_exp_subject_def MAC_EXP_FIND_LEFT_CURLY_def mac_exp_space_def
    mac_name_char_def ctype_defs mac_exp_select_def mac_reparse_def mac_parse_def Let_def MAC_PARSE_ACTION_def mac_reference_def
    MAC_EXP_FLAG_RECURSE_def MAC_EXP_FLAG_SCAN_def MAC_EXP_FLAG_APPEND_def mac_exp_parse_relational_def
    mac_exp_extract_curly_payload_def mac_expand_with_def mac_exp_op_table_def tolower_def NAME_CODE_FLAG_NONE_def

lemma parse_rel_free:
  assumes "\<And>type b c. I c \<Longrightarrow> type = MAC_PARSE_EXPR \<longrightarrow> \<not> starts_curly b \<and> rel_free b \<Longrightarrow> yields loop (action type b c) (\<lambda>r. I (snd r))"
    and "rel_free t" and "I mc"
  shows "yields loop (mac_parse t action mc) (\<lambda>r. I (snd r))"
proof (rule mac_parse_yields [where A = UNIV and Q = "\<lambda>b. \<not> starts_curly b \<and> rel_free b" and R = rel_free])
  fix type b c assume "I c" "case type of MAC_PARSE_LITERAL \<Rightarrow> set b \<subseteq> UNIV | MAC_PARSE_EXPR \<Rightarrow> \<not> starts_curly b \<and> rel_free b"
  then show "yields loop (action type b c) (\<lambda>r. I (snd r))" by (intro assms(1)) auto
next
  fix st vp st' name rest
  assume "rel_free (CHR ''$'' # vp)" "mac_reference st vp = (st', Some (name, rest))"
  then show "\<not> starts_curly name \<and> rel_free name" by (rule rel_free_reference)
qed (use assms(2,3) rel_free_sublist suffix_imp_sublist in auto)

lemma callback_ends_rel_free:
  assumes lk: "\<And>name mode. yields False (mc_lookup env name mode) (\<lambda>val. \<forall>v. val = Some v \<longrightarrow> rel_free v)"
  shows "0 < stack \<Longrightarrow> mac_failed mc \<or> (mc_level mc = L \<and> 102 \<le> int stack + L) \<Longrightarrow>
    type = MAC_PARSE_EXPR \<longrightarrow> \<not> starts_curly buf \<and> rel_free buf \<Longrightarrow>
    yields False (mac_expand_callback stack env type buf mc) (\<lambda>r. mac_failed (snd r) \<or> mc_level (snd r) = L)"
proof (induction stack arbitrary: type buf mc L)
  case (Suc stack)
  show ?case
  proof (cases "mac_failed mc \<or> mc_level mc > 100")
    case True
    then show ?thesis using callback_at_once [OF True, of stack env type buf] by fastforce
  next
    case False
    then have L: "mc_level mc = L" "102 \<le> int (Suc stack) + L" "0 < stack" using Suc.prems by auto
    let ?J = "\<lambda>mc. mac_failed mc \<or> mc_level mc = L + 1"
    have J: "settable ?J" by (simp add: settable_def)
    have parse: "yields False (mac_parse t (mac_expand_callback stack env) mc) (\<lambda>r. ?J (snd r))"
      if "rel_free t" "?J mc" for t mc
      using Suc.IH [of _ "L + 1"] L that by (intro parse_rel_free) auto
    show ?thesis
    proof (cases type)
      case MAC_PARSE_LITERAL
      then show ?thesis using False L by (simp add: callback_literal del: mac_expand_callback.simps)
    next
      case MAC_PARSE_EXPR
      have buf: "\<not> starts_curly buf" "rel_free buf" using Suc.prems MAC_PARSE_EXPR by auto
      have "yields False (mac_expand_callback (Suc stack) env MAC_PARSE_EXPR buf mc) (\<lambda>r.
          (?J (snd r) \<and> mac_failed (snd r)) \<or> (\<exists>mc'. ?J mc' \<and> snd r = mc'\<lparr>mc_level := mc_level mc' - 1\<rparr>))"
      proof (rule callback_yields [where V = rel_free, OF J])
        fix t mc assume "sublist t buf" "?J mc"
        then show "yields False (mac_parse t (mac_expand_callback stack env) mc) (\<lambda>r. ?J (snd r))"
          using buf(2) by (blast intro: parse rel_free_sublist)
      qed (use False L lk buf parse in \<open>auto simp: starts_curly_def MAC_EXP_BVAL_TRUE_def MAC_EXP_BVAL_FALSE_def\<close>)
      then show ?thesis unfolding MAC_PARSE_EXPR by (rule yields_mono) auto
    qed
  qed
qed simp

lemma mac_expand_with_yields:
  assumes "\<And>mc. mc_status mc = 0 \<Longrightarrow> mc_level mc = 0 \<Longrightarrow>
      (mc_result mc = [] \<and> mc_flags env AND (MAC_EXP_FLAG_APPEND OR MAC_EXP_FLAG_SCAN) = 0 \<or>
       mc_result mc = result \<and> mc_flags env AND (MAC_EXP_FLAG_APPEND OR MAC_EXP_FLAG_SCAN) \<noteq> 0) \<Longrightarrow>
      yields loop (mac_parse pattern action mc) (\<lambda>r. P (mc_result (snd r)))"
  shows "yields loop (mac_expand_with action env result pattern) (\<lambda>r. P (fst r))"
  unfolding mac_expand_with_def Let_def by (rule yields_obindI [OF assms]) auto

lemma parse_ends_short:
  assumes "\<And>type (b :: string) mc. 0 < k \<Longrightarrow> type = MAC_PARSE_EXPR \<longrightarrow> length b < k \<Longrightarrow> yields False (action type b mc) (\<lambda>_. True)"
    and "length t \<le> k"
  shows "yields False (mac_parse t action mc) (\<lambda>_. True)"
proof (cases "t = []")
  case True
  then show ?thesis by (simp add: mac_parse_def)
next
  case False
  show ?thesis
  proof (rule mac_parse_yields [where A = UNIV and Q = "\<lambda>b. length b < k" and R = "\<lambda>s. length s \<le> k" and I = "\<lambda>_. True"])
    fix type c and b :: string assume "case type of MAC_PARSE_LITERAL \<Rightarrow> set b \<subseteq> UNIV | MAC_PARSE_EXPR \<Rightarrow> length b < k"
    then show "yields False (action type b c) (\<lambda>r. True)"
      using assms(1) [of type b c] assms(2) False by (cases type) auto
  next
    fix st vp st' name rest
    assume "length (CHR ''$'' # vp) \<le> k" "mac_reference st vp = (st', Some (name, rest))"
    then show "length name < k" using mac_reference_name sublist_length_le by fastforce
  qed (use assms(2) suffix_length_le order_trans in blast)+
qed

lemma callback_ends_plain:
  assumes lk: "\<And>name mode. mc_lookup env name mode \<noteq> Diverge" and nr: "\<not> mac_flag env MAC_EXP_FLAG_RECURSE"
  shows "0 < stack \<Longrightarrow> type = MAC_PARSE_EXPR \<longrightarrow> length buf < stack \<Longrightarrow>
    yields False (mac_expand_callback stack env type buf mc) (\<lambda>r. True)"
proof (induction stack arbitrary: type buf mc)
  case (Suc stack)
  have parse: "yields False (mac_parse t (mac_expand_callback stack env) mc) (\<lambda>_. True)" if "length t \<le> stack" for t mc
    using Suc.IH that by (rule parse_ends_short)
  show ?case
  proof (cases "mac_failed mc \<or> mc_level mc > 100")
    case True
    then show ?thesis using callback_at_once [OF True, of stack env type buf] by fastforce
  next
    case False
    show ?thesis
    proof (cases type)
      case MAC_PARSE_LITERAL
      then show ?thesis using False by (simp add: callback_literal del: mac_expand_callback.simps)
    next
      case MAC_PARSE_EXPR
      have "yields False (mac_expand_callback (Suc stack) env MAC_PARSE_EXPR buf mc) (\<lambda>r.
          (True \<and> mac_failed (snd r)) \<or> (\<exists>mc'. True \<and> snd r = mc'\<lparr>mc_level := mc_level mc' - 1\<rparr>))"
      proof (rule callback_yields [where V = "\<lambda>_. True" and J = "\<lambda>_. True"])
        fix t :: string assume "length t < length buf"
        then show "yields False (mac_expand_with (mac_expand_callback stack env) env [] t) (\<lambda>_. True)"
          using Suc.prems MAC_PARSE_EXPR by (intro mac_expand_with_yields parse) auto
      qed (use False lk nr parse Suc.prems MAC_PARSE_EXPR in \<open>auto simp: settable_def yields_False_iff\<close>)
      then show ?thesis unfolding MAC_PARSE_EXPR by (rule yields_mono) auto
    qed
  qed
qed simp

text \<open>
  C36: the expansion ends, with a result or with a report and an abort, when the room on the stack
  suffices for the nesting limit and neither the text nor any looked up value has a relational expression, or, whatever
  expressions there are, when looked up values are not expanded again and the room suffices for the length of the text.
\<close>

theorem mac_expand_ends:
  assumes "(\<forall>name mode. yields False (mc_lookup env name mode) (\<lambda>val. \<forall>v. val = Some v \<longrightarrow> rel_free v))
      \<and> rel_free pattern \<and> 102 \<le> stack
    \<or> (\<forall>name mode. mc_lookup env name mode \<noteq> Diverge) \<and> \<not> mac_flag env MAC_EXP_FLAG_RECURSE \<and> length pattern \<le> stack"
  shows "mac_expand stack env result pattern \<noteq> Diverge"
  using assms
proof
  assume a: "(\<forall>name mode. yields False (mc_lookup env name mode) (\<lambda>val. \<forall>v. val = Some v \<longrightarrow> rel_free v))
      \<and> rel_free pattern \<and> 102 \<le> stack"
  have q: "yields False (mac_parse pattern (mac_expand_callback stack env) mc) (\<lambda>r. mac_failed (snd r) \<or> mc_level (snd r) = 0)"
    if "mc_level mc = 0" for mc
  proof (rule parse_rel_free)
    fix type b c
    assume "mac_failed c \<or> mc_level c = 0" "type = MAC_PARSE_EXPR \<longrightarrow> \<not> starts_curly b \<and> rel_free b"
    then show "yields False (mac_expand_callback stack env type b c) (\<lambda>r. mac_failed (snd r) \<or> mc_level (snd r) = 0)"
      using a by (intro callback_ends_rel_free) auto
  qed (use a that in auto)
  have p: "yields False (mac_parse pattern (mac_expand_callback stack env) mc) (\<lambda>_. True)" if "mc_level mc = 0" for mc
    by (rule yields_mono [OF q [OF that]]) simp
  then have "yields False (mac_expand stack env result pattern) (\<lambda>_. True)"
    unfolding mac_expand_def by (intro mac_expand_with_yields p)
  then show ?thesis by (simp add: yields_False_iff)
next
  assume a: "(\<forall>name mode. mc_lookup env name mode \<noteq> Diverge) \<and> \<not> mac_flag env MAC_EXP_FLAG_RECURSE \<and> length pattern \<le> stack"
  then have "yields False (mac_parse pattern (mac_expand_callback stack env) mc) (\<lambda>_. True)" for mc
    by (intro parse_ends_short [where k = stack] callback_ends_plain) auto
  then have "yields False (mac_expand stack env result pattern) (\<lambda>_. True)"
    unfolding mac_expand_def by (intro mac_expand_with_yields) auto
  then show ?thesis by (simp add: yields_False_iff)
qed


theorem mac_expand_ends_witness:
  "mac_expand 102 (dict_eval_env \<lparr>proc_stack = 102, proc_utf8 = False, proc_errno_erange = False\<rparr>
     [''myhostname'' \<mapsto> ''mail.$mydomain'', ''mydomain'' \<mapsto> ''$myhostname''] True) [] ''${myhostname?{$myhostname}:{none}}'' \<noteq> Diverge"
  by (rule mac_expand_ends) (simp add: dict_eval_env_def dict_eval_lookup_def starts_curly_def MAC_EXP_FIND_LEFT_CURLY_def mac_exp_space_def)

section \<open>What ends up in the result\<close>

lemma yields_True [simp]: "yields True m (\<lambda>_. True)"
  by (cases m) auto

lemma parse_chars:
  assumes "\<And>type b c. J c \<Longrightarrow> set b \<subseteq> A \<Longrightarrow> yields loop (action type b c) (\<lambda>r. J (snd r))" and "set t \<subseteq> A" and "J mc"
  shows "yields loop (mac_parse t action mc) (\<lambda>r. J (snd r))"
proof (rule mac_parse_yields [where A = A and Q = "\<lambda>b. set b \<subseteq> A" and R = "\<lambda>s. set s \<subseteq> A"])
  fix st vp st' name rest
  assume "set (CHR ''$'' # vp) \<subseteq> A" "mac_reference st vp = (st', Some (name, rest))"
  then show "set name \<subseteq> A" using mac_reference_name [THEN set_mono_sublist] by fastforce
qed (use assms in \<open>auto split: mac_type.splits dest: set_mono_suffix\<close>)

lemma callback_keeps:
  assumes J: "settable J" and lev: "\<And>mc l. J mc \<Longrightarrow> J (mc\<lparr>mc_level := l\<rparr>)"
    and nr: "\<not> mac_flag env MAC_EXP_FLAG_SCAN \<Longrightarrow> \<not> mac_flag env MAC_EXP_FLAG_RECURSE"
    and lit: "\<And>mc b. \<not> mac_flag env MAC_EXP_FLAG_SCAN \<Longrightarrow> set b \<subseteq> A \<Longrightarrow> J mc \<Longrightarrow> J (mc\<lparr>mc_result := mc_result mc @ b\<rparr>)"
    and clean: "\<And>v. \<not> mac_flag env MAC_EXP_FLAG_SCAN \<Longrightarrow> set (mac_exp_clean env v) \<subseteq> A"
  shows "J mc \<Longrightarrow> set buf \<subseteq> A \<Longrightarrow> yields True (mac_expand_callback stack env type buf mc) (\<lambda>r. J (snd r))"
proof (induction stack arbitrary: type buf mc)
  case (Suc stack)
  have parse: "yields True (mac_parse t (mac_expand_callback stack env) mc) (\<lambda>r. J (snd r))"
    if t: "sublist t buf" "J mc" for t mc
    using Suc.IH t set_mono_sublist [OF t(1)] Suc.prems by (intro parse_chars [where A = A]) auto
  show ?case
  proof (cases "mac_failed mc \<or> mc_level mc > 100")
    case True
    then show ?thesis using lev [OF Suc.prems(1)] settable_error [OF J] by (auto simp: Let_def)
  next
    case False
    show ?thesis
    proof (cases type)
      case MAC_PARSE_LITERAL
      then show ?thesis using False Suc.prems lit by (simp add: callback_literal del: mac_expand_callback.simps)
    next
      case MAC_PARSE_EXPR
      have "yields True (mac_expand_callback (Suc stack) env MAC_PARSE_EXPR buf mc) (\<lambda>r.
          (J (snd r) \<and> mac_failed (snd r)) \<or> (\<exists>mc'. J mc' \<and> snd r = mc'\<lparr>mc_level := mc_level mc' - 1\<rparr>))"
        by (rule callback_yields [where V = "\<lambda>_. True", OF J])
          (use False Suc.prems parse lev nr lit clean in auto)
      then show ?thesis unfolding MAC_PARSE_EXPR using lev by (auto elim!: yields_mono)
    qed
  qed
qed simp

text \<open>
  C38: with a character filter and without recursion, an expansion only has characters of the text
  that is expanded and characters that the filter allows, besides underscores and the text that the result had before.
\<close>

theorem mac_expand_filtered:
  assumes "mc_filter env = Some allowed" and "\<not> mac_flag env MAC_EXP_FLAG_RECURSE" and "\<not> mac_flag env MAC_EXP_FLAG_PRINTABLE"
    and "mac_expand stack env result pattern = Ret (out, status)"
  shows "set out \<subseteq> set result \<union> set pattern \<union> set allowed \<union> {CHR ''_''}"
proof -
  let ?A = "set result \<union> set pattern \<union> set allowed \<union> {CHR ''_''}"
  let ?J = "\<lambda>mc. set (mc_result mc) \<subseteq> ?A"
  have cb: "yields True (mac_expand_callback stack env type b mc) (\<lambda>r. ?J (snd r))" if "?J mc" "set b \<subseteq> ?A" for type b mc
    by (rule callback_keeps [where A = ?A]) (use that assms(1-3) in \<open>auto simp: settable_def mac_exp_clean_def\<close>)
  have "yields True (mac_parse pattern (mac_expand_callback stack env) mc) (\<lambda>r. ?J (snd r))" if "?J mc" for mc
    using that cb by (intro parse_chars [where A = ?A]) auto
  then have "yields True (mac_expand stack env result pattern) (\<lambda>r. set (fst r) \<subseteq> ?A)"
    unfolding mac_expand_def by (intro mac_expand_with_yields) auto
  then show ?thesis using assms(4) by simp
qed

theorem mac_expand_filtered_witness:
  "set ''<a_b>'' \<subseteq> set ''<$n>'' \<union> set ''ab'' \<union> {CHR ''_''}"
  using mac_expand_filtered [of "\<lparr>mc_flags = MAC_EXP_FLAG_NONE, mc_filter = Some ''ab'', mc_lookup = dict_eval_lookup [''n'' \<mapsto> ''a;b''],
      mc_utf8 = False, mc_errno_erange = False\<rparr>" "''ab''" 5 "[]" "''<$n>''" "''<a_b>''" 0]
  by (simp add: mac_expand_def mac_run_defs MAC_EXP_FLAG_NONE_def MAC_EXP_FLAG_PRINTABLE_def mac_exp_clean_def numeral_eq_Suc)

text \<open>With the scan flag nothing is written to the result.\<close>

lemma mac_expand_scan:
  assumes "mac_flag env MAC_EXP_FLAG_SCAN" and "mac_expand stack env result pattern = Ret (out, status)"
  shows "out = result"
proof -
  let ?J = "\<lambda>mc. mc_result mc = result"
  have cb: "yields True (mac_expand_callback stack env type b mc) (\<lambda>r. ?J (snd r))" if "?J mc" for type b mc
    by (rule callback_keeps [where A = UNIV]) (use that assms(1) in \<open>auto simp: settable_def\<close>)
  have p: "yields True (mac_parse pattern (mac_expand_callback stack env) mc) (\<lambda>r. ?J (snd r))" if "?J mc" for mc
    using that cb by (intro parse_chars [where A = UNIV]) auto
  have "mc_flags env AND (MAC_EXP_FLAG_APPEND OR MAC_EXP_FLAG_SCAN) \<noteq> 0"
    using assms(1) by (simp add: bit.conj_disj_distrib or_eq_0_iff)
  then have "yields True (mac_expand stack env result pattern) (\<lambda>r. fst r = result)"
    unfolding mac_expand_def by (intro mac_expand_with_yields p) auto
  then show ?thesis using assms(2) by simp
qed

section \<open>Literal text\<close>

definition dollar_quote :: "string \<Rightarrow> string" where
  "dollar_quote s = concat (map (\<lambda>c. if c = CHR ''$'' then ''$$'' else [c]) s)"

lemma parse_quoted: "mac_parse_loop action (dollar_quote s @ rest) buf status c = mac_parse_loop action rest (buf @ s) status c"
  by (induction s arbitrary: buf) (auto simp: dollar_quote_def)

lemma dollar_quote_id: "CHR ''$'' \<notin> set s \<Longrightarrow> dollar_quote s = s"
  by (induction s) (auto simp: dollar_quote_def)

lemma expand_quoted:
  assumes "0 < stack" and "\<not> mac_flag env MAC_EXP_FLAG_SCAN" and "\<not> mac_flag env MAC_EXP_FLAG_APPEND"
  shows "mac_expand stack env result (dollar_quote s) = Ret (s, MAC_PARSE_OK)"
proof -
  obtain k where k: "stack = Suc k" using assms(1) by (cases stack) auto
  have "mc_flags env AND (MAC_EXP_FLAG_APPEND OR MAC_EXP_FLAG_SCAN) = 0"
    using assms by (simp add: bit.conj_disj_distrib or_eq_0_iff)
  then show "mac_expand stack env result (dollar_quote s) = Ret (s, MAC_PARSE_OK)"
    using assms
    by (simp add: parse_quoted [of _ s "[]", simplified] mac_expand_def mac_expand_with_def Let_def k mac_parse_def MAC_PARSE_ACTION_def
        callback_literal MAC_PARSE_OK_def del: mac_expand_callback.simps)
qed

text \<open>What the users of dictionaries rely on: text without dollar signs is left alone.\<close>

lemma dict_eval_plain:
  assumes "0 < proc_stack proc" and "CHR ''$'' \<notin> set s"
  shows "dict_eval proc dict s recursive = Ret s"
  using expand_quoted [of "proc_stack proc" "dict_eval_env proc dict recursive" "[]" s] assms
  by (simp add: dollar_quote_id dict_eval_def dict_eval_env_def MAC_EXP_FLAG_RECURSE_def MAC_EXP_FLAG_NONE_def
      MAC_EXP_FLAG_SCAN_def MAC_EXP_FLAG_APPEND_def MAC_PARSE_OK_def)

definition demo_process :: process where
  "demo_process = \<lparr>proc_stack = 200, proc_utf8 = False, proc_errno_erange = False\<rparr>"

text \<open>
  Every text can be the result of an expansion: with its dollar signs doubled it expands to
  itself, without an error.
\<close>

theorem mac_expand_quoted:
  assumes "0 < stack" and "\<not> mac_flag env MAC_EXP_FLAG_SCAN" and "\<not> mac_flag env MAC_EXP_FLAG_APPEND"
  shows "mac_expand stack env result (dollar_quote s) = Ret (s, MAC_PARSE_OK)"
  using assms by (rule expand_quoted)

theorem mac_expand_quoted_witness:
  "mac_expand 1 (dict_eval_env demo_process Map.empty True) [] (dollar_quote ''$5 off'') = Ret (''$5 off'', MAC_PARSE_OK)
     \<and> dollar_quote ''$5 off'' = ''$$5 off''"
  using mac_expand_quoted [of 1 "dict_eval_env demo_process Map.empty True" "[]" "''$5 off''"]
  by (simp add: dict_eval_env_def MAC_EXP_FLAG_RECURSE_def MAC_EXP_FLAG_SCAN_def MAC_EXP_FLAG_APPEND_def dollar_quote_def)

section \<open>A recursion without end\<close>

definition looping_dict :: conf_dict where
  "looping_dict = [''a'' \<mapsto> ''${{$a} == {x} ? {y}}'']"

lemma loop_step:
  assumes "mc_lookup env = dict_eval_lookup looping_dict" and "mc_flags env = MAC_EXP_FLAG_RECURSE"
    and "mac_expand_callback stack env MAC_PARSE_EXPR ''a'' \<lparr>mc_result = [], mc_status = 0, mc_level = 0\<rparr> = Diverge"
  shows "mac_expand_callback (Suc (Suc stack)) env MAC_PARSE_EXPR ''a'' \<lparr>mc_result = [], mc_status = 0, mc_level = 0\<rparr> = Diverge"
  using assms by (simp add: looping_dict_def mac_run_defs)

lemma loop_forever:
  assumes "mc_lookup env = dict_eval_lookup looping_dict" and "mc_flags env = MAC_EXP_FLAG_RECURSE"
  shows "mac_expand_callback stack env MAC_PARSE_EXPR ''a'' \<lparr>mc_result = [], mc_status = 0, mc_level = 0\<rparr> = Diverge"
proof (induction stack rule: nat_less_induct)
  case (1 stack)
  consider "stack = 0" | "stack = 1" | k where "stack = Suc (Suc k)" by (metis One_nat_def not0_implies_Suc)
  then show ?case
  proof cases
    case 2
    then show ?thesis using assms by (simp add: looping_dict_def mac_run_defs)
  next
    case 3
    then have "k < stack" by simp
    note loop_step [OF assms 1 [rule_format, OF this]]
    then show ?thesis unfolding 3 .
  qed simp
qed

text \<open>
  C37: the limit on the nesting of macro calls does not make the expansion end: an operand of a
  relational expression is expanded with a nesting level of its own, so that a parameter that
  refers to itself within a relational expression uses up any stack. (Without the relational expression, a
  parameter that refers to itself is reported as an error.)
\<close>

theorem dict_eval_unbounded:
  "dict_eval proc looping_dict ''$a'' True = Diverge"
proof -
  have "mac_expand_callback (proc_stack proc) (dict_eval_env proc looping_dict True) MAC_PARSE_EXPR ''a''
      \<lparr>mc_result = [], mc_status = 0, mc_level = 0\<rparr> = Diverge"
    by (rule loop_forever) (simp_all add: dict_eval_env_def)
  moreover have "mc_flags (dict_eval_env proc looping_dict True) = 1" by (simp add: dict_eval_env_def MAC_EXP_FLAG_RECURSE_def)
  ultimately show ?thesis by (simp add: dict_eval_def mac_expand_def mac_run_defs)
qed

section \<open>Conditional expressions\<close>

text \<open>The nesting depth of braces after a text, \<open>None\<close> when a brace is closed that was not opened.\<close>

fun brace_depth :: "nat \<Rightarrow> string \<Rightarrow> nat option" where
  "brace_depth d [] = Some d"
| "brace_depth d (c # s) =
     (if c = CHR ''{'' then brace_depth (Suc d) s
      else if c = CHR ''}'' then (case d of 0 \<Rightarrow> None | Suc d \<Rightarrow> brace_depth d s)
      else brace_depth d s)"

definition braces_ok :: "string \<Rightarrow> bool" where
  "braces_ok s \<longleftrightarrow> brace_depth 0 s = Some 0"

lemma brace_depth_append: "brace_depth d (s @ t) = (case brace_depth d s of None \<Rightarrow> None | Some e \<Rightarrow> brace_depth e t)"
  by (induction d s rule: brace_depth.induct) (auto split: nat.splits)

lemma brace_depth_quote [simp]: "brace_depth d (dollar_quote s) = brace_depth d s"
  by (induction d s rule: brace_depth.induct) (auto simp: dollar_quote_def split: nat.splits)

lemma balance_depth:
  "brace_depth d s = Some e \<Longrightarrow> balance (CHR ''{'') (CHR ''}'') (Suc d) (s @ rest) =
     map_option (\<lambda>(b, r). (s @ b, r)) (balance (CHR ''{'') (CHR ''}'') (Suc e) rest)"
  by (induction d s rule: brace_depth.induct) (auto simp: Let_def map_option_case split: if_splits nat.splits option.splits)

lemma brace_depth_Suc: "brace_depth d s = Some e \<Longrightarrow> brace_depth (Suc d) s = Some (Suc e)"
  by (induction d s rule: brace_depth.induct) (auto split: if_splits nat.splits)

lemma brace_depth_name: "\<forall>c \<in> set name. mac_name_char c \<Longrightarrow> brace_depth d name = Some d"
  by (induction name) (auto simp: mac_name_char_def ctype_defs)

lemma name_not_space: "mac_name_char c \<Longrightarrow> \<not> mac_exp_space c \<and> c \<noteq> CHR ''?'' \<and> c \<noteq> CHR '':'' \<and> c \<noteq> CHR ''{''"
  by (auto simp: mac_name_char_def mac_exp_space_def ctype_defs)

lemma exp_name:
  assumes "\<forall>c \<in> set name. mac_name_char c"
  shows "mac_exp_name (name @ CHR ''?'' # rest) = Some (name, Some (CHR ''?''), rest)"
  using assms
proof (induction name)
  case Nil
  then show ?case by (simp add: mac_exp_space_def)
next
  case (Cons c name)
  then show ?case using name_not_space [of c] by simp
qed

lemma exp_name_skip:
  assumes "\<forall>c \<in> set name. mac_name_char c"
  shows "dropWhile mac_exp_space (name @ CHR ''?'' # rest) = name @ CHR ''?'' # rest"
    and "MAC_EXP_FIND_LEFT_CURLY (name @ CHR ''?'' # rest) = None"
  using assms name_not_space [of "hd name"]
  by (cases name; simp add: MAC_EXP_FIND_LEFT_CURLY_def mac_exp_space_def)+

lemma payload_braced: "braces_ok s \<Longrightarrow> mac_exp_extract_curly_payload (CHR ''{'' # s @ CHR ''}'' # rest) = Some (s, dropWhile mac_exp_space rest)"
  using balance_depth [of 0 s 0 "CHR ''}'' # rest"] by (simp add: braces_ok_def mac_exp_extract_curly_payload_def)

lemma operand_braced: "braces_ok s \<Longrightarrow> mac_exp_operand (CHR ''{'' # s @ CHR ''}'' # rest) = Some (s, dropWhile mac_exp_space rest)"
  by (simp add: mac_exp_operand_def MAC_EXP_FIND_LEFT_CURLY_def mac_exp_space_def payload_braced)

lemma reparse_quoted:
  assumes "\<not> mac_failed mc" and "mc_level mc \<le> 100" and "\<not> mac_flag env MAC_EXP_FLAG_SCAN"
  shows "mac_reparse (mac_expand_callback (Suc k) env) (dollar_quote s) mc = Ret (mc\<lparr>mc_result := mc_result mc @ s\<rparr>)"
  using assms by (cases "s = []") (auto simp: dollar_quote_def [of "[]"] mac_reparse_def mac_parse_def parse_quoted [of _ s "[]", simplified] MAC_PARSE_ACTION_def
      callback_literal simp del: mac_expand_callback.simps)

text \<open>
  C39: a conditional expression with two operands in braces stands for the second one when the named
  attribute is undefined or empty, and for the first one otherwise; the operands may be any text with balanced
  braces, in which dollar signs are doubled.
\<close>

theorem mac_expand_conditional:
  assumes "\<forall>c \<in> set name. mac_name_char c" and "braces_ok iftrue" and "braces_ok iffalse"
    and "mc_lookup env name MAC_EXP_MODE_TEST = Ret val" and "2 \<le> stack"
    and "\<not> mac_flag env MAC_EXP_FLAG_SCAN" and "\<not> mac_flag env MAC_EXP_FLAG_APPEND"
  shows "mac_expand stack env result (''${'' @ name @ ''?{'' @ dollar_quote iftrue @ ''}:{'' @ dollar_quote iffalse @ ''}}'')
    = Ret (if val = None \<or> val = Some [] then iffalse else iftrue, MAC_PARSE_OK)"
proof -
  obtain k where k: "stack = Suc (Suc k)" using assms(5) by (metis Suc_le_D numeral_2_eq_2 Suc_le_mono)
  let ?q = "dollar_quote"
  let ?expr = "name @ ''?{'' @ ?q iftrue @ ''}:{'' @ ?q iffalse @ ''}''"
  have q: "braces_ok (?q iftrue)" "braces_ok (?q iffalse)" using assms(2,3) by (simp_all add: braces_ok_def)
  have "brace_depth 0 ?expr = Some 0"
    using assms(1-3) by (simp add: brace_depth_append brace_depth_name braces_ok_def brace_depth_Suc)
  then have ref: "mac_reference 0 (CHR ''{'' # ?expr @ ''}'') = (0, Some (?expr, []))"
    using balance_depth [of 0 ?expr 0 "''}''"] by (simp add: mac_reference_def del: append_assoc)
  let ?mc = "\<lparr>mc_result = [], mc_status = 0, mc_level = 0\<rparr>"
  have "mac_expand_callback (Suc (Suc k)) env MAC_PARSE_EXPR ?expr ?mc
     = Ret (0, ?mc\<lparr>mc_result := (if val = None \<or> val = Some [] then iffalse else iftrue)\<rparr>)"
    using assms(4,6) k q exp_name [OF assms(1)] exp_name_skip [OF assms(1)] operand_braced reparse_quoted [of _ env k]
    by (simp add: mac_exp_subject_def mac_exp_select_def mac_exp_colon_def Let_def mac_exp_space_def) blast
  then show ?thesis using ref assms(6,7) by (simp add: mac_expand_def mac_expand_with_def bit.conj_disj_distrib k mac_parse_def MAC_PARSE_ACTION_def MAC_PARSE_OK_def del: mac_expand_callback.simps)
qed

theorem mac_expand_conditional_witness:
  "mac_expand 2 (dict_eval_env demo_process [''relayhost'' \<mapsto> ''mx''] True) []
     (''${'' @ ''relayhost'' @ ''?{'' @ dollar_quote ''via {x}'' @ ''}:{'' @ dollar_quote ''direct'' @ ''}}'') = Ret (''via {x}'', MAC_PARSE_OK)"
  using mac_expand_conditional [of "''relayhost''" "''via {x}''" "''direct''" "dict_eval_env demo_process [''relayhost'' \<mapsto> ''mx''] True"
      "Some ''mx''" 2 "[]"]
  by (simp add: mac_name_char_def ctype_defs braces_ok_def dict_eval_env_def dict_eval_lookup_def
      MAC_EXP_FLAG_RECURSE_def MAC_EXP_FLAG_SCAN_def MAC_EXP_FLAG_APPEND_def)

section \<open>Relational operators\<close>

fun op_holds :: "mac_op \<Rightarrow> int \<Rightarrow> bool" where
  "op_holds MAC_EXP_OP_TOK_EQ d \<longleftrightarrow> d = 0"
| "op_holds MAC_EXP_OP_TOK_NE d \<longleftrightarrow> d \<noteq> 0"
| "op_holds MAC_EXP_OP_TOK_LT d \<longleftrightarrow> d < 0"
| "op_holds MAC_EXP_OP_TOK_LE d \<longleftrightarrow> d \<le> 0"
| "op_holds MAC_EXP_OP_TOK_GE d \<longleftrightarrow> d \<ge> 0"
| "op_holds MAC_EXP_OP_TOK_GT d \<longleftrightarrow> d > 0"
| "op_holds MAC_EXP_OP_TOK_NONE d \<longleftrightarrow> False"

lemma strtol_digits:
  assumes "alldig s" and "int (digits_val s) \<le> LONG_MAX"
  shows "strtol s = (int (digits_val s), False, [])"
proof -
  obtain c r where s: "s = c # r" "isdigit c" using assms(1) by (cases s) (auto simp: alldig_def)
  then show ?thesis using assms not_space_digit [OF s(2)]
    by (simp add: strtol_def alldig_def clamp_long_def LONG_MIN_def Let_def takeWhile_eq_all_conv [THEN iffD2] dropWhile_eq_Nil_conv [THEN iffD2])
qed

lemma mac_exp_eval_digits:
  assumes "alldig left" "alldig rite" "int (digits_val left) \<le> LONG_MAX" "int (digits_val rite) \<le> LONG_MAX" "tok \<noteq> MAC_EXP_OP_TOK_NONE"
  shows "mac_exp_eval env left tok rite = (if mc_errno_erange env then Panic ''mac_exp_eval''
    else Ret (op_holds tok (int (digits_val left) - int (digits_val rite))))"
  using assms strtol_digits [of left] strtol_digits [of rite]
  by (cases tok) (auto simp: mac_exp_eval_def atol_or_die_def alldig_def)

end
