(* ===== verification/Mail_Conf.thy ===== *)
theory Mail_Conf
  imports Mac_Expand
begin

text \<open>
  Configuration parameters: \<^verbatim>\<open>src/src/global/mail_conf_int.c\<close>, \<^verbatim>\<open>mail_conf_time.c\<close>,
  \<^verbatim>\<open>mail_conf_str.c\<close>, \<^verbatim>\<open>mail_conf_bool.c\<close> and \<^verbatim>\<open>conv_time.c\<close>, over the
  dictionary operations of \<^verbatim>\<open>mail_conf.c\<close>. A parameter that is not set gets its default
  value stored as text, so that later references see it. The argument \<open>proc\<close> has what macro
  expansion depends on besides the dictionary.
\<close>

section \<open>The dictionary\<close>

definition mail_conf_eval :: "process \<Rightarrow> string \<Rightarrow> conf_dict \<Rightarrow> string outcome" where
  "mail_conf_eval proc str d = dict_eval proc d str True"

definition mail_conf_eval_once :: "process \<Rightarrow> string \<Rightarrow> conf_dict \<Rightarrow> string outcome" where
  "mail_conf_eval_once proc str d = dict_eval proc d str False"

definition mail_conf_lookup :: "string \<Rightarrow> conf_dict \<Rightarrow> string option" where
  "mail_conf_lookup name d = d name"

definition mail_conf_lookup_eval :: "process \<Rightarrow> string \<Rightarrow> conf_dict \<Rightarrow> string option outcome" where
  "mail_conf_lookup_eval proc name d =
     (case d name of None \<Rightarrow> Ret None | Some value \<Rightarrow> obind (dict_eval proc d value True) (\<lambda>value. Ret (Some value)))"

definition mail_conf_update :: "string \<Rightarrow> string \<Rightarrow> conf_dict \<Rightarrow> conf_dict" where
  "mail_conf_update key value d = d(key \<mapsto> value)"

section \<open>Integer parameters\<close>

text \<open>The text of an integer parameter is one decimal number that fits in an \<^verbatim>\<open>int\<close>.\<close>

definition parse_conf_int :: "string \<Rightarrow> int option" where
  "parse_conf_int strval =
     (case strtol strval of (longval, erange, end) \<Rightarrow>
        if strval = [] \<or> end \<noteq> [] \<or> erange \<or> longval \<noteq> to_int longval then None else Some (to_int longval))"

definition convert_mail_conf_int :: "process \<Rightarrow> string \<Rightarrow> conf_dict \<Rightarrow> int option outcome" where
  "convert_mail_conf_int proc name d =
     obind (mail_conf_lookup_eval proc name d) (\<lambda>r. case r of
        None \<Rightarrow> Ret None
      | Some strval \<Rightarrow> (case parse_conf_int strval of
                          None \<Rightarrow> Panic ''convert_mail_conf_int'' | Some v \<Rightarrow> Ret (Some v)))"

definition check_mail_conf_int :: "int \<Rightarrow> int \<Rightarrow> int \<Rightarrow> unit outcome" where
  "check_mail_conf_int intval lo hi =
     (if lo \<noteq> 0 \<and> intval < lo then Panic ''check_mail_conf_int''
      else if hi \<noteq> 0 \<and> intval > hi then Panic ''check_mail_conf_int'' else Ret ())"

definition set_mail_conf_int :: "string \<Rightarrow> int \<Rightarrow> conf_dict \<Rightarrow> conf_dict" where
  "set_mail_conf_int name value d = mail_conf_update name (sprintf_d value) d"

definition get_mail_conf_int :: "process \<Rightarrow> string \<Rightarrow> int \<Rightarrow> int \<Rightarrow> int \<Rightarrow> conf_dict \<Rightarrow> (int \<times> conf_dict) outcome" where
  "get_mail_conf_int proc name defval lo hi d =
     obind (convert_mail_conf_int proc name d) (\<lambda>r.
       let (intval, d) = (case r of None \<Rightarrow> (defval, set_mail_conf_int name defval d) | Some v \<Rightarrow> (v, d))
       in obind (check_mail_conf_int intval lo hi) (\<lambda>_. Ret (intval, d)))"

definition get_mail_conf_int2 :: "process \<Rightarrow> string \<Rightarrow> string \<Rightarrow> int \<Rightarrow> int \<Rightarrow> int \<Rightarrow> conf_dict \<Rightarrow> (int \<times> conf_dict) outcome" where
  "get_mail_conf_int2 proc name1 name2 defval lo hi d = get_mail_conf_int proc (name1 @ name2) defval lo hi d"

fun get_mail_conf_int_table :: "process \<Rightarrow> (string \<times> int \<times> int \<times> int) list \<Rightarrow> conf_dict \<Rightarrow> (int list \<times> conf_dict) outcome" where
  "get_mail_conf_int_table proc [] d = Ret ([], d)"
| "get_mail_conf_int_table proc ((name, defval, lo, hi) # table) d =
     obind (get_mail_conf_int proc name defval lo hi d) (\<lambda>(v, d).
     obind (get_mail_conf_int_table proc table d) (\<lambda>(vs, d). Ret (v # vs, d)))"

section \<open>Time parameters\<close>

definition MINUTE :: int where "MINUTE = 60"
definition HOUR :: int where "HOUR = 60 * MINUTE"
definition DAY :: int where "DAY = 24 * HOUR"
definition WEEK :: int where "WEEK = 7 * DAY"

definition conv_time :: "string \<Rightarrow> char \<Rightarrow> int option" where
  "conv_time strval def_unit =
     (case strtol strval of (longval, erange, end) \<Rightarrow>
        let intval = to_int longval
        in if strval = [] \<or> erange \<or> longval \<noteq> intval \<or> intval < 0 then None
           else let unit = (if end \<noteq> [] then hd end else def_unit)
                in if unit = CHR ''w'' then (if intval < INT_MAX div WEEK then Some (intval * WEEK) else None)
                   else if unit = CHR ''d'' then (if intval < INT_MAX div DAY then Some (intval * DAY) else None)
                   else if unit = CHR ''h'' then (if intval < INT_MAX div HOUR then Some (intval * HOUR) else None)
                   else if unit = CHR ''m'' then (if intval < INT_MAX div MINUTE then Some (intval * MINUTE) else None)
                   else if unit = CHR ''s'' then Some intval
                   else None)"

definition convert_mail_conf_time :: "process \<Rightarrow> string \<Rightarrow> char \<Rightarrow> conf_dict \<Rightarrow> int option outcome" where
  "convert_mail_conf_time proc name def_unit d =
     obind (mail_conf_lookup_eval proc name d) (\<lambda>r. case r of
        None \<Rightarrow> Ret None
      | Some strval \<Rightarrow> (case conv_time strval def_unit of
                          None \<Rightarrow> Panic ''convert_mail_conf_time'' | Some v \<Rightarrow> Ret (Some v)))"

definition check_mail_conf_time :: "int \<Rightarrow> int \<Rightarrow> int \<Rightarrow> unit outcome" where
  "check_mail_conf_time intval lo hi =
     (if lo \<noteq> 0 \<and> intval < lo then Panic ''check_mail_conf_time''
      else if hi \<noteq> 0 \<and> intval > hi then Panic ''check_mail_conf_time'' else Ret ())"

text \<open>The unit of a default value is its first letter.\<close>

fun first_alpha :: "string \<Rightarrow> char option" where
  "first_alpha [] = None"
| "first_alpha (c # cs) = (if isalpha c then Some c else first_alpha cs)"

definition get_def_time_unit :: "process \<Rightarrow> string \<Rightarrow> conf_dict \<Rightarrow> char outcome" where
  "get_def_time_unit proc defval d =
     obind (mail_conf_eval proc defval d) (\<lambda>defval.
       case first_alpha defval of None \<Rightarrow> Panic ''get_def_time_unit'' | Some c \<Rightarrow> Ret c)"

definition set_mail_conf_time :: "string \<Rightarrow> string \<Rightarrow> conf_dict \<Rightarrow> conf_dict" where
  "set_mail_conf_time name value d = mail_conf_update name value d"

definition set_mail_conf_time_int :: "string \<Rightarrow> int \<Rightarrow> conf_dict \<Rightarrow> conf_dict" where
  "set_mail_conf_time_int name value d = mail_conf_update name (sprintf_d value @ ''s'') d"

text \<open>Look up, or store the default with \<open>set\<close> and look up again.\<close>

definition convert_or_default :: "process \<Rightarrow> string \<Rightarrow> char \<Rightarrow> (conf_dict \<Rightarrow> conf_dict) \<Rightarrow> conf_dict \<Rightarrow> (int \<times> conf_dict) outcome" where
  "convert_or_default proc name def_unit put d =
     obind (convert_mail_conf_time proc name def_unit d) (\<lambda>r.
       let d = (if r = None then put d else d)
       in obind (convert_mail_conf_time proc name def_unit d) (\<lambda>r.
            case r of None \<Rightarrow> Panic ''get_mail_conf_time'' | Some v \<Rightarrow> Ret (v, d)))"

definition get_mail_conf_time :: "process \<Rightarrow> string \<Rightarrow> string \<Rightarrow> int \<Rightarrow> int \<Rightarrow> conf_dict \<Rightarrow> (int \<times> conf_dict) outcome" where
  "get_mail_conf_time proc name defval lo hi d =
     obind (get_def_time_unit proc defval d) (\<lambda>def_unit.
     obind (convert_or_default proc name def_unit (set_mail_conf_time name defval) d) (\<lambda>(intval, d).
     obind (check_mail_conf_time intval lo hi) (\<lambda>_. Ret (intval, d))))"

definition get_mail_conf_time2 :: "process \<Rightarrow> string \<Rightarrow> string \<Rightarrow> int \<Rightarrow> char \<Rightarrow> int \<Rightarrow> int \<Rightarrow> conf_dict \<Rightarrow> (int \<times> conf_dict) outcome" where
  "get_mail_conf_time2 proc name1 name2 defval def_unit lo hi d =
     obind (convert_or_default proc (name1 @ name2) def_unit (set_mail_conf_time_int (name1 @ name2) defval) d) (\<lambda>(intval, d).
     obind (check_mail_conf_time intval lo hi) (\<lambda>_. Ret (intval, d)))"

section \<open>String and boolean parameters\<close>

definition check_mail_conf_str :: "string \<Rightarrow> int \<Rightarrow> int \<Rightarrow> unit outcome" where
  "check_mail_conf_str strval lo hi =
     (if lo \<noteq> 0 \<and> int (length strval) < lo then Panic ''check_mail_conf_str''
      else if hi \<noteq> 0 \<and> int (length strval) > hi then Panic ''check_mail_conf_str'' else Ret ())"

definition get_mail_conf_str :: "process \<Rightarrow> string \<Rightarrow> string \<Rightarrow> int \<Rightarrow> int \<Rightarrow> conf_dict \<Rightarrow> (string \<times> conf_dict) outcome" where
  "get_mail_conf_str proc name defval lo hi d =
     obind (mail_conf_lookup_eval proc name d) (\<lambda>r.
     obind (case r of Some strval \<Rightarrow> Ret (strval, d)
            | None \<Rightarrow> obind (mail_conf_eval proc defval d) (\<lambda>strval. Ret (strval, mail_conf_update name strval d)))
       (\<lambda>(strval, d). obind (check_mail_conf_str strval lo hi) (\<lambda>_. Ret (strval, d))))"

definition CONFIG_BOOL_YES :: string where "CONFIG_BOOL_YES = ''yes''"
definition CONFIG_BOOL_NO :: string where "CONFIG_BOOL_NO = ''no''"

definition parse_conf_bool :: "string \<Rightarrow> bool option" where
  "parse_conf_bool strval =
     (if map tolower strval = map tolower CONFIG_BOOL_YES then Some True
      else if map tolower strval = map tolower CONFIG_BOOL_NO then Some False else None)"

definition convert_mail_conf_bool :: "process \<Rightarrow> string \<Rightarrow> conf_dict \<Rightarrow> bool option outcome" where
  "convert_mail_conf_bool proc name d =
     obind (mail_conf_lookup_eval proc name d) (\<lambda>r. case r of
        None \<Rightarrow> Ret None
      | Some strval \<Rightarrow> (case parse_conf_bool strval of
                          None \<Rightarrow> Panic ''convert_mail_conf_bool'' | Some v \<Rightarrow> Ret (Some v)))"

definition set_mail_conf_bool :: "string \<Rightarrow> bool \<Rightarrow> conf_dict \<Rightarrow> conf_dict" where
  "set_mail_conf_bool name value d = mail_conf_update name (if value then CONFIG_BOOL_YES else CONFIG_BOOL_NO) d"

definition get_mail_conf_bool :: "process \<Rightarrow> string \<Rightarrow> bool \<Rightarrow> conf_dict \<Rightarrow> (bool \<times> conf_dict) outcome" where
  "get_mail_conf_bool proc name defval d =
     obind (convert_mail_conf_bool proc name d) (\<lambda>r.
       Ret (case r of None \<Rightarrow> (defval, set_mail_conf_bool name defval d) | Some v \<Rightarrow> (v, d)))"

section \<open>Values survive the trip through the dictionary\<close>

text \<open>
  Defaults are stored as text and may be read back by anyone. The contract between the printer and
  the parser of a parameter type, and what clients get from it.
\<close>

locale conf_codec =
  fixes print :: "'v \<Rightarrow> string" and parse :: "string \<Rightarrow> 'v option" and ok :: "'v \<Rightarrow> bool"
  assumes parse_print: "ok v \<Longrightarrow> parse (print v) = Some v"
begin

lemma print_inject: "ok v \<Longrightarrow> ok w \<Longrightarrow> print v = print w \<longleftrightarrow> v = w"
  by (metis option.inject parse_print)

lemma stored_value:
  assumes "ok v" and "\<And>d. dict_eval proc d (print v) True = Ret (print v)"
  shows "obind (mail_conf_lookup_eval proc name (mail_conf_update name (print v) d)) (\<lambda>r. Ret (map_option parse r)) = Ret (Some (Some v))"
  using assms by (simp add: mail_conf_lookup_eval_def mail_conf_update_def parse_print)

end

lemma to_int_id [simp]: "fits_int n \<Longrightarrow> to_int n = n"
  by (simp add: to_int_eq_iff)

lemma sprintf_d_nonempty [simp]: "sprintf_d n \<noteq> []"
  using nat_digits_props by (auto simp: sprintf_d_def)

interpretation conf_int: conf_codec sprintf_d parse_conf_int fits_int
  by unfold_locales (use strtol_sprintf_d [where rest = "[]"] in \<open>auto simp: parse_conf_int_def\<close>)

interpretation conf_bool: conf_codec "\<lambda>b. if b then CONFIG_BOOL_YES else CONFIG_BOOL_NO" parse_conf_bool "\<lambda>_. True"
  by unfold_locales (auto simp: parse_conf_bool_def CONFIG_BOOL_YES_def CONFIG_BOOL_NO_def tolower_def ctype_defs)

text \<open>The number of seconds in a unit of time, and what a time value with a unit means.\<close>

definition unit_seconds :: "char \<Rightarrow> int option" where
  "unit_seconds u = (if u = CHR ''w'' then Some WEEK else if u = CHR ''d'' then Some DAY
     else if u = CHR ''h'' then Some HOUR else if u = CHR ''m'' then Some MINUTE
     else if u = CHR ''s'' then Some 1 else None)"

lemmas time_defs = WEEK_def DAY_def HOUR_def MINUTE_def

lemma conv_time_cases:
  assumes "conv_time s u = Some v"
  obtains n rest k where "strtol s = (n, False, rest)" and "0 \<le> n" and "n \<le> INT_MAX"
    and "unit_seconds (if rest \<noteq> [] then hd rest else u) = Some k" and "v = n * k" and "v \<le> INT_MAX"
proof -
  obtain n er rest where st: "strtol s = (n, er, rest)" by (metis prod_cases3)
  then have n: "\<not> er" "to_int n = n" "0 \<le> n"
    using assms by (auto simp: conv_time_def Let_def split: if_splits)
  then have "n \<le> INT_MAX" by (simp add: to_int_eq_iff fits_int_def)
  moreover have "\<exists>k. unit_seconds (if rest \<noteq> [] then hd rest else u) = Some k \<and> v = n * k \<and> v \<le> INT_MAX"
    using assms st n \<open>n \<le> INT_MAX\<close>
    by (auto simp: conv_time_def Let_def unit_seconds_def time_defs INT_MAX_def split: if_splits)
  ultimately show ?thesis using that st n by auto
qed

lemma conv_time_seconds:
  assumes "0 \<le> n" and "n \<le> INT_MAX"
  shows "conv_time (sprintf_d n @ CHR ''s'' # junk) u = Some n"
proof -
  have f: "fits_int n" using assms by (simp add: fits_int_def INT_MIN_def)
  have "strtol (sprintf_d n @ CHR ''s'' # junk) = (n, False, CHR ''s'' # junk)"
    by (rule strtol_sprintf_d [OF f]) (simp add: isdigit_def)
  then show ?thesis using assms f by (simp add: conv_time_def Let_def)
qed

interpretation conf_seconds: conf_codec "\<lambda>n. sprintf_d n @ ''s''" "\<lambda>s. conv_time s u" "\<lambda>n. 0 \<le> n \<and> n \<le> INT_MAX" for u
  by unfold_locales (simp add: conv_time_seconds)

lemma sprintf_d_no_dollar: "CHR ''$'' \<notin> set (sprintf_d n)"
  using nat_digits_props [of "nat n"] nat_digits_props [of "nat (- n)"] by (auto simp: sprintf_d_def isdigit_def)

lemma parse_conf_int_fits: "parse_conf_int s = Some v \<Longrightarrow> fits_int v"
proof -
  assume a: "parse_conf_int s = Some v"
  obtain n er rest where "strtol s = (n, er, rest)" by (metis prod_cases3)
  with a have "to_int n = n" "v = n" by (simp_all add: parse_conf_int_def split: if_splits)
  then show ?thesis by (simp add: to_int_eq_iff)
qed

text \<open>
  C25: an integer parameter has one value: when \<open>get_mail_conf_int\<close> returns \<open>v\<close>, the value obeys the
  limits that were asked for, and every later look-up of the name, with whatever default value and
  without limits, returns the same \<open>v\<close> and changes nothing.
\<close>

theorem get_mail_conf_int_stable:
  assumes "0 < proc_stack proc" and "fits_int defval"
    and "get_mail_conf_int proc name defval lo hi d = Ret (v, d')"
  shows "(lo \<noteq> 0 \<longrightarrow> lo \<le> v) \<and> (hi \<noteq> 0 \<longrightarrow> v \<le> hi) \<and> fits_int v
    \<and> get_mail_conf_int proc name other 0 0 d' = Ret (v, d')"
proof (cases "d name")
  case None
  have ev: "dict_eval proc d' (sprintf_d defval) True = Ret (sprintf_d defval)" for d'
    using assms(1) sprintf_d_no_dollar by (rule dict_eval_plain)
  have r: "check_mail_conf_int defval lo hi = Ret ()" "v = defval" "d' = d(name \<mapsto> sprintf_d defval)"
    using assms(3) None by (auto simp: get_mail_conf_int_def convert_mail_conf_int_def set_mail_conf_int_def
        mail_conf_lookup_eval_def mail_conf_update_def)
  show ?thesis
    using r assms(2) ev conf_int.parse_print [OF assms(2)]
    by (auto simp: get_mail_conf_int_def convert_mail_conf_int_def mail_conf_lookup_eval_def check_mail_conf_int_def split: if_splits)
next
  case (Some str)
  then obtain s where s: "dict_eval proc d str True = Ret s"
    using assms(3) by (cases "dict_eval proc d str True") (auto simp: get_mail_conf_int_def convert_mail_conf_int_def mail_conf_lookup_eval_def)
  then obtain w where w: "parse_conf_int s = Some w"
    using assms(3) Some by (cases "parse_conf_int s") (auto simp: get_mail_conf_int_def convert_mail_conf_int_def mail_conf_lookup_eval_def)
  then have r: "check_mail_conf_int w lo hi = Ret ()" "v = w" "d' = d"
    using assms(3) Some s by (auto simp: get_mail_conf_int_def convert_mail_conf_int_def mail_conf_lookup_eval_def)
  then show ?thesis using Some s w parse_conf_int_fits [OF w]
    by (auto simp: get_mail_conf_int_def convert_mail_conf_int_def mail_conf_lookup_eval_def check_mail_conf_int_def split: if_splits)
qed

theorem get_mail_conf_int_stable_witness:
  "get_mail_conf_int demo_process ''smtp_destination_concurrency_limit'' 7 0 0
     [''smtp_destination_concurrency_limit'' \<mapsto> ''20''] = Ret (20, [''smtp_destination_concurrency_limit'' \<mapsto> ''20''])"
proof -
  have s: "sprintf_d 20 = ''20''" by code_simp
  have "get_mail_conf_int demo_process ''smtp_destination_concurrency_limit'' 20 0 0 Map.empty
      = Ret (20, [''smtp_destination_concurrency_limit'' \<mapsto> ''20''])"
    by (simp add: s get_mail_conf_int_def convert_mail_conf_int_def set_mail_conf_int_def mail_conf_lookup_eval_def
      mail_conf_update_def check_mail_conf_int_def)
  then show ?thesis
  using get_mail_conf_int_stable [of demo_process 20 "''smtp_destination_concurrency_limit''" 0 0 Map.empty 20
      "[''smtp_destination_concurrency_limit'' \<mapsto> ''20'']" 7]
  by (simp add: demo_process_def fits_int_def INT_MIN_def INT_MAX_def)
qed

text \<open>
  C26: \<open>conv_time\<close> never overflows: an accepted time value is a non-negative number times the number
  of seconds of its unit (the character after the number, or the default unit), and the product
  fits in an \<^verbatim>\<open>int\<close>.
\<close>

theorem conv_time_no_overflow:
  assumes "conv_time s u = Some v"
  shows "\<exists>n rest k. strtol s = (n, False, rest) \<and> 0 \<le> n
    \<and> unit_seconds (if rest \<noteq> [] then hd rest else u) = Some k \<and> v = n * k \<and> 0 \<le> v \<and> v \<le> INT_MAX"
proof -
  obtain n rest k where c: "strtol s = (n, False, rest)" "0 \<le> n"
    "unit_seconds (if rest \<noteq> [] then hd rest else u) = Some k" "v = n * k" "v \<le> INT_MAX"
    using conv_time_cases [OF assms] by metis
  moreover have "0 \<le> k" using c(3) by (auto simp: unit_seconds_def time_defs split: if_splits)
  ultimately show ?thesis by auto
qed

theorem conv_time_no_overflow_witness: "\<exists>n k. (7200 :: int) = n * k \<and> unit_seconds (CHR ''h'') = Some k"
  using conv_time_no_overflow [of "''2h''" "CHR ''s''" 7200]
  by (auto simp: conv_time_def strtol_def clamp_long_def LONG_MAX_def LONG_MIN_def digits_val_def digit_val_def
      isdigit_def isspace_def time_defs INT_MAX_def to_int_eq_iff [THEN iffD2] fits_int_def INT_MIN_def Let_def)

text \<open>
  A time value may have any text behind its unit: the test for it is commented out in the source,
  although the documentation speaks of a one-letter suffix.
\<close>

lemma conv_time_ignores_rest: "conv_time (sprintf_d 10 @ ''seconds'') u = conv_time (sprintf_d 10 @ ''s'') u"
  using conv_time_seconds [of 10 "''econds''" u] conv_time_seconds [of 10 "[]" u] by (simp add: INT_MAX_def)

section \<open>Defaults\<close>

text \<open>What the look-up functions return for a name that is not set: the default value, which is stored.\<close>

lemma get_mail_conf_int2_default:
  assumes "d (name1 @ name2) = None" and "lo \<noteq> 0 \<longrightarrow> lo \<le> v" and "hi \<noteq> 0 \<longrightarrow> v \<le> hi"
  shows "get_mail_conf_int2 proc name1 name2 v lo hi d = Ret (v, d(name1 @ name2 \<mapsto> sprintf_d v))"
  using assms by (auto simp: get_mail_conf_int2_def get_mail_conf_int_def convert_mail_conf_int_def
      mail_conf_lookup_eval_def check_mail_conf_int_def set_mail_conf_int_def mail_conf_update_def)

lemma get_mail_conf_time2_default:
  assumes "0 < proc_stack proc" and "d (name1 @ name2) = None" and "lo \<noteq> 0 \<longrightarrow> lo \<le> v" and "hi \<noteq> 0 \<longrightarrow> v \<le> hi"
    and "0 \<le> v" and "v \<le> INT_MAX"
  shows "get_mail_conf_time2 proc name1 name2 v u lo hi d = Ret (v, d(name1 @ name2 \<mapsto> sprintf_d v @ ''s''))"
proof -
  have "dict_eval proc d' (sprintf_d v @ ''s'') True = Ret (sprintf_d v @ ''s'')" for d'
    using assms(1) sprintf_d_no_dollar by (intro dict_eval_plain) auto
  then show ?thesis
    using assms conv_time_seconds [of v "[]"]
    by (auto simp: get_mail_conf_time2_def convert_or_default_def convert_mail_conf_time_def mail_conf_lookup_eval_def
        set_mail_conf_time_int_def mail_conf_update_def check_mail_conf_time_def)
qed

lemma get_mail_conf_str_default:
  assumes "0 < proc_stack proc" and "CHR ''$'' \<notin> set v" and "d name = None" and "lo \<noteq> 0 \<longrightarrow> lo \<le> int (length v)" and "hi = 0"
  shows "get_mail_conf_str proc name v lo hi d = Ret (v, d(name \<mapsto> v))"
  using assms by (auto simp: get_mail_conf_str_def mail_conf_lookup_eval_def mail_conf_eval_def dict_eval_plain
      mail_conf_update_def check_mail_conf_str_def)

lemmas conf_defaults = get_mail_conf_int2_default get_mail_conf_time2_default get_mail_conf_str_default

end
