(* ===== verification/Qmgr_Transport.thy ===== *)
theory Qmgr_Transport
  imports Qmgr_Entry Mail_Conf
begin

text \<open>
  Delivery transports: \<^verbatim>\<open>src/src/qmgr/qmgr_transport.c\<close>, the feedback controls of
  \<^verbatim>\<open>qmgr_feedback.c\<close>, the error transport of \<^verbatim>\<open>qmgr_error.c\<close> and
  \<^verbatim>\<open>qmgr_enable.c\<close>. Connecting to a delivery agent and the conversion of text to a
  floating point number are parameters.
\<close>

section \<open>Feedback controls\<close>

text \<open>
  \<open>strtod\<close> stands for the conversion of \<^verbatim>\<open>%lf\<close>: the number at the start of a string and the
  text behind it. The fields that \<^verbatim>\<open>sscanf(fbck_val, "%lf %1[/] %30s%c", ...)\<close> assigns:
\<close>

type_synonym strtod = "string \<Rightarrow> (rat \<times> string) option"

definition scan_feedback :: "strtod \<Rightarrow> string \<Rightarrow> nat \<times> rat \<times> string" where
  "scan_feedback strtod str =
     (case strtod str of
        None \<Rightarrow> (0, 0, [])
      | Some (enum_val, rest) \<Rightarrow>
          let rest = dropWhile isspace rest
          in if rest = [] \<or> hd rest \<noteq> CHR ''/'' then (1, enum_val, [])
             else let rest = dropWhile isspace (tl rest);
                      denom_str = take 30 (takeWhile (\<lambda>c. \<not> isspace c) rest)
                  in if denom_str = [] then (2, enum_val, [])
                     else (if drop (length denom_str) rest = [] then 3 else 4, enum_val, denom_str))"

definition CONC_FDBACK_NAME_WIN :: string where "CONC_FDBACK_NAME_WIN = ''concurrency''"

definition qmgr_feedback_map :: "(string \<times> int) list" where
  "qmgr_feedback_map = [(CONC_FDBACK_NAME_WIN, QMGR_FEEDBACK_IDX_WIN)]"

definition inclusive_bounds :: "rat \<Rightarrow> rat \<Rightarrow> rat \<Rightarrow> bool" where
  "inclusive_bounds val low high \<longleftrightarrow> low \<le> val \<and> val \<le> high"

text \<open>The value of the text, before the sanity check: base and index (-1 is an error).\<close>

definition feedback_value :: "strtod \<Rightarrow> string \<Rightarrow> rat \<times> int" where
  "feedback_value strtod fbck_val =
     (case scan_feedback strtod fbck_val of (n, enum_val, denom_str) \<Rightarrow>
        if n = 1 then (enum_val, QMGR_FEEDBACK_IDX_NONE)
        else if n = 3 then
          let idx = name_code qmgr_feedback_map QMGR_FEEDBACK_IDX_NONE NAME_CODE_FLAG_NONE denom_str
          in if idx \<noteq> QMGR_FEEDBACK_IDX_NONE then (enum_val, idx)
             else (case strtod denom_str of
                     Some (denom_val, []) \<Rightarrow>
                       if inclusive_bounds enum_val 0 (of_int INT_MAX)
                          \<and> inclusive_bounds denom_val (1 / of_int INT_MAX) (of_int INT_MAX)
                       then (enum_val / denom_val, idx) else (-1, idx)
                   | _ \<Rightarrow> (-1, idx))
        else (-1, QMGR_FEEDBACK_IDX_NONE))"

definition qmgr_feedback_init :: "process \<Rightarrow> strtod \<Rightarrow> string \<Rightarrow> string \<Rightarrow> string \<Rightarrow> conf_dict
    \<Rightarrow> (qmgr_feedback \<times> conf_dict) outcome" where
  "qmgr_feedback_init proc strtod name_prefix name_tail def_val d =
     obind (get_mail_conf_str proc (name_prefix @ name_tail) def_val 1 0 d) (\<lambda>(fbck_val, d).
       let (b, idx) = feedback_value strtod fbck_val
       in Ret (if inclusive_bounds b 0 1 then \<lparr>hysteresis = 1, base = b, index = idx\<rparr>
               else \<lparr>hysteresis = 1, base = 1, index = QMGR_FEEDBACK_IDX_NONE\<rparr>, d))"

section \<open>Throttling\<close>

definition qmgr_transport_unthrottle :: "transport_id \<Rightarrow> qmgr \<Rightarrow> qmgr outcome" where
  "qmgr_transport_unthrottle t s =
     obind (if t_flags (transports s t) AND QMGR_TRANSPORT_STAT_DEAD \<noteq> 0 then
              let s = upd_transport t (\<lambda>x. x\<lparr>t_flags := t_flags x AND NOT QMGR_TRANSPORT_STAT_DEAD\<rparr>) s
              in if t_dsn (transports s t) = None then Panic ''qmgr_transport_unthrottle''
                 else Ret (event_cancel_timer (Tm_transport_unthrottle t) (upd_transport t (\<lambda>x. x\<lparr>t_dsn := None\<rparr>) s))
            else Ret s)
       (\<lambda>s. Ret (if t_flags (transports s t) AND QMGR_TRANSPORT_STAT_RATE_LOCK \<noteq> 0
                 then upd_transport t (\<lambda>x. x\<lparr>t_flags := t_flags x AND NOT QMGR_TRANSPORT_STAT_RATE_LOCK\<rparr>) s else s))"

definition qmgr_transport_throttle :: "config \<Rightarrow> transport_id \<Rightarrow> dsn \<Rightarrow> qmgr \<Rightarrow> qmgr outcome" where
  "qmgr_transport_throttle conf t dsn s =
     (if t_flags (transports s t) AND QMGR_TRANSPORT_STAT_DEAD = 0 then
        let s = upd_transport t (\<lambda>x. x\<lparr>t_flags := t_flags x OR QMGR_TRANSPORT_STAT_DEAD\<rparr>) s
        in if t_dsn (transports s t) \<noteq> None then Panic ''qmgr_transport_throttle''
           else obind (DSN_COPY dsn) (\<lambda>dsn.
             Ret (event_request_timer (Tm_transport_unthrottle t) (var_transport_retry_time conf)
                    (upd_transport t (\<lambda>x. x\<lparr>t_dsn := Some dsn\<rparr>) s)))
      else Ret s)"

section \<open>Allocating delivery processes\<close>

definition QMGR_TRANSPORT_MAX_PEND :: int where "QMGR_TRANSPORT_MAX_PEND = 2"

text \<open>
  \<^verbatim>\<open>qmgr_transport_select()\<close>: the delivery slots that the ready queues of a transport still
  need, counted down until the pending connections and one more are covered.
\<close>

fun queues_need :: "qmgr \<Rightarrow> queue_id list \<Rightarrow> int \<Rightarrow> bool" where
  "queues_need s [] need \<longleftrightarrow> False"
| "queues_need s (q # qs) need \<longleftrightarrow>
     (if \<not> QMGR_QUEUE_READY (queues s q) then queues_need s qs need
      else let need' = need - min (q_window (queues s q) - q_busy_refcount (queues s q)) (q_todo_refcount (queues s q))
           in if need' \<le> 0 then True else queues_need s qs need')"

definition transport_suitable :: "qmgr \<Rightarrow> transport_id \<Rightarrow> bool" where
  "transport_suitable s t \<longleftrightarrow>
     \<not> (t_flags (transports s t) AND QMGR_TRANSPORT_STAT_DEAD \<noteq> 0
        \<or> t_flags (transports s t) AND QMGR_TRANSPORT_STAT_RATE_LOCK \<noteq> 0
        \<or> t_pending (transports s t) \<ge> QMGR_TRANSPORT_MAX_PEND)
     \<and> queues_need s (t_queue_list (transports s t)) (t_pending (transports s t) + 1)"

definition qmgr_transport_select :: "qmgr \<Rightarrow> transport_id option \<times> qmgr" where
  "qmgr_transport_select s =
     (case List.extract (transport_suitable s) (transport_list s) of
        None \<Rightarrow> (None, s)
      | Some (as, t, bs) \<Rightarrow> (Some t, s\<lparr>transport_list := bs @ as @ [t]\<rparr>))"

text \<open>\<open>connect\<close> is the answer of \<^verbatim>\<open>mail_connect()\<close>: a stream, or none.\<close>

definition qmgr_transport_alloc :: "config \<Rightarrow> vstream option \<Rightarrow> transport_id \<Rightarrow> qmgr \<Rightarrow> qmgr outcome" where
  "qmgr_transport_alloc conf connect t s =
     (if t_flags (transports s t) AND QMGR_TRANSPORT_STAT_DEAD \<noteq> 0 then Panic ''qmgr_transport_alloc''
      else if t_flags (transports s t) AND QMGR_TRANSPORT_STAT_RATE_LOCK \<noteq> 0 then Panic ''qmgr_transport_alloc''
      else if t_pending (transports s t) \<ge> QMGR_TRANSPORT_MAX_PEND then Panic ''qmgr_transport_alloc''
      else
        let s = (if t_xport_rate_delay (transports s t) > 0
                 then upd_transport t (\<lambda>x. x\<lparr>t_flags := t_flags x OR QMGR_TRANSPORT_STAT_RATE_LOCK\<rparr>) s else s);
            (a, s) = mymalloc s;
            s = upd_alloc a (\<lambda>_. \<lparr>a_transport = t, a_stream = connect\<rparr>) s;
            s = upd_transport t (\<lambda>x. x\<lparr>t_pending := t_pending x + 1\<rparr>) s
        in Ret (if connect = None then event_request_timer (Tm_transport_event a) 0 s
                else event_request_timer (Tm_transport_abort a) (var_daemon_timeout conf)
                       (s\<lparr>transport_events := a # transport_events s\<rparr>)))"

text \<open>The watchdog gives up.\<close>

definition qmgr_transport_abort :: "alloc_id \<Rightarrow> qmgr \<Rightarrow> qmgr outcome" where
  "qmgr_transport_abort a s = Panic ''qmgr_transport_abort''"

text \<open>The delivery process is available, or the connection failed. \<open>notify\<close> is the call-back.\<close>

definition qmgr_transport_rate_event :: "(transport_id \<Rightarrow> vstream option \<Rightarrow> qmgr \<Rightarrow> qmgr outcome) \<Rightarrow> alloc_id \<Rightarrow> qmgr \<Rightarrow> qmgr outcome" where
  "qmgr_transport_rate_event notify a s =
     obind (notify (a_transport (allocs s a)) (a_stream (allocs s a)) s) (\<lambda>s. Ret (myfree Alloc_obj a s))"

definition qmgr_transport_event :: "(transport_id \<Rightarrow> vstream option \<Rightarrow> qmgr \<Rightarrow> qmgr outcome) \<Rightarrow> alloc_id \<Rightarrow> qmgr \<Rightarrow> qmgr outcome" where
  "qmgr_transport_event notify a s =
     (let t = a_transport (allocs s a);
          s = event_cancel_timer (Tm_transport_abort a) s;
          s = (if a_stream (allocs s a) \<noteq> None
               then s\<lparr>transport_events := remove1 a (transport_events s)\<rparr> else s);
          s = upd_transport t (\<lambda>x. x\<lparr>t_pending := t_pending x - 1\<rparr>) s
      in if t_xport_rate_delay (transports s t) > 0 then
           if t_flags (transports s t) AND QMGR_TRANSPORT_STAT_RATE_LOCK = 0 then Panic ''transport_event''
           else Ret (event_request_timer (Tm_transport_rate_event a) (t_xport_rate_delay (transports s t)) s)
         else obind (notify t (a_stream (allocs s a)) s) (\<lambda>s. Ret (myfree Alloc_obj a s)))"

section \<open>Creating transports\<close>

definition qmgr_transport_find :: "string \<Rightarrow> qmgr \<Rightarrow> transport_id option" where
  "qmgr_transport_find name s = transport_byname s name"

text \<open>The settings of a transport, in the order in which they are looked up.\<close>

definition transport_settings :: "process \<Rightarrow> strtod \<Rightarrow> config \<Rightarrow> string \<Rightarrow> conf_dict \<Rightarrow> (transport \<times> conf_dict) outcome" where
  "transport_settings proc strtod conf name d =
     obind (get_mail_conf_int2 proc name ''_destination_concurrency_limit'' (var_dest_con_limit conf) 0 0 d) (\<lambda>(con_limit, d).
     obind (get_mail_conf_int2 proc name ''_destination_recipient_limit'' (var_dest_rcpt_limit conf) 0 0 d) (\<lambda>(rcpt_limit, d).
     obind (get_mail_conf_int2 proc name ''_initial_destination_concurrency'' (var_init_dest_concurrency conf) 1 0 d) (\<lambda>(init_con, d).
     obind (get_mail_conf_time2 proc name ''_transport_rate_delay'' (var_xport_rate_delay conf) (CHR ''s'') 0 0 d) (\<lambda>(xport_rate, d).
     obind (get_mail_conf_time2 proc name ''_destination_rate_delay'' (var_dest_rate_delay conf) (CHR ''s'') 0 0 d) (\<lambda>(rate, d).
     let con_limit = (if rate > 0 then 1 else con_limit);
         init_con = (if con_limit \<noteq> 0 \<and> con_limit < init_con then con_limit else init_con)
     in
     obind (get_mail_conf_int2 proc name ''_delivery_slot_cost'' (var_delivery_slot_cost conf) 0 0 d) (\<lambda>(slot_cost, d).
     obind (get_mail_conf_int2 proc name ''_delivery_slot_loan'' (var_delivery_slot_loan conf) 0 0 d) (\<lambda>(slot_loan, d).
     obind (get_mail_conf_int2 proc name ''_delivery_slot_discount'' (var_delivery_slot_discount conf) 0 100 d) (\<lambda>(slot_discount, d).
     obind (get_mail_conf_int2 proc name ''_minimum_delivery_slots'' (var_min_delivery_slots conf) 0 0 d) (\<lambda>(slots, d).
     obind (get_mail_conf_int2 proc name ''_recipient_limit'' (var_xport_rcpt_limit conf) 0 0 d) (\<lambda>(rcpt_unused, d).
     obind (get_mail_conf_int2 proc name ''_extra_recipient_limit'' (var_stack_rcpt_limit conf) 0 0 d) (\<lambda>(rcpt_per_stack, d).
     obind (get_mail_conf_int2 proc name ''_recipient_refill_limit'' (var_xport_refill_limit conf) 1 0 d) (\<lambda>(refill_limit, d).
     obind (get_mail_conf_time2 proc name ''_recipient_refill_delay'' (var_xport_refill_delay conf) (CHR ''s'') 1 0 d) (\<lambda>(refill_delay, d).
     obind (qmgr_feedback_init proc strtod name ''_destination_concurrency_positive_feedback'' (var_conc_pos_feedback conf) d) (\<lambda>(pos, d).
     obind (qmgr_feedback_init proc strtod name ''_destination_concurrency_negative_feedback'' (var_conc_neg_feedback conf) d) (\<lambda>(neg, d).
     obind (get_mail_conf_int2 proc name ''_destination_concurrency_failed_cohort_limit'' (var_conc_cohort_limit conf) 0 0 d) (\<lambda>(cohort, d).
     Ret (\<lparr>t_flags = 0, t_pending = 0, t_name = name, t_dest_concurrency_limit = con_limit,
           t_init_dest_concurrency = init_con, t_recipient_limit = rcpt_limit, t_rcpt_per_stack = rcpt_per_stack,
           t_rcpt_unused = rcpt_unused, t_refill_limit = refill_limit, t_refill_delay = refill_delay,
           t_slot_cost = slot_cost, t_slot_loan = slot_loan, t_slot_loan_factor = 100 - slot_discount,
           t_min_slots = slots, t_queue_byname = Map.empty, t_queue_list = [], t_job_byname = Map.empty,
           t_job_list = [], t_job_bytime = [], t_job_current = None, t_job_next_unread = None,
           t_candidate_cache = None, t_candidate_cache_current = None, t_candidate_cache_time = 0,
           t_blocker_tag = 1, t_dsn = None, t_pos_feedback = pos, t_neg_feedback = neg,
           t_fail_cohort_limit = cohort, t_xport_rate_delay = xport_rate, t_rate_delay = rate\<rparr>, d)))))))))))))))))"

definition qmgr_transport_create :: "process \<Rightarrow> strtod \<Rightarrow> config \<Rightarrow> string \<Rightarrow> qmgr \<Rightarrow> (transport_id \<times> qmgr) outcome" where
  "qmgr_transport_create proc strtod conf name s =
     (if transport_byname s name \<noteq> None then Panic ''qmgr_transport_create''
      else
        let (t, s) = mymalloc s
        in obind (transport_settings proc strtod conf name (config_dict s)) (\<lambda>(x, d).
             Ret (t, upd_transport t (\<lambda>_. x) (s\<lparr>config_dict := d, transport_byname := (transport_byname s)(name \<mapsto> t),
                                              transport_list := t # transport_list s\<rparr>))))"

section \<open>Error transport\<close>

definition qmgr_error_transport :: "process \<Rightarrow> strtod \<Rightarrow> config \<Rightarrow> string \<Rightarrow> qmgr \<Rightarrow> (transport_id option \<times> qmgr) outcome" where
  "qmgr_error_transport proc strtod conf service s =
     obind (case qmgr_transport_find service s of
              Some t \<Rightarrow> Ret (t, s) | None \<Rightarrow> qmgr_transport_create proc strtod conf service s)
       (\<lambda>(t, s). Ret (if QMGR_TRANSPORT_THROTTLED (transports s t) then None else Some t, s))"

definition qmgr_error_nexthop :: "dsn \<Rightarrow> string" where
  "qmgr_error_nexthop dsn = dsn_status dsn @ '' '' @ dsn_reason dsn"

definition qmgr_error_queue :: "process \<Rightarrow> strtod \<Rightarrow> config \<Rightarrow> string \<Rightarrow> dsn \<Rightarrow> qmgr \<Rightarrow> (queue_id option \<times> qmgr) outcome" where
  "qmgr_error_queue proc strtod conf service dsn s =
     obind (qmgr_error_transport proc strtod conf service s) (\<lambda>(t, s).
       case t of
         None \<Rightarrow> Ret (None, s)
       | Some t \<Rightarrow>
           let nexthop = qmgr_error_nexthop dsn;
               (q, s) = (case qmgr_queue_find t nexthop s of
                           Some q \<Rightarrow> (q, s) | None \<Rightarrow> qmgr_queue_create t nexthop nexthop s)
           in Ret (if QMGR_QUEUE_THROTTLED (queues s q) then None else Some q, s))"

section \<open>Enabling transports\<close>

fun enable_queues :: "queue_id list \<Rightarrow> qmgr \<Rightarrow> qmgr outcome" where
  "enable_queues [] s = Ret s"
| "enable_queues (q # qs) s = obind (qmgr_enable_queue q s) (enable_queues qs)"

text \<open>The successor of a queue is read before the queue may disappear, so the loop visits the list as it was.\<close>

definition qmgr_enable_transport :: "transport_id \<Rightarrow> qmgr \<Rightarrow> qmgr outcome" where
  "qmgr_enable_transport t s =
     obind (if t_flags (transports s t) AND QMGR_TRANSPORT_STAT_DEAD \<noteq> 0 then qmgr_transport_unthrottle t s else Ret s)
       (\<lambda>s. enable_queues (t_queue_list (transports s t)) s)"

fun enable_transports :: "transport_id list \<Rightarrow> qmgr \<Rightarrow> qmgr outcome" where
  "enable_transports [] s = Ret s"
| "enable_transports (t # ts) s = obind (qmgr_enable_transport t s) (enable_transports ts)"

definition qmgr_enable_all :: "qmgr \<Rightarrow> qmgr outcome" where
  "qmgr_enable_all s = enable_transports (transport_list s) s"

section \<open>What the settings guarantee\<close>

lemma get_mail_conf_int2_lower:
  "get_mail_conf_int2 proc n1 n2 defval lo hi d = Ret (v, d') \<Longrightarrow> lo \<noteq> 0 \<Longrightarrow> lo \<le> v"
  by (auto simp: get_mail_conf_int2_def get_mail_conf_int_def check_mail_conf_int_def split: if_splits option.splits)

lemma qmgr_feedback_init_sane:
  "qmgr_feedback_init proc strtod pre tail def d = Ret (fb, d') \<Longrightarrow>
     hysteresis fb = 1 \<and> 0 \<le> base fb \<and> base fb \<le> 1"
  by (auto simp: qmgr_feedback_init_def Let_def inclusive_bounds_def case_prod_beta split: if_splits)

lemma obind_pair_RetE:
  assumes "obind m (\<lambda>(a, b). f a b) = Ret y"
  obtains a b where "m = Ret (a, b)" and "f a b = Ret y"
  using assms by auto

lemma transport_settings_sane:
  assumes "transport_settings proc strtod conf name d = Ret (x, d')"
  shows "hysteresis (t_pos_feedback x) = 1 \<and> hysteresis (t_neg_feedback x) = 1
    \<and> (t_rate_delay x > 0 \<longrightarrow> t_dest_concurrency_limit x = 1)
    \<and> (t_dest_concurrency_limit x \<noteq> 0 \<longrightarrow> t_init_dest_concurrency x \<le> t_dest_concurrency_limit x)
    \<and> (t_init_dest_concurrency x < 1 \<longrightarrow> t_dest_concurrency_limit x < 1 \<and> t_dest_concurrency_limit x \<noteq> 0)
    \<and> t_flags x = 0 \<and> t_dsn x = None \<and> t_queue_list x = [] \<and> t_pending x = 0 \<and> t_job_byname x = Map.empty"
  using assms unfolding transport_settings_def Let_def
proof (elim obind_pair_RetE, goal_cases)
  case (1 con_limit d1 rcpt_limit d2 init_con)
  have "1 \<le> init_con" using get_mail_conf_int2_lower [OF 1(3)] by simp
  then show ?case
    using qmgr_feedback_init_sane [OF 1(14)] qmgr_feedback_init_sane [OF 1(15)] 1(17) by (auto split: if_splits)
qed


text \<open>A conversion that knows the default feedback value, and the settings that result from the defaults.\<close>

definition demo_strtod :: strtod where
  "demo_strtod str = (if str = ''1'' then Some (1, []) else None)"

lemma demo_feedback: "feedback_value demo_strtod ''1'' = (1, 0)"
  by (simp add: feedback_value_def scan_feedback_def demo_strtod_def QMGR_FEEDBACK_IDX_NONE_def)

lemma demo_settings:
  "\<exists>x d. transport_settings demo_process demo_strtod demo_conf ''smtp'' Map.empty = Ret (x, d)
     \<and> t_dest_concurrency_limit x = 20"
  by (simp add: transport_settings_def demo_conf_def conf_defaults demo_process_def INT_MAX_def qmgr_feedback_init_def
      demo_feedback inclusive_bounds_def Let_def)


section \<open>Throttling a transport\<close>

definition transport_status_ok :: "qmgr \<Rightarrow> transport_id \<Rightarrow> bool" where
  "transport_status_ok s t \<longleftrightarrow>
     (QMGR_TRANSPORT_THROTTLED (transports s t) \<longleftrightarrow> t_dsn (transports s t) \<noteq> None)
     \<and> (QMGR_TRANSPORT_THROTTLED (transports s t) \<longleftrightarrow> timers s (Tm_transport_unthrottle t) \<noteq> None)"

lemma flag_bits [simp]:
  "(w AND NOT QMGR_TRANSPORT_STAT_DEAD) AND QMGR_TRANSPORT_STAT_DEAD = 0"
  "(w AND NOT QMGR_TRANSPORT_STAT_RATE_LOCK) AND QMGR_TRANSPORT_STAT_RATE_LOCK = 0"
  "(w AND NOT QMGR_TRANSPORT_STAT_RATE_LOCK) AND QMGR_TRANSPORT_STAT_DEAD = w AND QMGR_TRANSPORT_STAT_DEAD"
  "(w AND NOT QMGR_TRANSPORT_STAT_DEAD) AND QMGR_TRANSPORT_STAT_RATE_LOCK = w AND QMGR_TRANSPORT_STAT_RATE_LOCK"
  "(w OR QMGR_TRANSPORT_STAT_DEAD) AND QMGR_TRANSPORT_STAT_DEAD = QMGR_TRANSPORT_STAT_DEAD"
  "(w OR QMGR_TRANSPORT_STAT_DEAD) AND QMGR_TRANSPORT_STAT_RATE_LOCK = w AND QMGR_TRANSPORT_STAT_RATE_LOCK"
  "(w OR QMGR_TRANSPORT_STAT_RATE_LOCK) AND QMGR_TRANSPORT_STAT_RATE_LOCK = QMGR_TRANSPORT_STAT_RATE_LOCK"
  "(w OR QMGR_TRANSPORT_STAT_RATE_LOCK) AND QMGR_TRANSPORT_STAT_DEAD = w AND QMGR_TRANSPORT_STAT_DEAD"
  "QMGR_TRANSPORT_STAT_DEAD \<noteq> 0" "QMGR_TRANSPORT_STAT_RATE_LOCK \<noteq> 0"
  by (rule bit_word_eqI; auto simp: bit_simps QMGR_TRANSPORT_STAT_DEAD_def QMGR_TRANSPORT_STAT_RATE_LOCK_def)+
    (simp_all add: QMGR_TRANSPORT_STAT_DEAD_def QMGR_TRANSPORT_STAT_RATE_LOCK_def)

lemma throttle_transport:
  assumes "transport_status_ok s t" and "dsn_ok dsn"
  shows "returns (qmgr_transport_throttle conf t dsn s) (\<lambda>s'. transport_status_ok s' t
    \<and> QMGR_TRANSPORT_THROTTLED (transports s' t))"
  using assms by (auto simp: qmgr_transport_throttle_def transport_status_ok_def QMGR_TRANSPORT_THROTTLED_def Let_def)

lemma unthrottle_transport:
  assumes "transport_status_ok s t"
  shows "returns (qmgr_transport_unthrottle t s) (\<lambda>s'. transport_status_ok s' t
    \<and> \<not> QMGR_TRANSPORT_THROTTLED (transports s' t)
    \<and> t_flags (transports s' t) AND QMGR_TRANSPORT_STAT_RATE_LOCK = 0)"
  using assms by (auto simp: qmgr_transport_unthrottle_def transport_status_ok_def QMGR_TRANSPORT_THROTTLED_def Let_def)

section \<open>Selecting a transport\<close>

text \<open>The deliveries that a queue can start now; negative when the window shrank below the deliveries in progress.\<close>

definition startable :: "queue \<Rightarrow> int" where
  "startable qu = (if QMGR_QUEUE_READY qu then min (q_window qu - q_busy_refcount qu) (q_todo_refcount qu) else 0)"

lemma queues_need_sum:
  assumes "\<forall>q \<in> set qs. 0 \<le> startable (queues s q)" and "0 < need"
  shows "queues_need s qs need \<longleftrightarrow> need \<le> (\<Sum>q\<leftarrow>qs. startable (queues s q))"
  using assms
proof (induction qs arbitrary: need)
  case (Cons q qs)
  have nonneg: "0 \<le> (\<Sum>q\<leftarrow>qs. startable (queues s q))" using Cons.prems by (intro sum_list_nonneg) auto
  show ?case
  proof (cases "QMGR_QUEUE_READY (queues s q)")
    case False
    then show ?thesis using Cons by (simp add: startable_def)
  next
    case True
    let ?n = "need - startable (queues s q)"
    have "queues_need s (q # qs) need \<longleftrightarrow> ?n \<le> 0 \<or> queues_need s qs ?n"
      using True by (auto simp: startable_def Let_def)
    also have "\<dots> \<longleftrightarrow> need \<le> startable (queues s q) + (\<Sum>q\<leftarrow>qs. startable (queues s q))"
      using Cons.IH [of ?n] Cons.prems nonneg by (cases "?n \<le> 0") auto
    finally show ?thesis by simp
  qed
qed simp

lemma transport_select_cases:
  obtains "qmgr_transport_select s = (None, s)" and "\<forall>t \<in> set (transport_list s). \<not> transport_suitable s t"
  | as t bs where "transport_list s = as @ t # bs" and "transport_suitable s t"
    and "\<forall>u \<in> set as. \<not> transport_suitable s u"
    and "qmgr_transport_select s = (Some t, s\<lparr>transport_list := bs @ as @ [t]\<rparr>)"
proof (cases "List.extract (transport_suitable s) (transport_list s)")
  case None
  then have "qmgr_transport_select s = (None, s)" by (simp add: qmgr_transport_select_def)
  then show ?thesis using None by (intro that(1)) (auto simp: extract_None_iff)
next
  case (Some r)
  obtain as t bs where r: "r = (as, t, bs)" by (cases r)
  then have "qmgr_transport_select s = (Some t, s\<lparr>transport_list := bs @ as @ [t]\<rparr>)"
    using Some by (simp add: qmgr_transport_select_def)
  then show ?thesis using Some r by (intro that(2)) (auto simp: extract_Some_iff)
qed

text \<open>
  C21: a transport that \<open>qmgr_transport_select\<close> returns can be given to \<open>qmgr_transport_alloc\<close> without
  a consistency check failing, whatever \<^verbatim>\<open>mail_connect()\<close> returns; the allocation raises the
  number of pending connections by one, to at most two, and locks a rate-limited transport. The
  selected transport moves to the end of the round-robin list, and every transport before it on
  the list was not suitable.
\<close>

theorem transport_select_alloc:
  assumes "qmgr_transport_select s = (Some t, s')"
  shows "\<exists>as bs s''. transport_list s = as @ t # bs \<and> transport_list s' = bs @ as @ [t]
    \<and> (\<forall>u \<in> set as. \<not> transport_suitable s u)
    \<and> qmgr_transport_alloc conf connect t s' = Ret s''
    \<and> t_pending (transports s'' t) = t_pending (transports s t) + 1
    \<and> t_pending (transports s'' t) \<le> QMGR_TRANSPORT_MAX_PEND
    \<and> (t_xport_rate_delay (transports s t) > 0 \<longrightarrow> \<not> transport_suitable s'' t)"
proof (cases rule: transport_select_cases [of s])
  case 1
  then show ?thesis using assms by simp
next
  case (2 as u bs)
  then have "u = t" and s': "s' = s\<lparr>transport_list := bs @ as @ [t]\<rparr>" using assms by auto
  moreover have "\<exists>s''. qmgr_transport_alloc conf connect t s' = Ret s''
      \<and> t_pending (transports s'' t) = t_pending (transports s t) + 1
      \<and> (t_xport_rate_delay (transports s t) > 0 \<longrightarrow> \<not> transport_suitable s'' t)"
    using 2(2) \<open>u = t\<close> by (auto simp: s' qmgr_transport_alloc_def transport_suitable_def Let_def)
  moreover have "t_pending (transports s t) + 1 \<le> QMGR_TRANSPORT_MAX_PEND"
    using 2(2) \<open>u = t\<close> by (simp add: transport_suitable_def)
  ultimately show ?thesis
    using 2(1,3) by (intro exI [of _ as] exI [of _ bs]) fastforce
qed

definition demo_busy :: qmgr where
  "demo_busy = qmgr_initial\<lparr>transport_list := [3, 0],
     transports := (\<lambda>_. blank_transport)(0 := blank_transport\<lparr>t_queue_list := [1]\<rparr>),
     queues := (\<lambda>_. blank_queue)
       (1 := blank_queue\<lparr>q_window := 2, q_busy := [4], q_busy_refcount := 1, q_todo := [6], q_todo_refcount := 1\<rparr>)\<rparr>"

theorem transport_select_alloc_witness:
  "\<exists>s''. qmgr_transport_alloc demo_conf (Some 5) 0 (demo_busy\<lparr>transport_list := [3, 0]\<rparr>) = Ret s''
     \<and> t_pending (transports s'' 0) = 1"
proof -
  have "qmgr_transport_select demo_busy = (Some 0, demo_busy\<lparr>transport_list := [3, 0]\<rparr>)"
    by (simp add: demo_busy_def blank_defs QMGR_QUEUE_READY_def qmgr_transport_select_def transport_suitable_def
        List.extract_def Let_def QMGR_TRANSPORT_MAX_PEND_def)
  from transport_select_alloc [OF this, of demo_conf "Some 5"] show ?thesis
    by (auto simp: demo_busy_def blank_defs)
qed

text \<open>
  C22: as long as no ready queue has more deliveries in progress than its window, a transport is
  suitable exactly when it is not dead, not rate-locked, has fewer than two pending connections,
  and its ready queues can start more deliveries than there are connections pending.
\<close>

theorem transport_suitable_iff:
  assumes "\<forall>q \<in> set (t_queue_list (transports s t)). 0 \<le> startable (queues s q)" and "0 \<le> t_pending (transports s t)"
  shows "transport_suitable s t \<longleftrightarrow> \<not> QMGR_TRANSPORT_THROTTLED (transports s t)
    \<and> t_flags (transports s t) AND QMGR_TRANSPORT_STAT_RATE_LOCK = 0
    \<and> t_pending (transports s t) < QMGR_TRANSPORT_MAX_PEND
    \<and> t_pending (transports s t) < (\<Sum>q\<leftarrow>t_queue_list (transports s t). startable (queues s q))"
  using queues_need_sum [OF assms(1), of "t_pending (transports s t) + 1"] assms(2)
  by (auto simp: transport_suitable_def QMGR_TRANSPORT_THROTTLED_def)

theorem transport_suitable_iff_witness: "transport_suitable demo_busy 0"
  using transport_suitable_iff [of demo_busy 0]
  by (simp add: demo_busy_def blank_defs startable_def QMGR_QUEUE_READY_def QMGR_TRANSPORT_THROTTLED_def QMGR_TRANSPORT_MAX_PEND_def)

text \<open>A destination with more deliveries in progress than its window, and one that could start a delivery.\<close>

definition starving :: qmgr where
  "starving = qmgr_initial\<lparr>transport_list := [0],
     transports := (\<lambda>_. blank_transport)(0 := blank_transport\<lparr>t_queue_list := [1, 2]\<rparr>),
     queues := (\<lambda>_. blank_queue)
       (1 := blank_queue\<lparr>q_window := 2, q_busy := [3, 4, 5], q_busy_refcount := 3\<rparr>,
        2 := blank_queue\<lparr>q_window := 1, q_todo := [6], q_todo_refcount := 1\<rparr>)\<rparr>"

text \<open>
  Without that condition a queue can be passed over: a queue whose window shrank below its
  deliveries in progress counts as a negative number of startable deliveries. In the example one
  destination has three deliveries in progress under a window of two, another one has an entry to
  deliver and a free window, nothing is pending, and yet no transport is selected.
\<close>

theorem transport_select_starves:
  "QMGR_QUEUE_READY (queues starving 2) \<and> startable (queues starving 2) = 1
     \<and> 2 \<in> set (t_queue_list (transports starving 0)) \<and> transport_list starving = [0]
     \<and> \<not> QMGR_TRANSPORT_THROTTLED (transports starving 0) \<and> t_pending (transports starving 0) = 0
     \<and> fst (qmgr_transport_select starving) = None"
  by (simp add: starving_def blank_defs QMGR_QUEUE_READY_def startable_def QMGR_TRANSPORT_THROTTLED_def
      qmgr_transport_select_def transport_suitable_def List.extract_def Let_def)

end
