(* ===== verification/Qmgr_Message.thy ===== *)
theory Qmgr_Message
  imports Qmgr_Entry
begin

text \<open>
  Messages: the assignment of recipients to delivery requests and the disposal of messages
  (\<^verbatim>\<open>src/src/qmgr/qmgr_message.c\<close>), and \<^verbatim>\<open>recipient_list_add()\<close> of
  \<^verbatim>\<open>src/src/global/recipient_list.c\<close>. The recipients have been resolved: each one names
  the destination queue, or none when it was bounced or deferred.
\<close>

section \<open>Operations\<close>

text \<open>Append a recipient; its destination queue is not copied.\<close>

definition recipient_list_add :: "recipient list \<Rightarrow> recipient \<Rightarrow> recipient list" where
  "recipient_list_add list rcpt = list @ [rcpt\<lparr>rcpt_queue := None\<rparr>]"

definition LIMIT_OK :: "int \<Rightarrow> int \<Rightarrow> bool" where
  "LIMIT_OK limit n \<longleftrightarrow> limit = 0 \<or> n < limit"

text \<open>Lookup or instantiate the message job if necessary; a new job invalidates the peer.\<close>

definition assign_job :: "message_id \<Rightarrow> queue_id \<Rightarrow> (job_id \<times> peer_id option) option \<Rightarrow> qmgr
    \<Rightarrow> (job_id \<times> peer_id option \<times> qmgr) outcome" where
  "assign_job m q cur s =
     (let t = q_transport (queues s q); obtain_job = obind (qmgr_job_obtain m t s) (\<lambda>(j, s). Ret (j, None, s))
      in case cur of
           None \<Rightarrow> obtain_job
         | Some (j, peer) \<Rightarrow> if t \<noteq> j_transport (jobs s j) then obtain_job else Ret (j, peer, s))"

definition assign_peer :: "job_id \<Rightarrow> queue_id \<Rightarrow> peer_id option \<Rightarrow> qmgr \<Rightarrow> peer_id \<times> qmgr" where
  "assign_peer j q peer s =
     (case peer of
        None \<Rightarrow> qmgr_peer_obtain j q s
      | Some p \<Rightarrow> if q \<noteq> p_queue (peers s p) then qmgr_peer_obtain j q s else (p, s))"

text \<open>Reuse the last entry of the peer whenever the recipient limit permits.\<close>

definition assign_entry :: "config \<Rightarrow> message_id \<Rightarrow> queue_id \<Rightarrow> peer_id \<Rightarrow> qmgr \<Rightarrow> (entry_id \<times> qmgr) outcome" where
  "assign_entry conf m q p s =
     (case rev (p_entry_list (peers s p)) of
        [] \<Rightarrow> qmgr_entry_create conf p m s
      | e # _ \<Rightarrow>
          if m_single_rcpt (messages s m)
             \<or> \<not> LIMIT_OK (t_recipient_limit (queue_transport s q)) (int (length (e_rcpt_list (entries s e))))
          then qmgr_entry_create conf p m s else Ret (e, s))"

definition add_recipient :: "message_id \<Rightarrow> job_id \<Rightarrow> entry_id \<Rightarrow> recipient \<Rightarrow> qmgr \<Rightarrow> qmgr" where
  "add_recipient m j e rcpt s =
     (let s = upd_entry e (\<lambda>x. x\<lparr>e_rcpt_list := recipient_list_add (e_rcpt_list x) rcpt\<rparr>) s;
          s = upd_job j (\<lambda>x. x\<lparr>j_rcpt_count := j_rcpt_count x + 1\<rparr>) s;
          s = upd_message m (\<lambda>x. x\<lparr>m_rcpt_count := m_rcpt_count x + 1\<rparr>) s
      in s\<lparr>recipient_count := recipient_count s + 1\<rparr>)"

text \<open>One recipient with a live destination; the result is the current job and peer.\<close>

definition assign_recipient :: "config \<Rightarrow> message_id \<Rightarrow> recipient \<Rightarrow> queue_id \<Rightarrow> (job_id \<times> peer_id option) option \<Rightarrow> qmgr
    \<Rightarrow> ((job_id \<times> peer_id) \<times> qmgr) outcome" where
  "assign_recipient conf m rcpt q cur s =
     obind (assign_job m q cur s) (\<lambda>(j, peer, s).
       let (p, s) = assign_peer j q peer s
       in obind (assign_entry conf m q p s) (\<lambda>(e, s). Ret ((j, p), add_recipient m j e rcpt s)))"

fun assign_loop :: "config \<Rightarrow> message_id \<Rightarrow> recipient list \<Rightarrow> (job_id \<times> peer_id option) option \<Rightarrow> qmgr \<Rightarrow> qmgr outcome" where
  "assign_loop conf m [] cur s = Ret s"
| "assign_loop conf m (rcpt # rcpts) cur s =
     (case rcpt_queue rcpt of
        None \<Rightarrow> assign_loop conf m rcpts cur s
      | Some q \<Rightarrow> obind (assign_recipient conf m rcpt q cur s)
                   (\<lambda>((j, p), s). assign_loop conf m rcpts (Some (j, Some p)) s))"

text \<open>Invalidate the candidate cache of every job that can deliver and is not blocked.\<close>

definition invalidate_cache :: "job_id \<Rightarrow> qmgr \<Rightarrow> qmgr" where
  "invalidate_cache j s =
     (if j_selected_entries (jobs s j) < j_read_entries (jobs s j)
         \<and> j_blocker_tag (jobs s j) \<noteq> t_blocker_tag (job_transport s j)
      then upd_transport (j_transport (jobs s j)) (\<lambda>x. x\<lparr>t_candidate_cache_current := None\<rparr>) s else s)"

definition qmgr_message_assign :: "config \<Rightarrow> message_id \<Rightarrow> qmgr \<Rightarrow> qmgr outcome" where
  "qmgr_message_assign conf m s =
     obind (assign_loop conf m (m_rcpt_list (messages s m)) None s) (\<lambda>s.
       let s = upd_message m (\<lambda>x. x\<lparr>m_rcpt_list := []\<rparr>) s
       in Ret (fold invalidate_cache (m_job_list (messages s m)) s))"

definition qmgr_message_move_limits :: "message_id \<Rightarrow> qmgr \<Rightarrow> qmgr" where
  "qmgr_message_move_limits m s = fold qmgr_job_move_limits (m_job_list (messages s m)) s"

text \<open>
  The jobs of a message are freed from the head of the list until it is empty. Each job takes itself
  off the list, so that the number of jobs bounds the number of rounds; \<open>Diverge\<close> would mean that
  it does not.
\<close>

fun free_jobs :: "nat \<Rightarrow> message_id \<Rightarrow> qmgr \<Rightarrow> qmgr outcome" where
  "free_jobs n m s =
     (case m_job_list (messages s m) of
        [] \<Rightarrow> Ret s
      | j # _ \<Rightarrow> (case n of 0 \<Rightarrow> Diverge | Suc n \<Rightarrow> obind (qmgr_job_free j s) (free_jobs n m)))"

definition qmgr_message_free :: "message_id \<Rightarrow> qmgr \<Rightarrow> qmgr outcome" where
  "qmgr_message_free m s =
     (if m_refcount (messages s m) \<noteq> 0 then Panic ''qmgr_message_free''
      else if m_fp (messages s m) then Panic ''qmgr_message_free''
      else obind (free_jobs (length (m_job_list (messages s m))) m s) (\<lambda>s.
        let s = upd_message m (\<lambda>x. x\<lparr>m_rcpt_list := []\<rparr>) s;
            s = s\<lparr>message_count := message_count s - 1\<rparr>
        in Ret (myfree Message_obj m s)))"

section \<open>Assignment keeps the invariant\<close>

text \<open>What the loop relies on: the destination queues stay linked and alive.\<close>

definition deliverable :: "qmgr \<Rightarrow> queue_id \<Rightarrow> bool" where
  "deliverable s q \<longleftrightarrow> queue_linked s q \<and> \<not> QMGR_QUEUE_THROTTLED (queues s q)"

definition keeps_deliverable :: "qmgr \<Rightarrow> qmgr \<Rightarrow> bool" where
  "keeps_deliverable s s' \<longleftrightarrow> (\<forall>q. deliverable s q \<longrightarrow> deliverable s' q \<and> q_transport (queues s' q) = q_transport (queues s q)
     \<and> q_name (queues s' q) = q_name (queues s q))"

text \<open>The current job and peer of the loop.\<close>

definition cursor_ok :: "qmgr \<Rightarrow> (job_id \<times> peer_id option) option \<Rightarrow> bool" where
  "cursor_ok s cur \<longleftrightarrow> (case cur of None \<Rightarrow> True | Some (j, peer) \<Rightarrow> j < heap_next s
     \<and> (case peer of None \<Rightarrow> True | Some p \<Rightarrow> peer_ready s j (p_queue (peers s p)) p))"

lemma job_frame_deliverable: "job_frame s s' \<Longrightarrow> keeps_deliverable s s'"
  using blocker_tag_reset_eq [of "queues s' q" "queues s q" for q] queue_linked_cong [of s' s]
  by (fastforce simp: job_frame_def keeps_deliverable_def deliverable_def queue_status_defs)

lemma assign_job_full:
  assumes good: "qmgr_good s" and cur: "cursor_ok s cur"
  shows "returns (assign_job m q cur s) (\<lambda>(j, peer, s'). qmgr_good s' \<and> keeps_deliverable s s'
    \<and> cursor_ok s' (Some (j, peer)) \<and> j_transport (jobs s' j) = q_transport (queues s q))"
proof -
  have "returns (obind (qmgr_job_obtain m (q_transport (queues s q)) s) (\<lambda>(j, s). Ret (j, None :: peer_id option, s)))
     (\<lambda>(j, peer, s'). qmgr_good s' \<and> keeps_deliverable s s'
       \<and> cursor_ok s' (Some (j, peer)) \<and> j_transport (jobs s' j) = q_transport (queues s q))"
    unfolding returns_obind
    by (rule returns_mono [OF job_obtain_full [OF good]]) (auto simp: cursor_ok_def job_frame_deliverable)
  then show ?thesis
    using good cur by (auto simp: assign_job_def Let_def keeps_deliverable_def split: option.split)
qed

lemma peer_ready_queue: "peer_ready s j q p \<Longrightarrow> p_queue (peers s p) = q"
  by (simp add: peer_ready_def)

lemma assign_peer_full:
  assumes good: "qmgr_good s" and cur: "cursor_ok s (Some (j, peer))" and d: "deliverable s q"
    and xp: "j_transport (jobs s j) = q_transport (queues s q)" and ret: "assign_peer j q peer s = (p, s')"
  obtains X where "qmgr_full (\<lambda>_. 0) X s'" and "X \<subseteq> {p}" and "peer_ready s' j q p" and "X = {} \<or> p_entry_list (peers s' p) = []"
    and "queues s' = queues s" and "entries s' = entries s" and "transports s' = transports s" and "heap_next s \<le> heap_next s'"
    and "messages s' = messages s"
proof (cases "\<exists>r. peer = Some r \<and> q = p_queue (peers s r)")
  case True
  then show ?thesis
    using assms that [of "{}"] by (auto simp: assign_peer_def cursor_ok_def)
next
  case False
  then have ob: "qmgr_peer_obtain j q s = (p, s')" using ret by (auto simp: assign_peer_def split: option.splits if_splits)
  have l: "queue_linked s q" "j < heap_next s" using d cur by (simp_all add: deliverable_def cursor_ok_def)
  show ?thesis
  proof (cases "qmgr_peer_find j q s")
    case None
    then have c: "qmgr_peer_create j q s = (p, s')" using ob by (simp add: qmgr_peer_obtain_def)
    show ?thesis
      using peer_create_full [OF good l _ None c] xp c
      by (intro that [of "{p}"]) (auto simp: qmgr_peer_create_def Let_def)
  next
    case (Some r)
    then have "r = p" "s' = s" using ob by (simp_all add: qmgr_peer_obtain_def)
    then show ?thesis
      using peer_find_full [OF good l(1) _ Some] xp good by (intro that [of "{}"]) simp_all
  qed
qed

text \<open>The entry for the recipient: created, or the last one on the list of the peer.\<close>

lemma assign_entry_full:
  assumes full: "qmgr_full (\<lambda>_. 0) X s" and X: "X \<subseteq> {p}" "X = {} \<or> p_entry_list (peers s p) = []"
    and ready: "peer_ready s j q p" and d: "deliverable s q"
  shows "returns (assign_entry conf m q p s) (\<lambda>(e, s'). qmgr_good s' \<and> keeps_deliverable s s'
    \<and> peer_ready s' j q p \<and> heap_next s \<le> heap_next s' \<and> e_queue (entries s' e) = q)"
proof -
  have create: "returns (qmgr_entry_create conf p m s) (\<lambda>(e, s'). qmgr_good s' \<and> keeps_deliverable s s'
    \<and> peer_ready s' j q p \<and> heap_next s \<le> heap_next s' \<and> e_queue (entries s' e) = q)"
  proof -
    have p: "p_queue (peers s p) = q" "p_job (peers s p) = j" using ready by (simp_all add: peer_ready_def)
    have l: "queue_linked s q" "\<not> QMGR_QUEUE_THROTTLED (queues s q)" using d by (simp_all add: deliverable_def)
    obtain e s' where ret: "qmgr_entry_create conf p m s = Ret (e, s')" and g: "qmgr_good s'" "e_queue (entries s' e) = q"
      using entry_create_full [OF full X(1) l(1) ready l(2), of conf m] by (auto simp: returns_def)
    show ?thesis
      by (rule entry_create_Ret [OF l(2) p refl, of conf m])
        (use ret g ready in \<open>auto simp: keeps_deliverable_def deliverable_def queue_linked_def queue_status_defs peer_ready_def\<close>)
  qed
  show ?thesis
  proof (cases "p_entry_list (peers s p) = []")
    case True
    then show ?thesis using create by (simp add: assign_entry_def)
  next
    case False
    then obtain e es where es: "rev (p_entry_list (peers s p)) = e # es" by (cases "rev (p_entry_list (peers s p))") auto
    then have e: "e \<in> set (p_entry_list (peers s p))" by (metis list.set_intros(1) set_rev)
    have good: "qmgr_good s" using full X(2) False by auto
    then have "entries_inv s" by (simp add: qmgr_full_def qmgr_inv_def)
    then have "e_queue (entries s e) = q"
      using entries_invD(4) [of s e p] entries_invD(1) [of s e "p_queue (peers s p)"] e ready by (auto simp: on_queue_def peer_ready_def)
    then show ?thesis
      using create good ready by (simp add: assign_entry_def es keeps_deliverable_def)
  qed
qed

lemma add_recipient_full:
  assumes "qmgr_good s"
  shows "qmgr_good (add_recipient m j e rcpt s)"
proof -
  let ?s = "s\<lparr>entries := (entries s)(e := (entries s e)\<lparr>e_rcpt_list := recipient_list_add (e_rcpt_list (entries s e)) rcpt\<rparr>)\<rparr>"
  have "qmgr_good ?s" by (rule entries_rcpt_full [OF assms]) simp
  moreover have "same_core ?s (add_recipient m j e rcpt s)"
    by (simp add: add_recipient_def Let_def same_core_def)
  ultimately show ?thesis by (rule same_core_full [rotated])
qed

lemma keeps_deliverable_trans: "keeps_deliverable s s' \<Longrightarrow> keeps_deliverable s' s'' \<Longrightarrow> keeps_deliverable s s''"
  by (auto simp: keeps_deliverable_def)

lemma add_recipient_frame:
  "keeps_deliverable s (add_recipient m j e rcpt s)" "peer_ready (add_recipient m j e rcpt s) = peer_ready s"
  "peers (add_recipient m j e rcpt s) = peers s" "heap_next (add_recipient m j e rcpt s) = heap_next s"
  by (auto simp: add_recipient_def Let_def keeps_deliverable_def deliverable_def queue_linked_def queue_status_defs
      peer_ready_def fun_eq_iff)

lemma assign_recipient_full:
  assumes good: "qmgr_good s" and cur: "cursor_ok s cur" and d: "deliverable s q"
  shows "returns (assign_recipient conf m rcpt q cur s)
    (\<lambda>((j, p), s'). qmgr_good s' \<and> keeps_deliverable s s' \<and> cursor_ok s' (Some (j, Some p)))"
  unfolding assign_recipient_def returns_obind
proof (rule returns_mono [OF assign_job_full [OF good cur, of m q]], goal_cases)
  case (1 r)
  obtain j peer s1 where r: "r = (j, peer, s1)" by (cases r)
  with 1 have g1: "qmgr_good s1" and k1: "keeps_deliverable s s1" and c1: "cursor_ok s1 (Some (j, peer))"
    and xp: "j_transport (jobs s1 j) = q_transport (queues s q)" by simp_all
  have d1: "deliverable s1 q" "q_transport (queues s1 q) = q_transport (queues s q)"
    using k1 d by (simp_all add: keeps_deliverable_def)
  obtain p s2 where p: "assign_peer j q peer s1 = (p, s2)" by fastforce
  obtain X where X: "qmgr_full (\<lambda>_. 0) X s2" "X \<subseteq> {p}" "peer_ready s2 j q p" "X = {} \<or> p_entry_list (peers s2 p) = []"
    "queues s2 = queues s1" "entries s2 = entries s1" "transports s2 = transports s1" "heap_next s1 \<le> heap_next s2"
    "messages s2 = messages s1"
    by (rule assign_peer_full [OF g1 c1 d1(1) xp [folded d1(2)] p])
  have k2: "keeps_deliverable s1 s2" and d2: "deliverable s2 q"
    using d1(1) X(5,7) by (auto simp: keeps_deliverable_def deliverable_def queue_linked_def)
  have j: "j < heap_next s2" using c1 X(8) by (simp add: cursor_ok_def)
  have "returns (assign_entry conf m q p s2) (\<lambda>(e, s3). qmgr_good (add_recipient m j e rcpt s3)
      \<and> keeps_deliverable s (add_recipient m j e rcpt s3) \<and> cursor_ok (add_recipient m j e rcpt s3) (Some (j, Some p)))"
  proof (rule returns_mono [OF assign_entry_full [OF X(1,2,4,3) d2]], goal_cases)
    case (1 r)
    obtain e s3 where r: "r = (e, s3)" by (cases r)
    with 1 have a: "qmgr_good s3" "keeps_deliverable s2 s3" "peer_ready s3 j q p" "heap_next s2 \<le> heap_next s3" by simp_all
    have "keeps_deliverable s (add_recipient m j e rcpt s3)"
      by (rule keeps_deliverable_trans [OF k1 keeps_deliverable_trans [OF k2
            keeps_deliverable_trans [OF a(2) add_recipient_frame(1)]]])
    moreover have "j < heap_next s3" using j a(4) by simp
    ultimately show ?case
      using add_recipient_full [OF a(1)] peer_ready_queue [OF a(3)] a(3) by (simp add: r cursor_ok_def add_recipient_frame(2-4))
  qed
  then show ?case by (simp add: r p returns_obind split_def)
qed

lemma assign_loop_full:
  assumes "qmgr_good s" and "cursor_ok s cur" and "\<And>r q. r \<in> set rcpts \<Longrightarrow> rcpt_queue r = Some q \<Longrightarrow> deliverable s q"
  shows "returns (assign_loop conf m rcpts cur s) qmgr_good"
  using assms
proof (induction rcpts arbitrary: cur s)
  case (Cons r rcpts)
  show ?case
  proof (cases "rcpt_queue r")
    case (Some q)
    have "returns (assign_recipient conf m r q cur s)
        (\<lambda>((j, p), s'). returns (assign_loop conf m rcpts (Some (j, Some p)) s') qmgr_good)"
    proof (rule returns_mono [OF assign_recipient_full [OF Cons.prems(1,2)]], goal_cases)
      case 1
      then show ?case using Cons.prems(3) [of r q] Some by simp
    next
      case (2 r)
      then show ?case using Cons.prems(3) by (auto simp: keeps_deliverable_def intro!: Cons.IH)
    qed
    then show ?thesis using Some by (simp add: returns_obind split_def)
  qed (use Cons in auto)
qed simp

lemma invalidate_cache_core: "same_core s (invalidate_cache j s)"
  by (simp add: invalidate_cache_def)

lemma message_assign_full:
  assumes "qmgr_good s" and "\<And>r q. r \<in> set (m_rcpt_list (messages s m)) \<Longrightarrow> rcpt_queue r = Some q \<Longrightarrow> deliverable s q"
  shows "returns (qmgr_message_assign conf m s) qmgr_good"
proof -
  have "qmgr_good (fold invalidate_cache js s')" if "qmgr_good s'" for js s'
    by (rule fold_preserves [where P = qmgr_good]) (auto intro: that same_core_full [OF invalidate_cache_core])
  then show ?thesis
    unfolding qmgr_message_assign_def returns_obind
    by (intro returns_mono [OF assign_loop_full [OF assms(1)]])
      (use assms(2) message_refcount_full in \<open>auto simp: cursor_ok_def Let_def\<close>)
qed

end
