(* ===== verification/Qmgr_Machine.thy ===== *)
theory Qmgr_Machine
  imports Qmgr_Message Qmgr_Order
begin

text \<open>
  The queue manager as a transition system. Each event is one call that the event loop, the message
  reader or the delivery cycle makes into the modules of the earlier theories, with the condition
  under which the source makes that call. The invariant holds in every state that any interleaving
  of events can reach, and no call that is enabled there fails a consistency check.
\<close>

section \<open>Events\<close>

datatype qmgr_event =
    Ev_clock int
  | Ev_queue_create transport_id string string
  | Ev_queue_resume queue_id
  | Ev_queue_unthrottle_timer queue_id
  | Ev_queue_throttle queue_id dsn
  | Ev_queue_feedback queue_id
  | Ev_enable_queue queue_id
  | Ev_resolve message_id "recipient list"
  | Ev_assign message_id
  | Ev_select job_id
  | Ev_stream entry_id "vstream option"
  | Ev_unselect entry_id
  | Ev_done entry_id which_queue
  | Ev_move_todo queue_id entry_id
  | Ev_count_slots job_id
  | Ev_preempt job_id
  | Ev_retire job_id

text \<open>The peer and the entry that the scheduler picks for a job.\<close>

definition select_entry :: "job_id \<Rightarrow> qmgr \<Rightarrow> qmgr" where
  "select_entry j s =
     (case qmgr_peer_select j s of (None, s) \<Rightarrow> s | (Some p, s) \<Rightarrow> snd (qmgr_entry_select p s))"

fun qmgr_handle :: "active_done \<Rightarrow> config \<Rightarrow> qmgr_event \<Rightarrow> qmgr \<Rightarrow> qmgr outcome" where
  "qmgr_handle ad conf (Ev_clock now) s = Ret (s\<lparr>event_now := now, sane_now := max now (sane_now s)\<rparr>)"
| "qmgr_handle ad conf (Ev_queue_create t name nexthop) s = Ret (snd (qmgr_queue_create t name nexthop s))"
| "qmgr_handle ad conf (Ev_queue_resume q) s = qmgr_queue_resume q (event_cancel_timer (Tm_queue_resume q) s)"
| "qmgr_handle ad conf (Ev_queue_unthrottle_timer q) s =
     qmgr_queue_unthrottle_wrapper q (event_cancel_timer (Tm_queue_unthrottle q) s)"
| "qmgr_handle ad conf (Ev_queue_throttle q dsn) s = qmgr_queue_throttle conf q dsn s"
| "qmgr_handle ad conf (Ev_queue_feedback q) s = qmgr_queue_unthrottle q s"
| "qmgr_handle ad conf (Ev_enable_queue q) s = qmgr_enable_queue q s"
| "qmgr_handle ad conf (Ev_resolve m rcpts) s = Ret (upd_message m (\<lambda>x. x\<lparr>m_rcpt_list := rcpts\<rparr>) s)"
| "qmgr_handle ad conf (Ev_assign m) s = qmgr_message_assign conf m s"
| "qmgr_handle ad conf (Ev_select j) s = Ret (select_entry j s)"
| "qmgr_handle ad conf (Ev_stream e st) s = Ret (upd_entry e (\<lambda>x. x\<lparr>e_stream := st\<rparr>) s)"
| "qmgr_handle ad conf (Ev_unselect e) s = Ret (qmgr_entry_unselect e s)"
| "qmgr_handle ad conf (Ev_done e which) s = qmgr_entry_done ad conf e which s"
| "qmgr_handle ad conf (Ev_move_todo q e) s = qmgr_entry_move_todo ad conf q e s"
| "qmgr_handle ad conf (Ev_count_slots j) s = Ret (qmgr_job_count_slots j s)"
| "qmgr_handle ad conf (Ev_preempt j) s = obind (qmgr_job_preempt j s) (\<lambda>(_, s). Ret s)"
| "qmgr_handle ad conf (Ev_retire j) s = qmgr_job_retire j s"

text \<open>When the source makes the call.\<close>

fun qmgr_enabled :: "qmgr_event \<Rightarrow> qmgr \<Rightarrow> bool" where
  "qmgr_enabled (Ev_clock now) s \<longleftrightarrow> True"
| "qmgr_enabled (Ev_queue_create t name nexthop) s \<longleftrightarrow>
     transport_ok (transports s t) \<and> qmgr_queue_find t name s = None"
| "qmgr_enabled (Ev_queue_resume q) s \<longleftrightarrow> timers s (Tm_queue_resume q) \<noteq> None"
| "qmgr_enabled (Ev_queue_unthrottle_timer q) s \<longleftrightarrow> timers s (Tm_queue_unthrottle q) \<noteq> None"
| "qmgr_enabled (Ev_queue_throttle q dsn) s \<longleftrightarrow> queue_linked s q \<and> QMGR_QUEUE_READY (queues s q) \<and> dsn_ok dsn"
| "qmgr_enabled (Ev_queue_feedback q) s \<longleftrightarrow> queue_linked s q \<and> q_busy (queues s q) \<noteq> []"
| "qmgr_enabled (Ev_enable_queue q) s \<longleftrightarrow> queue_linked s q"
| "qmgr_enabled (Ev_resolve m rcpts) s \<longleftrightarrow> True"
| "qmgr_enabled (Ev_assign m) s \<longleftrightarrow>
     list_all (\<lambda>r. case rcpt_queue r of None \<Rightarrow> True | Some q \<Rightarrow> deliverable s q) (m_rcpt_list (messages s m))"
| "qmgr_enabled (Ev_select j) s \<longleftrightarrow> True"
| "qmgr_enabled (Ev_stream e st) s \<longleftrightarrow> e \<in> set (q_busy (queues s (e_queue (entries s e))))"
| "qmgr_enabled (Ev_unselect e) s \<longleftrightarrow> e \<in> set (q_busy (queues s (e_queue (entries s e))))"
| "qmgr_enabled (Ev_done e which) s \<longleftrightarrow>
     e \<in> set (which_list which (queues s (e_queue (entries s e)))) \<and> e_stream (entries s e) = None"
| "qmgr_enabled (Ev_move_todo q e) s \<longleftrightarrow>
     e \<in> set (q_todo (queues s (e_queue (entries s e)))) \<and> e_stream (entries s e) = None
     \<and> queue_linked s q \<and> \<not> QMGR_QUEUE_THROTTLED (queues s q) \<and> \<not> QMGR_TRANSPORT_THROTTLED (queue_transport s q)"
| "qmgr_enabled (Ev_count_slots j) s \<longleftrightarrow> True"
| "qmgr_enabled (Ev_preempt j) s \<longleftrightarrow> True"
| "qmgr_enabled (Ev_retire j) s \<longleftrightarrow> True"

text \<open>The calls whose consistency checks concern queues, peers and entries.\<close>

fun queue_event :: "qmgr_event \<Rightarrow> bool" where
  "queue_event (Ev_preempt j) = False"
| "queue_event (Ev_retire j) = False"
| "queue_event _ = True"

inductive qmgr_step :: "active_done \<Rightarrow> config \<Rightarrow> qmgr \<Rightarrow> qmgr \<Rightarrow> bool" for ad conf where
  step: "qmgr_enabled ev s \<Longrightarrow> qmgr_handle ad conf ev s = Ret s' \<Longrightarrow> qmgr_step ad conf s s'"

inductive_cases qmgr_stepE: "qmgr_step ad conf s s'"

text \<open>A process that has started: transports are configured, and there is no mail yet.\<close>

definition qmgr_started :: "qmgr \<Rightarrow> bool" where
  "qmgr_started s \<longleftrightarrow> (\<exists>xs. s = qmgr_initial\<lparr>transports := xs\<rparr>
     \<and> (\<forall>t. t_queue_list (xs t) = [] \<and> t_queue_byname (xs t) = Map.empty \<and> t_job_byname (xs t) = Map.empty))"

section \<open>Every event keeps the invariant\<close>

lemma peer_select_core:
  "qmgr_peer_select j s = (p, s') \<Longrightarrow> same_core s s' \<and> (\<forall>q. p = Some q \<longrightarrow> peer_suitable s q \<and> queues s' = queues s)"
  by (auto simp: qmgr_peer_select_def extract_Some_iff split: option.splits)

lemma select_entry_full:
  assumes "qmgr_good s"
  shows "qmgr_good (select_entry j s)"
proof -
  obtain p s1 where p: "qmgr_peer_select j s = (p, s1)" by fastforce
  have g: "qmgr_good s1" using same_core_full [OF _ assms] peer_select_core [OF p] by blast
  show ?thesis
  proof (cases p)
    case (Some r)
    then have "peer_suitable s1 r" using peer_select_core [OF p] by (simp add: peer_suitable_def same_core_def)
    then show ?thesis using entry_select_full [OF g] p Some by (simp add: select_entry_def)
  qed (use p g in \<open>simp add: select_entry_def\<close>)
qed

lemma clock_full: "qmgr_full d X s \<Longrightarrow> qmgr_full d X (s\<lparr>event_now := a, sane_now := b\<rparr>)"
  by (rule same_core_full) (simp_all add: same_core_def)

lemma idle_queue_full:
  assumes "qmgr_good s" and "queue_linked s q"
  shows "returns (if queue_idle (queues s q) then qmgr_queue_done q s else Ret s) qmgr_good"
  using queue_done_full [OF assms] assms by simp

lemma enable_queue_full:
  assumes good: "qmgr_good s" and linked: "queue_linked s q"
  shows "returns (qmgr_enable_queue q s) qmgr_good"
proof -
  have "returns (if QMGR_QUEUE_THROTTLED (queues s q) then qmgr_queue_unthrottle q s else Ret s)
      (\<lambda>s'. qmgr_good s' \<and> queue_linked s' q)"
    using returns_mono [OF unthrottle_full [OF good linked]] good linked by (auto simp: queue_status_defs)
  then show ?thesis
    unfolding qmgr_enable_queue_def returns_obind by (rule returns_mono) (simp add: idle_queue_full)
qed

text \<open>
  A timer call-back runs after its timer is taken off the list. For a moment the timers and the
  queue status disagree, so the handler is compared with one that cancels the timer itself.
\<close>

lemma timer_unthrottle_full:
  assumes good: "qmgr_good s" and timer: "timers s (Tm_queue_unthrottle q) \<noteq> None"
  shows "returns (qmgr_queue_unthrottle_wrapper q (event_cancel_timer (Tm_queue_unthrottle q) s)) qmgr_good"
proof -
  have qi: "queues_inv s" using good by (simp add: qmgr_full_def qmgr_inv_def)
  have linked: "queue_linked s q" and dead: "QMGR_QUEUE_THROTTLED (queues s q)"
    using queues_invD(2) [OF qi, of q] timer by (simp_all add: queue_timers_ok_def)
  have "qmgr_queue_unthrottle q (event_cancel_timer (Tm_queue_unthrottle q) s) = qmgr_queue_unthrottle q s"
    using dead by (simp add: qmgr_queue_unthrottle_def Let_def queue_status_defs)
  then show ?thesis
    unfolding qmgr_queue_unthrottle_wrapper_def returns_obind
    using returns_mono [OF unthrottle_full [OF good linked]] dead idle_queue_full
    by (simp add: queue_status_defs)
qed

lemma timer_resume_full:
  assumes good: "qmgr_good s" and timer: "timers s (Tm_queue_resume q) \<noteq> None"
  shows "returns (qmgr_queue_resume q (event_cancel_timer (Tm_queue_resume q) s)) qmgr_good"
proof -
  have qi: "queues_inv s" using good by (simp add: qmgr_full_def qmgr_inv_def)
  have linked: "queue_linked s q" and susp: "QMGR_QUEUE_SUSPENDED (queues s q)"
    using queues_invD(2) [OF qi, of q] timer by (simp_all add: queue_timers_ok_def)
  note qd = queue_linkedD [OF qi linked] and tm = queue_timers_linked [OF qi linked]
  let ?qu = "(queues s q)\<lparr>q_window := 1\<rparr>"
  let ?s = "s\<lparr>timers := (timers s)(Tm_queue_resume q := None), queues := (queues s)(q := ?qu)\<rparr>"
  have "queues_inv ?s"
    by (rule queues_inv_local [OF qi linked, where qu = ?qu])
      (use qd(1,2) tm susp in \<open>auto simp: queue_ok_def transport_ok_def queue_status_defs\<close>)
  moreover have "quiet s ?s" by (rule quietI) auto
  ultimately have g: "qmgr_good ?s" and l: "queue_linked ?s q"
    using quiet_full [OF good] linked by (auto simp: quiet_def)
  then show ?thesis
    using susp queue_done_full [OF g l] blocker_update_full [OF g l]
    by (simp add: qmgr_queue_resume_def Let_def)
qed

lemma queue_create_full:
  assumes good: "qmgr_good s" and xp: "transport_ok (transports s t)" and new: "qmgr_queue_find t name s = None"
  shows "qmgr_good (snd (qmgr_queue_create t name nexthop s))"
proof -
  let ?s' = "snd (qmgr_queue_create t name nexthop s)" and ?q = "heap_next s"
  have qi: "queues_inv s" and ei: "entries_inv s" and rf: "refs (\<lambda>_. 0) s" and pi: "peers_inv {} s" and jn: "jobs_named s"
    using good by (simp_all add: qmgr_full_def qmgr_inv_def)
  have fresh: "?q \<notin> set (t_queue_list (transports s u))" for u
    using queues_invD(3) [OF qi, of u] by (auto simp: queue_list_ok_def)
  then have empty: "q_todo (queues s ?q) = []" "q_busy (queues s ?q) = []"
    using entries_invD(1) [OF ei, of _ ?q] unfolding queue_linked_def set_empty [symmetric]
    by (meson UnCI equals0I)+
  have eqs: "entries ?s' = entries s" "peers ?s' = peers s" "jobs ?s' = jobs s" "heap_freed ?s' = heap_freed s"
    "heap_next ?s' = Suc ?q" "p \<noteq> ?q \<Longrightarrow> queues ?s' p = queues s p"
    "t_job_byname (transports ?s' u) = t_job_byname (transports s u)" for p u
    by (simp_all add: qmgr_queue_create_def Let_def)
  have lists: "q_todo (queues ?s' p) = q_todo (queues s p)" "q_busy (queues ?s' p) = q_busy (queues s p)" for p
    using empty by (cases "p = ?q"; simp add: qmgr_queue_create_def Let_def)+
  have link: "queue_linked s p \<Longrightarrow> queue_linked ?s' p \<and> p \<noteq> ?q" for p
    using fresh by (auto simp: queue_linked_def qmgr_queue_create_def Let_def)
  have "queues_inv ?s'" by (rule qmgr_queue_create_inv(1) [OF qi xp new])
  moreover have "entries_inv ?s'"
  proof -
    have "on_queue s e p \<Longrightarrow> on_queue ?s' e p" "on_peer ?s' e r = on_peer s e r" for e p r
      by (auto simp: on_queue_def on_peer_def eqs(1-5))
    then show ?thesis using ei link unfolding entries_inv_def lists eqs(1,2) by blast
  qed
  moreover have "refs (\<lambda>_. 0) ?s'" using rf by (simp add: refs_def peer_entries_def eqs(1,2) lists)
  moreover have "peers_inv {} ?s'"
  proof -
    have "peer_named ?s' k nm p" if "peer_named s k nm p" for k nm p
      using that link [of "p_queue (peers s p)"] by (auto simp: peer_named_def eqs)
    moreover have "on_job ?s' p e" if "on_job s p e" "queue_linked s p" for p e
      using that link [of p] by (simp add: on_job_def eqs)
    ultimately show ?thesis
      using pi entries_invD(1) [OF ei] unfolding peers_inv_def lists eqs(1-3) by (metis UnCI set_append Un_iff)
  qed
  moreover have "jobs_named ?s'" using jn by (fastforce simp: jobs_named_def eqs)
  ultimately show ?thesis by (simp add: qmgr_full_def qmgr_inv_def)
qed

lemma started_good:
  assumes "qmgr_started s"
  shows "qmgr_good s"
proof -
  obtain xs where s: "s = qmgr_initial\<lparr>transports := xs\<rparr>"
    and xs: "\<And>t. t_queue_list (xs t) = [] \<and> t_queue_byname (xs t) = Map.empty \<and> t_job_byname (xs t) = Map.empty"
    using assms by (auto simp: qmgr_started_def)
  have "queues_inv s"
    by (simp add: s xs queues_inv_def queue_linked_def queue_timers_ok_def queue_list_ok_def blank_defs)
  moreover have "entries_inv s" by (simp add: s entries_inv_def blank_defs)
  moreover have "refs (\<lambda>_. 0) s" by (simp add: s refs_def peer_entries_def blank_defs)
  moreover have "peers_inv {} s" by (simp add: s peers_inv_def blank_defs)
  moreover have "jobs_named s" by (simp add: s xs jobs_named_def)
  ultimately show ?thesis by (simp add: qmgr_full_def qmgr_inv_def)
qed

lemma preempt_core:
  assumes "qmgr_job_preempt j s = Ret (k, s')"
  shows "same_core s s'"
  using assms
proof (cases rule: preempt_cases)
  case stay
  then show ?thesis using candidate_core by auto
next
  case (push s1 s2)
  have "same_core s1 s2" using push(6) by (auto split: if_splits dest: job_pop_core)
  moreover have "same_core s2 (stack_push k j t n s2)" for t n
    by (simp add: same_core_def stack_push_def Let_def RESET_CANDIDATE_CACHE_def)
  ultimately have "same_core s1 s'" using push(7) same_core_trans by auto
  then show ?thesis using candidate_core [OF push(1)] by (rule same_core_trans [rotated])
qed

text \<open>No event breaks the invariant, and no queue event fails a consistency check.\<close>

lemma handle_returns:
  assumes good: "qmgr_good s" and disp: "disposes ad" and en: "qmgr_enabled ev s" and "queue_event ev"
  shows "returns (qmgr_handle ad conf ev s) qmgr_good"
proof (cases ev)
  case (Ev_queue_feedback q)
  have "queues_inv s" using good by (simp add: qmgr_full_def qmgr_inv_def)
  then have "\<not> QMGR_QUEUE_SUSPENDED (queues s q)"
    using en Ev_queue_feedback queue_linkedD(2) by (auto simp: queue_ok_def)
  then show ?thesis using returns_mono [OF unthrottle_full [OF good]] en Ev_queue_feedback by simp
next
  case (Ev_queue_throttle q dsn)
  then show ?thesis using returns_mono [OF throttle_full [OF good]] en by simp
next
  case (Ev_stream e st)
  then show ?thesis by (simp add: entries_rcpt_full [OF good])
next
  case (Ev_queue_resume q)
  then show ?thesis using timer_resume_full [OF good, of q] en by simp
next
  case (Ev_queue_unthrottle_timer q)
  then show ?thesis using timer_unthrottle_full [OF good, of q] en by simp
next
  case (Ev_assign m)
  then show ?thesis
    using message_assign_full [OF good, of m conf] en by (fastforce simp: list_all_iff)
next
  case (Ev_resolve m rcpts)
  then show ?thesis using good message_refcount_full by auto
next
  case (Ev_count_slots j)
  then show ?thesis using same_core_full [OF _ good] by simp
qed (use assms in \<open>simp_all add: clock_full queue_create_full
    enable_queue_full select_entry_full entry_unselect_full qmgr_entry_done_full
    qmgr_entry_move_todo_full\<close>)

lemma handle_keeps:
  assumes good: "qmgr_good s" and disp: "disposes ad" and en: "qmgr_enabled ev s"
    and ret: "qmgr_handle ad conf ev s = Ret s'"
  shows "qmgr_good s'"
proof (cases "queue_event ev")
  case True
  then show ?thesis using handle_returns [OF good disp en, of conf] ret by (simp add: returns_def)
next
  case False
  then have "same_core s s'" using ret by (cases ev) (auto dest: preempt_core job_retire_core)
  then show ?thesis using good by (rule same_core_full)
qed


section \<open>Every reachable state\<close>

interpretation qmgr_daemon: transition_system qmgr_started
  "\<lambda>s s'. \<exists>ad conf. disposes ad \<and> qmgr_step ad conf s s'" qmgr_good
  by unfold_locales (auto intro: started_good elim!: qmgr_stepE intro: handle_keeps)

lemma reachable_good:
  assumes "qmgr_started s0" and "disposes ad" and "(qmgr_step ad conf)\<^sup>*\<^sup>* s0 s"
  shows "qmgr_good s"
proof (rule qmgr_daemon.inv_reachable [OF assms(1)])
  show "(\<lambda>s s'. \<exists>ad conf. disposes ad \<and> qmgr_step ad conf s s')\<^sup>*\<^sup>* s0 s"
    by (rule rtranclp_mono [THEN predicate2D, OF _ assms(3)]) (use assms(2) in auto)
qed


definition demo_start :: qmgr where
  "demo_start = qmgr_initial\<lparr>transports := (\<lambda>_. blank_transport\<lparr>t_dest_concurrency_limit := 1, t_fail_cohort_limit := 1\<rparr>)\<rparr>"

definition demo_queue :: qmgr where
  "demo_queue = snd (qmgr_queue_create 0 ''example.com'' ''example.com'' demo_start)"

lemma demo_started: "qmgr_started demo_start"
  by (auto simp: qmgr_started_def demo_start_def blank_defs)

lemma demo_transport_ok: "transport_ok (transports demo_start 0)"
  by (simp add: demo_start_def transport_ok_def blank_defs)

lemma demo_disposes: "disposes (\<lambda>m. Ret)"
  by (simp add: disposes_def)

lemma demo_reachable: "(qmgr_step (\<lambda>m. Ret) demo_conf)\<^sup>*\<^sup>* demo_start demo_queue"
proof (rule r_into_rtranclp, rule qmgr_step.step [where ev = "Ev_queue_create 0 ''example.com'' ''example.com''"])
  show "qmgr_enabled (Ev_queue_create 0 ''example.com'' ''example.com'') demo_start"
    using demo_transport_ok by (simp add: demo_start_def blank_defs qmgr_queue_find_def)
qed (simp add: demo_queue_def)

lemma demo_linked: "queue_linked demo_queue 0" "t_dest_concurrency_limit (queue_transport demo_queue 0) = 1"
  "QMGR_QUEUE_READY (queues demo_queue 0)"
  by (simp_all add: demo_queue_def demo_start_def queue_linked_def qmgr_queue_create_def Let_def blank_defs queue_status_defs)

definition demo_dsn :: dsn where
  "demo_dsn = \<lparr>dsn_status = ''4.4.1'', dsn_reason = ''connection timed out''\<rparr>"




lemma queue_done_queues: "qmgr_queue_done q s = Ret s' \<Longrightarrow> queues s' = queues s"
  by (auto simp: qmgr_queue_done_def Let_def split: if_splits)

lemma wrapper_ready:
  assumes "qmgr_queue_unthrottle_wrapper q (event_cancel_timer tm s) = Ret s'"
    and "QMGR_QUEUE_THROTTLED (queues s q)" and "transport_ok (queue_transport s q)"
  shows "QMGR_QUEUE_READY (queues s' q)"
  using assms
  by (auto simp: qmgr_queue_unthrottle_wrapper_def qmgr_queue_unthrottle_def Let_def queue_status_defs transport_ok_def
      split: if_splits dest!: queue_done_queues)

lemma resume_ready: "qmgr_queue_resume q s = Ret s' \<Longrightarrow> QMGR_QUEUE_READY (queues s' q)"
  by (auto simp: qmgr_queue_resume_def Let_def blocker_update_frame queue_status_defs
      split: if_splits dest!: queue_done_queues)



definition demo_dead :: qmgr where
  "demo_dead = (case qmgr_queue_throttle demo_conf 0 demo_dsn demo_queue of Ret s \<Rightarrow> s | _ \<Rightarrow> demo_queue)"

lemma demo_dead:
  "qmgr_queue_throttle demo_conf 0 demo_dsn demo_queue = Ret demo_dead"
  "queue_linked demo_dead 0" "\<not> QMGR_QUEUE_READY (queues demo_dead 0)"
  by (simp_all add: demo_dead_def demo_queue_def demo_start_def queue_linked_def qmgr_queue_create_def Let_def blank_defs
      queue_status_defs qmgr_queue_throttle_def count_fail_cohort_def DSN_COPY_def demo_dsn_def)

lemma demo_dead_reachable: "(qmgr_step (\<lambda>m. Ret) demo_conf)\<^sup>*\<^sup>* demo_start demo_dead"
proof (rule rtranclp.rtrancl_into_rtrancl [OF demo_reachable],
    rule qmgr_step.step [where ev = "Ev_queue_throttle 0 demo_dsn"])
  show "qmgr_enabled (Ev_queue_throttle 0 demo_dsn) demo_queue"
    using demo_linked by (simp add: dsn_ok_def demo_dsn_def)
qed (simp add: demo_dead)



definition demo_rcpt :: recipient where
  "demo_rcpt = \<lparr>rcpt_offset = 200, rcpt_dsn_orcpt = [], rcpt_dsn_notify = 0, rcpt_orig_addr = ''user@example.com'',
     rcpt_address = ''user@example.com'', rcpt_queue = Some 0\<rparr>"

definition demo_resolved :: qmgr where
  "demo_resolved = upd_message 7 (\<lambda>x. x\<lparr>m_rcpt_list := [demo_rcpt]\<rparr>) demo_queue"

definition demo_mail :: qmgr where
  "demo_mail = ret_of (qmgr_message_assign demo_conf 7 demo_resolved) demo_resolved"

lemma demo_assign: "\<exists>s. qmgr_message_assign demo_conf 7 demo_resolved = Ret s \<and> q_todo (queues s 0) = [3]"
  by (simp add: demo_resolved_def demo_rcpt_def qmgr_message_assign_def assign_recipient_def assign_job_def
      assign_peer_def assign_entry_def LIMIT_OK_def add_recipient_def invalidate_cache_def
      demo_queue_def demo_start_def qmgr_queue_create_def Let_def blank_defs
      queue_status_defs qmgr_job_obtain_def qmgr_job_find_def qmgr_job_create_def qmgr_job_link_def
      bytime_scan_def link_lists_def job_list_scan_def take_over_unread_def give_pool_def RESET_CANDIDATE_CACHE_def
      IS_BLOCKER_def qmgr_peer_obtain_def qmgr_peer_find_def qmgr_peer_create_def qmgr_entry_create_def clog_warning_def demo_conf_def)

lemma demo_mail:
  "qmgr_message_assign demo_conf 7 demo_resolved = Ret demo_mail" "q_todo (queues demo_mail 0) = [3]"
  using demo_assign by (auto simp: demo_mail_def ret_of_def)

lemma demo_mail_reachable: "(qmgr_step (\<lambda>m. Ret) demo_conf)\<^sup>*\<^sup>* demo_start demo_mail"
proof (rule rtranclp.rtrancl_into_rtrancl [OF rtranclp.rtrancl_into_rtrancl [OF demo_reachable]])
  show "qmgr_step (\<lambda>m. Ret) demo_conf demo_queue demo_resolved"
    by (rule qmgr_step.step [where ev = "Ev_resolve 7 [demo_rcpt]"]) (simp_all add: demo_resolved_def)
  have "deliverable demo_resolved 0"
    using demo_linked by (simp add: deliverable_def demo_resolved_def queue_linked_def queue_status_defs)
  then have "qmgr_enabled (Ev_assign 7) demo_resolved" by (simp add: demo_resolved_def demo_rcpt_def)
  then show "qmgr_step (\<lambda>m. Ret) demo_conf demo_resolved demo_mail"
    by (rule qmgr_step.step) (simp add: demo_mail)
qed


end
