(* ===== verification/Qmgr_Deliver.thy ===== *)
theory Qmgr_Deliver
  imports Qmgr_Transport Qmgr_Machine
begin

text \<open>
  The delivery cycle: \<^verbatim>\<open>src/src/qmgr/qmgr_deliver.c\<close> and \<^verbatim>\<open>qmgr_defer.c\<close>. What a
  delivery agent answers, and the delivery status that \<^verbatim>\<open>defer_append()\<close> returns when a
  recipient is logged, are arguments of the handlers.
\<close>

section \<open>Deferring mail\<close>

text \<open>The parameters of the model that the delivery cycle needs, in one record.\<close>

record env =
  env_process :: process
  env_strtod :: strtod
  env_conf :: config
  env_active_done :: active_done
  env_realloc :: message_realloc
  env_defer_append :: "message \<Rightarrow> recipient \<Rightarrow> dsn \<Rightarrow> 32 word"

definition qmgr_defer_recipient :: "env \<Rightarrow> message_id \<Rightarrow> recipient \<Rightarrow> dsn \<Rightarrow> qmgr \<Rightarrow> qmgr" where
  "qmgr_defer_recipient env m rcpt dsn s =
     upd_message m (\<lambda>x. x\<lparr>m_flags := m_flags x OR env_defer_append env x rcpt dsn\<rparr>) s"

text \<open>
  The loop over the todo entries of a queue. The successor of an entry is read before the entry is
  moved or disposed of, so that the loop visits the entries that were on the list.
\<close>

fun defer_entries :: "env \<Rightarrow> queue_id option \<Rightarrow> dsn \<Rightarrow> entry_id list \<Rightarrow> qmgr \<Rightarrow> qmgr outcome" where
  "defer_entries env retry_queue dsn [] s = Ret s"
| "defer_entries env retry_queue dsn (e # es) s =
     obind (case retry_queue of
              Some q \<Rightarrow> qmgr_entry_move_todo (env_active_done env) (env_conf env) q e s
            | None \<Rightarrow>
                let m = e_message (entries s e);
                    s = fold (\<lambda>rcpt. qmgr_defer_recipient env m rcpt dsn) (e_rcpt_list (entries s e)) s
                in qmgr_entry_done (env_active_done env) (env_conf env) e QMGR_QUEUE_TODO s)
       (defer_entries env retry_queue dsn es)"

definition MAIL_SERVICE_RETRY :: string where "MAIL_SERVICE_RETRY = ''retry''"

definition qmgr_defer_todo :: "env \<Rightarrow> queue_id \<Rightarrow> dsn \<Rightarrow> qmgr \<Rightarrow> qmgr outcome" where
  "qmgr_defer_todo env q dsn s =
     obind (qmgr_error_queue (env_process env) (env_strtod env) (env_conf env) MAIL_SERVICE_RETRY dsn s)
       (\<lambda>(retry_queue, s). defer_entries env retry_queue dsn (q_todo (queues s q)) s)"

fun defer_queues :: "env \<Rightarrow> dsn \<Rightarrow> queue_id list \<Rightarrow> qmgr \<Rightarrow> qmgr outcome" where
  "defer_queues env dsn [] s = Ret s"
| "defer_queues env dsn (q # qs) s = obind (qmgr_defer_todo env q dsn s) (defer_queues env dsn qs)"

definition qmgr_defer_transport :: "env \<Rightarrow> transport_id \<Rightarrow> dsn \<Rightarrow> qmgr \<Rightarrow> qmgr outcome" where
  "qmgr_defer_transport env t dsn s = defer_queues env dsn (t_queue_list (transports s t)) s"

section \<open>Delivery status\<close>

definition DELIVER_STAT_OK :: int where "DELIVER_STAT_OK = 0"
definition DELIVER_STAT_DEFER :: int where "DELIVER_STAT_DEFER = 1"
definition DELIVER_STAT_CRASH :: int where "DELIVER_STAT_CRASH = 2"

text \<open>What is read from a delivery agent: nothing, junk, or a delivery status notice and a status.\<close>

datatype reply = Disconnect | Malformed | Reply dsn int

definition qmgr_deliver_initial_reply :: "reply \<Rightarrow> int" where
  "qmgr_deliver_initial_reply r =
     (case r of Disconnect \<Rightarrow> DELIVER_STAT_CRASH | Malformed \<Rightarrow> DELIVER_STAT_CRASH
      | Reply _ stat \<Rightarrow> if stat \<noteq> 0 then DELIVER_STAT_DEFER else 0)"

text \<open>The status, and the notice as it was received (the buffer is empty without a reply).\<close>

definition qmgr_deliver_final_reply :: "reply \<Rightarrow> int \<times> dsn" where
  "qmgr_deliver_final_reply r =
     (case r of Disconnect \<Rightarrow> (DELIVER_STAT_CRASH, \<lparr>dsn_status = [], dsn_reason = []\<rparr>)
      | Malformed \<Rightarrow> (DELIVER_STAT_CRASH, \<lparr>dsn_status = [], dsn_reason = []\<rparr>)
      | Reply dsn stat \<Rightarrow> (if stat \<noteq> 0 then DELIVER_STAT_DEFER else 0, dsn))"

text \<open>\<^verbatim>\<open>dsn_valid()\<close>: the length of the RFC 3463 status code at the start of a text, or zero.\<close>

definition dsn_valid :: "string \<Rightarrow> nat" where
  "dsn_valid text =
     (case text of
        c0 # c1 # cp \<Rightarrow>
          if (c0 \<noteq> CHR ''2'' \<and> c0 \<noteq> CHR ''4'' \<and> c0 \<noteq> CHR ''5'') \<or> c1 \<noteq> CHR ''.'' then 0
          else let len = length (takeWhile isdigit cp)
               in if len < 1 \<or> len > 3 \<or> drop len cp = [] \<or> hd (drop len cp) \<noteq> CHR ''.'' then 0
                  else let cp' = drop (len + 1) cp; len' = length (takeWhile isdigit cp')
                       in if len' < 1 \<or> len' > 3 \<or> (drop len' cp' \<noteq> [] \<and> \<not> isspace (hd (drop len' cp'))) then 0
                          else 2 + len + 1 + len'
      | _ \<Rightarrow> 0)"

definition SUSPENDED_text :: string where "SUSPENDED_text = ''delivery temporarily suspended: ''"

text \<open>Sanitize the notice from the delivery agent before a queue is throttled with it.\<close>

definition sanitize_dsn :: "dsn \<Rightarrow> dsn" where
  "sanitize_dsn dsn =
     \<lparr>dsn_status = (if dsn_valid (dsn_status dsn) = 0 then ''4.0.0'' else dsn_status dsn),
      dsn_reason = SUSPENDED_text @ (if dsn_reason dsn = [] then ''unknown error'' else dsn_reason dsn)\<rparr>"

section \<open>The end of a delivery\<close>

definition QMGR_DELIVER_RELEASE_AGENT :: "entry_id \<Rightarrow> qmgr \<Rightarrow> qmgr" where
  "QMGR_DELIVER_RELEASE_AGENT e s =
     (let s = s\<lparr>deliver_events := remove1 e (deliver_events s)\<rparr>;
          s = upd_entry e (\<lambda>x. x\<lparr>e_stream := None\<rparr>) s
      in s\<lparr>deliver_concurrency := deliver_concurrency s - 1\<rparr>)"

definition qmgr_deliver_abort :: "entry_id \<Rightarrow> qmgr \<Rightarrow> qmgr outcome" where
  "qmgr_deliver_abort e s = Panic ''qmgr_deliver_abort''"

definition message_deferred :: "message_id \<Rightarrow> qmgr \<Rightarrow> qmgr" where
  "message_deferred m s = upd_message m (\<lambda>x. x\<lparr>m_flags := m_flags x OR 1\<rparr>) s"

text \<open>Back off with a destination that the agent has a problem with.\<close>

definition back_off_site :: "env \<Rightarrow> queue_id \<Rightarrow> dsn \<Rightarrow> qmgr \<Rightarrow> qmgr outcome" where
  "back_off_site env q dsn s =
     (if QMGR_QUEUE_READY (queues s q) then
        obind (qmgr_queue_throttle (env_conf env) q dsn s)
          (\<lambda>s. if QMGR_QUEUE_THROTTLED (queues s q) then qmgr_defer_todo env q dsn s else Ret s)
      else Ret s)"

definition qmgr_deliver_update :: "env \<Rightarrow> reply \<Rightarrow> entry_id \<Rightarrow> qmgr \<Rightarrow> qmgr outcome" where
  "qmgr_deliver_update env r e s =
     (let q = e_queue (entries s e); t = q_transport (queues s q); m = e_message (entries s e);
          s = event_cancel_timer (Tm_deliver_abort e) s;
          (status, dsb) = qmgr_deliver_final_reply r
      in if status = DELIVER_STAT_CRASH then
           let s = message_deferred m s;
               dsn = \<lparr>dsn_status = ''4.3.0'', dsn_reason = ''unknown mail transport error''\<rparr>
           in obind (qmgr_transport_throttle (env_conf env) t dsn s) (\<lambda>s.
                qmgr_defer_transport env t dsn (qmgr_entry_unselect e (QMGR_DELIVER_RELEASE_AGENT e s)))
         else
           let defer = (status = DELIVER_STAT_DEFER);
               s = (if defer then message_deferred m s else s);
               back_off = (defer \<and> dsn_status dsb \<noteq> []);
               dsb = (if back_off then sanitize_dsn dsb else dsb)
           in obind (if back_off then back_off_site env q dsb s else Ret s) (\<lambda>s.
              obind (qmgr_transport_unthrottle t s) (\<lambda>s.
              obind (if dsn_reason dsb = [] then qmgr_queue_unthrottle q s else Ret s) (\<lambda>s.
              qmgr_entry_done (env_active_done env) (env_conf env) e QMGR_QUEUE_BUSY
                (QMGR_DELIVER_RELEASE_AGENT e s)))))"

section \<open>The start of a delivery\<close>

definition transport_unavailable :: dsn where
  "transport_unavailable = \<lparr>dsn_status = ''4.3.0'', dsn_reason = ''mail transport unavailable''\<rparr>"

text \<open>
  \<open>reply\<close> is the initial response of the agent, \<open>sent\<close> tells if the request could be written to
  it. The selection loop visits each job at most once, so the length of the job list bounds it.
\<close>

definition qmgr_deliver :: "env \<Rightarrow> reply \<Rightarrow> bool \<Rightarrow> transport_id \<Rightarrow> vstream option \<Rightarrow> qmgr \<Rightarrow> qmgr outcome" where
  "qmgr_deliver env r sent t stream s =
     (case stream of
        None \<Rightarrow> obind (qmgr_transport_throttle (env_conf env) t transport_unavailable s)
                  (qmgr_defer_transport env t transport_unavailable)
      | Some fp \<Rightarrow>
          if qmgr_deliver_initial_reply r \<noteq> 0
          then obind (qmgr_transport_throttle (env_conf env) t transport_unavailable s)
                 (qmgr_defer_transport env t transport_unavailable)
          else obind (qmgr_job_entry_select (env_realloc env) (Suc (length (t_job_list (transports s t)))) t s)
            (\<lambda>(e, s). case e of
                 None \<Rightarrow> Ret s
               | Some e \<Rightarrow>
                   if \<not> sent then
                     obind (qmgr_transport_throttle (env_conf env) t transport_unavailable (qmgr_entry_unselect e s))
                       (qmgr_defer_transport env t transport_unavailable)
                   else
                     let s = s\<lparr>deliver_concurrency := deliver_concurrency s + 1\<rparr>;
                         s = upd_entry e (\<lambda>x. x\<lparr>e_stream := Some fp\<rparr>) s;
                         s = s\<lparr>deliver_events := e # deliver_events s\<rparr>
                     in Ret (event_request_timer (Tm_deliver_abort e) (var_daemon_timeout (env_conf env)) s)))"

section \<open>Sanitized delivery status notices\<close>

lemma sanitize_dsn_ok: "dsn_ok (sanitize_dsn dsn)"
proof -
  have "dsn_status dsn \<noteq> []" if "dsn_valid (dsn_status dsn) \<noteq> 0"
    using that by (cases "dsn_status dsn") (auto simp: dsn_valid_def)
  then show ?thesis by (auto simp: dsn_ok_def sanitize_dsn_def SUSPENDED_text_def)
qed



section \<open>Deliveries that start without an entry\<close>

text \<open>
  When the scheduler has no entry left for a delivery agent that has become available,
  \<open>qmgr_deliver\<close> returns without touching the transport. A rate-limited transport keeps its lock
  then, and no transport with the lock is selected, so that the lock outlives the allocation that set it.
\<close>

theorem deliver_without_entry_keeps_rate_lock:
  assumes "t_job_current (transports s t) = None" and "qmgr_deliver_initial_reply r = 0"
    and "t_flags (transports s t) AND QMGR_TRANSPORT_STAT_RATE_LOCK \<noteq> 0"
  shows "qmgr_deliver env r sent t (Some fp) s = Ret s \<and> \<not> transport_suitable s t"
  using assms by (simp add: qmgr_deliver_def qmgr_job_entry_select_def transport_suitable_def)

definition demo_locked :: qmgr where
  "demo_locked = qmgr_initial\<lparr>transports := (\<lambda>_. blank_transport)
     (0 := blank_transport\<lparr>t_xport_rate_delay := 1, t_flags := QMGR_TRANSPORT_STAT_RATE_LOCK\<rparr>)\<rparr>"

definition demo_env :: env where
  "demo_env = \<lparr>env_process = demo_process, env_strtod = demo_strtod, env_conf = demo_conf, env_active_done = (\<lambda>m. Ret),
     env_realloc = (\<lambda>m. Ret), env_defer_append = (\<lambda>_ _ _. 1)\<rparr>"

theorem deliver_without_entry_keeps_rate_lock_witness:
  "qmgr_deliver demo_env (Reply \<lparr>dsn_status = [], dsn_reason = []\<rparr> 0) True 0 (Some 9) demo_locked = Ret demo_locked"
  using deliver_without_entry_keeps_rate_lock
    [of demo_locked 0 "Reply \<lparr>dsn_status = [], dsn_reason = []\<rparr> 0" demo_env True 9]
  by (simp add: demo_locked_def blank_defs qmgr_deliver_initial_reply_def flag_bits)

text \<open>
  \<open>qmgr_defer_todo\<close> asks for the queue of the retry service before it looks at the todo list. For
  a destination with nothing to do it creates a queue that is ready, empty, and has no timer, so
  that no event will ever discard it.
\<close>

theorem defer_nothing_creates_queue:
  assumes "q_todo (queues s q) = []" and "qmgr_transport_find MAIL_SERVICE_RETRY s = Some t"
    and "\<not> QMGR_TRANSPORT_THROTTLED (transports s t)" and "transport_ok (transports s t)"
    and "qmgr_queue_find t (qmgr_error_nexthop dsn) s = None"
  shows "\<exists>s' r. qmgr_defer_todo env q dsn s = Ret s' \<and> r = heap_next s
    \<and> t_queue_list (transports s' t) = t_queue_list (transports s t) @ [r]
    \<and> queue_idle (queues s' r) \<and> timers s' = timers s"
  using assms
  by (auto simp: qmgr_defer_todo_def qmgr_error_queue_def qmgr_error_transport_def Let_def qmgr_queue_create_def
      queue_idle_def queue_status_defs transport_ok_def)

theorem defer_nothing_creates_queue_witness:
  "\<exists>s'. qmgr_defer_todo demo_env 5 demo_dsn (qmgr_initial\<lparr>transport_byname := [MAIL_SERVICE_RETRY \<mapsto> 7]\<rparr>) = Ret s'
     \<and> t_queue_list (transports s' 7) = [0] \<and> queue_idle (queues s' 0)"
  using defer_nothing_creates_queue [of "qmgr_initial\<lparr>transport_byname := [MAIL_SERVICE_RETRY \<mapsto> 7]\<rparr>" 5 7 demo_dsn demo_env]
  by (auto simp: qmgr_transport_find_def qmgr_queue_find_def blank_defs QMGR_TRANSPORT_THROTTLED_def transport_ok_def)

end
