(* ===== verification/Qmgr_Spool.thy ===== *)
theory Qmgr_Spool
  imports Qmgr_Active
begin

text \<open>
  Properties of the life of message files, over the operations of \<open>Qmgr_Active\<close>.
\<close>

section \<open>What the scheduler does not change\<close>

text \<open>The messages that were freed, the latest first.\<close>

fun messages_of :: "(heap_kind \<times> nat) list \<Rightarrow> message_id list" where
  "messages_of [] = []"
| "messages_of ((k, m) # h) = (if k = Message_obj then [m] else []) @ messages_of h"

text \<open>The number of messages, those that were freed, and the delivery status and the file name of every message.\<close>

definition msg_view :: "qmgr \<Rightarrow> int \<times> message_id list \<times> (message_id \<Rightarrow> 32 word \<times> string)" where
  "msg_view c = (message_count c, messages_of (heap_freed c), \<lambda>m. (m_flags (messages c m), m_queue_id (messages c m)))"

abbreviation same_msgs :: "qmgr \<Rightarrow> qmgr \<Rightarrow> bool" where
  "same_msgs c c' \<equiv> msg_view c' = msg_view c"

lemma msg_view_fields [simp]:
  "msg_view (c\<lparr>transport_list := a1\<rparr>) = msg_view c" "msg_view (c\<lparr>transports := a2\<rparr>) = msg_view c"
  "msg_view (c\<lparr>queues := a3\<rparr>) = msg_view c" "msg_view (c\<lparr>entries := a4\<rparr>) = msg_view c"
  "msg_view (c\<lparr>peers := a5\<rparr>) = msg_view c" "msg_view (c\<lparr>jobs := a6\<rparr>) = msg_view c"
  "msg_view (c\<lparr>allocs := a7\<rparr>) = msg_view c" "msg_view (c\<lparr>recipient_count := n\<rparr>) = msg_view c"
  "msg_view (c\<lparr>heap_next := k\<rparr>) = msg_view c" "msg_view (c\<lparr>queue_count := n\<rparr>) = msg_view c"
  "msg_view (c\<lparr>timers := ts\<rparr>) = msg_view c" "msg_view (c\<lparr>transport_events := a9\<rparr>) = msg_view c"
  by (simp_all add: msg_view_def)

lemma msg_view_freed [simp]: "messages_of h = messages_of (heap_freed c) \<Longrightarrow> msg_view (c\<lparr>heap_freed := h\<rparr>) = msg_view c"
  by (simp add: msg_view_def)

lemma msg_view_iff:
  "msg_view c' = msg_view c \<longleftrightarrow> message_count c' = message_count c \<and> messages_of (heap_freed c') = messages_of (heap_freed c)
     \<and> (\<forall>m. m_flags (messages c' m) = m_flags (messages c m) \<and> m_queue_id (messages c' m) = m_queue_id (messages c m))"
  by (auto simp: msg_view_def fun_eq_iff)

lemma msg_view_messages [simp]:
  "msg_view (c\<lparr>messages := M\<rparr>) = msg_view c' \<longleftrightarrow>
     message_count c = message_count c' \<and> messages_of (heap_freed c) = messages_of (heap_freed c')
     \<and> (\<forall>m. m_flags (M m) = m_flags (messages c' m) \<and> m_queue_id (M m) = m_queue_id (messages c' m))"
  by (simp add: msg_view_iff)

lemma msg_view_fold: "(\<And>x s. msg_view (f x s) = msg_view s) \<Longrightarrow> msg_view (fold f xs s) = msg_view s"
  by (induction xs arbitrary: s) auto

lemma msg_view_limits [simp]:
  "msg_view (give_slots j t n c) = msg_view c" "msg_view (give_pool j t c) = msg_view c"
  "msg_view (qmgr_job_move_limits j c) = msg_view c"
proof -
  show g: "msg_view (give_slots j t n c) = msg_view c" for j t n c by (simp add: give_slots_def Let_def)
  show p: "msg_view (give_pool j t c) = msg_view c" for j t c by (simp add: give_pool_def g)
  show "msg_view (qmgr_job_move_limits j c) = msg_view c"
    by (simp add: qmgr_job_move_limits_def Let_def g p advance_next_unread_def split: option.split)
qed

lemma job_parent_gone_view [simp]: "msg_view (qmgr_job_parent_gone j p c) = msg_view c"
  unfolding qmgr_job_parent_gone_def by (rule msg_view_fold) (simp add: adopt_child_def Let_def split: option.split)

lemma job_pop_view: "yields True (qmgr_job_pop j c) (same_msgs c)"
  by (simp add: qmgr_job_pop_def Let_def RESET_CANDIDATE_CACHE_def split: option.split)

lemma job_unlink_view: "yields True (qmgr_job_unlink j c) (same_msgs c)"
  by (simp add: qmgr_job_unlink_def Let_def RESET_CANDIDATE_CACHE_def)

lemma yields_if: "(b \<Longrightarrow> yields l m P) \<Longrightarrow> (\<not> b \<Longrightarrow> yields l m' P) \<Longrightarrow> yields l (if b then m else m') P"
  by simp

lemma view_seq: "yields True m (same_msgs c) \<Longrightarrow> (\<And>x. same_msgs c x \<Longrightarrow> yields True (f x) P) \<Longrightarrow> yields True (obind m f) P"
  by (rule yields_obindI)

lemma view_trans: "yields True m (same_msgs s) \<Longrightarrow> msg_view s = msg_view c \<Longrightarrow> yields True m (same_msgs c)"
  by simp

lemma job_free_view: "yields True (qmgr_job_free j c) (same_msgs c)"
  unfolding qmgr_job_free_def Let_def
proof (intro yields_if view_seq [where c = c], goal_cases)
  case (5 s)
  then show ?case by (intro view_trans [OF job_unlink_view]) simp
qed (simp_all add: job_pop_view, simp_all add: msg_view_iff)

declare free_jobs.simps [simp del]

lemma free_jobs_view: "yields True (free_jobs n m c) (same_msgs c)"
proof (induction n arbitrary: c)
  case (Suc n)
  show ?case
    by (subst free_jobs.simps) (auto split: list.split intro!: yields_mono [OF job_free_view] view_trans [OF Suc])
qed (subst free_jobs.simps, simp split: list.split)

text \<open>Freeing a message keeps its status and its name readable in the store.\<close>

lemma message_free_view:
  "yields True (qmgr_message_free m c) (\<lambda>c'. message_count c' = message_count c - 1
     \<and> messages_of (heap_freed c') = m # messages_of (heap_freed c)
     \<and> (\<forall>m. m_flags (messages c' m) = m_flags (messages c m) \<and> m_queue_id (messages c' m) = m_queue_id (messages c m)))"
  unfolding qmgr_message_free_def
proof (intro yields_if yields_obindI [OF free_jobs_view], goal_cases)
  case (3 s)
  then show ?case by (auto simp: Let_def msg_view_iff)
qed simp_all

lemma link_lists_view [simp]: "msg_view (link_lists j c) = msg_view c"
  by (simp add: link_lists_def Let_def split: prod.split)

lemma job_link_view: "yields True (qmgr_job_link j c) (same_msgs c)"
  by (simp add: qmgr_job_link_def take_over_unread_def Let_def split: option.split)

lemma job_obtain_view: "yields True (qmgr_job_obtain m t c) (\<lambda>r. same_msgs c (snd r))"
proof -
  obtain j s where js: "(case qmgr_job_find m t c of Some j \<Rightarrow> (j, c) | None \<Rightarrow> qmgr_job_create m t c) = (j, s)" by fastforce
  then have s: "msg_view s = msg_view c"
    by (auto simp: qmgr_job_create_def Let_def split: option.splits)
  have "yields True (if j_stack_level (jobs s j) < 0 then qmgr_job_link j s else Ret s) (same_msgs c)"
    using job_link_view [of j s] s by simp
  then show ?thesis
    unfolding qmgr_job_obtain_def js Let_def split by (rule yields_obindI) (simp add: RESET_CANDIDATE_CACHE_def)
qed

lemma assign_recipient_view: "yields True (assign_recipient conf m rcpt q cur c) (\<lambda>r. same_msgs c (snd r))"
proof -
  have job: "yields True (assign_job m q cur c) (\<lambda>r. same_msgs c (snd (snd r)))"
    using job_obtain_view by (auto simp: assign_job_def Let_def split_beta split: option.split elim!: yields_mono)
  have peer: "msg_view (snd (assign_peer j q p s)) = msg_view s" for j p s
    by (simp add: assign_peer_def qmgr_peer_obtain_def qmgr_peer_create_def Let_def split: option.split)
  have entry: "yields True (assign_entry conf m q p s) (\<lambda>r. same_msgs s (snd r))" for p s
    by (auto simp: assign_entry_def qmgr_entry_create_def clog_warning_def Let_def split: list.split)
  show ?thesis
    unfolding assign_recipient_def
  proof (rule yields_obindI [OF job])
    fix x :: "nat \<times> nat option \<times> qmgr"
    assume x: "same_msgs c (snd (snd x))"
    obtain j p s where xp: "x = (j, p, s)" by (cases x)
    obtain p' s' where p': "assign_peer j q p s = (p', s')" by fastforce
    have "yields True (assign_entry conf m q p' s') (\<lambda>r. same_msgs c (snd r))"
      using entry [of p' s'] peer [of j p s] p' x xp by simp
    then show "yields True (case x of (j, peer, s) \<Rightarrow> let (p, s) = assign_peer j q peer s
         in obind (assign_entry conf m q p s) (\<lambda>(e, s). Ret ((j, p), add_recipient m j e rcpt s))) (\<lambda>r. same_msgs c (snd r))"
      unfolding xp p' prod.case Let_def
      by (rule yields_obindI) (auto simp: add_recipient_def Let_def msg_view_iff)
  qed
qed

lemma assign_loop_view: "yields True (assign_loop conf m rcpts cur c) (same_msgs c)"
proof (induction rcpts arbitrary: cur c)
  case (Cons r rcpts)
  then show ?case
    by (auto split: option.split intro!: yields_mono [OF assign_recipient_view] view_trans [OF Cons.IH])
qed simp

lemma message_assign_view: "yields True (qmgr_message_assign conf m c) (same_msgs c)"
proof -
  have inv: "msg_view (invalidate_cache j s) = msg_view s" for j s by (simp add: invalidate_cache_def)
  show ?thesis unfolding qmgr_message_assign_def
    by (rule view_seq [OF assign_loop_view]) (simp add: Let_def msg_view_fold [OF inv], simp add: msg_view_iff)
qed

lemma move_limits_view [simp]: "msg_view (qmgr_message_move_limits m c) = msg_view c"
  unfolding qmgr_message_move_limits_def by (rule msg_view_fold) simp

lemma transport_alloc_view: "yields True (qmgr_transport_alloc conf st t c) (same_msgs c)"
  by (simp add: qmgr_transport_alloc_def Let_def)

lemma transport_select_view: "msg_view (snd (qmgr_transport_select c)) = msg_view c"
  by (simp add: qmgr_transport_select_def split: option.split prod.split)

lemma active_drain_view: "yields True (active_drain n env c) (same_msgs c)"
proof (induction n arbitrary: c)
  case 0
  show ?case by (subst active_drain.simps) (use transport_select_view [of c] in \<open>auto split: prod.split option.split\<close>)
next
  case (Suc n)
  obtain r c' where r: "qmgr_transport_select c = (r, c')" by fastforce
  then have v: "msg_view c' = msg_view c" using transport_select_view [of c] by simp
  have "yields True (obind (qmgr_transport_alloc (ae_conf env) (ae_connect env t) t c') (active_drain n env)) (same_msgs c)" for t
    by (rule view_seq [OF transport_alloc_view], rule view_trans [OF Suc]) (simp add: v)
  then show ?case using r v by (subst active_drain.simps) (auto split: option.split)
qed

section \<open>No message file is lost\<close>

text \<open>The queues that hold message files, as opposed to log files.\<close>

definition spool :: "string set" where
  "spool = {MAIL_QUEUE_INCOMING, MAIL_QUEUE_ACTIVE, MAIL_QUEUE_DEFERRED, MAIL_QUEUE_CORRUPT}"

lemma spool_members [simp]:
  "MAIL_QUEUE_INCOMING \<in> spool" "MAIL_QUEUE_ACTIVE \<in> spool" "MAIL_QUEUE_DEFERRED \<in> spool" "MAIL_QUEUE_CORRUPT \<in> spool"
  "MAIL_QUEUE_BOUNCE \<notin> spool" "MAIL_QUEUE_DEFER \<notin> spool"
  by (simp_all add: spool_def mail_queue_names)

text \<open>A file name is in one queue at most, messages in core are in the active queue, and the scans are where they should be.\<close>

definition one_place :: "(string \<Rightarrow> string \<rightharpoonup> mail_file) \<Rightarrow> bool" where
  "one_place fs \<longleftrightarrow> (\<forall>i. \<forall>q \<in> spool. \<forall>q' \<in> spool. fs q i \<noteq> None \<longrightarrow> fs q' i \<noteq> None \<longrightarrow> q = q')"

lemma one_place_subset: "one_place fs \<Longrightarrow> (\<And>q i. fs' q i \<noteq> None \<Longrightarrow> fs q i \<noteq> None) \<Longrightarrow> one_place fs'"
  unfolding one_place_def by blast

definition spool_ok :: "mailq \<Rightarrow> bool" where
  "spool_ok s \<longleftrightarrow> one_place (mail_files s)
     \<and> (\<forall>m. mm_queue_name (msg_more s m) = MAIL_QUEUE_ACTIVE)
     \<and> scan_queue (qmgr_scans s QMGR_SCAN_IDX_INCOMING) = MAIL_QUEUE_INCOMING
     \<and> scan_queue (qmgr_scans s QMGR_SCAN_IDX_DEFERRED) = MAIL_QUEUE_DEFERRED"

definition filed :: "mailq \<Rightarrow> string \<Rightarrow> nat \<Rightarrow> bool" where
  "filed s i ino \<longleftrightarrow> (\<exists>q \<in> spool. \<exists>f. mail_files s q i = Some f \<and> f_ino f = ino)"

text \<open>How often a message was freed.\<close>

abbreviation freed :: "qmgr \<Rightarrow> message_id \<Rightarrow> nat" where
  "freed c m \<equiv> count_list (messages_of (heap_freed c)) m"

text \<open>
  All recipients of the message in a file are done: between two states the message was disposed of, without a
  delivery problem on record.
\<close>

definition finished :: "mailq \<Rightarrow> mailq \<Rightarrow> string \<Rightarrow> bool" where
  "finished s s' i \<longleftrightarrow> (\<exists>m. m_queue_id (msg s' m) = i \<and> m_flags (msg s' m) = 0 \<and> freed (core s) m < freed (core s') m)"

definition keeps :: "mailq \<Rightarrow> mailq \<Rightarrow> bool" where
  "keeps s s' \<longleftrightarrow> (spool_ok s \<longrightarrow> spool_ok s' \<and> (\<forall>i ino. filed s i ino \<longrightarrow> filed s' i ino))
     \<and> (\<forall>m. freed (core s) m \<le> freed (core s') m)"

definition disposes_of :: "mailq \<Rightarrow> mailq \<Rightarrow> bool" where
  "disposes_of s s' \<longleftrightarrow> (spool_ok s \<longrightarrow> spool_ok s' \<and> (\<forall>i ino. filed s i ino \<longrightarrow> filed s' i ino \<or> finished s s' i))"

lemma keeps_refl [simp]: "keeps s s"
  by (simp add: keeps_def)

lemma keeps_trans: "keeps s s' \<Longrightarrow> keeps s' s'' \<Longrightarrow> keeps s s''"
  unfolding keeps_def by (meson order_trans)

lemma keeps_disposes: "keeps s s' \<Longrightarrow> disposes_of s s'"
  by (auto simp: keeps_def disposes_of_def)

lemma finished_before: "finished s' s'' i \<Longrightarrow> (\<And>m. freed (core s) m \<le> freed (core s') m) \<Longrightarrow> finished s s'' i"
  unfolding finished_def by (blast intro: le_less_trans)

lemma keeps_then: "keeps s s' \<Longrightarrow> disposes_of s' s'' \<Longrightarrow> disposes_of s s''"
  unfolding keeps_def disposes_of_def by (meson finished_before)

text \<open>Sequences of operations.\<close>

lemma keeps_seq:
  assumes "yields True m (\<lambda>x. keeps s (g x))" and "\<And>x. keeps s (g x) \<Longrightarrow> yields True (f x) (\<lambda>y. keeps (g x) (h y))"
  shows "yields True (obind m f) (\<lambda>y. keeps s (h y))"
  using assms by (cases m) (auto intro: yields_mono keeps_trans)

lemma disposes_seq:
  assumes "yields True m (\<lambda>x. keeps s (g x))" and "\<And>x. keeps s (g x) \<Longrightarrow> yields True (f x) (\<lambda>y. disposes_of (g x) (h y))"
  shows "yields True (obind m f) (\<lambda>y. disposes_of s (h y))"
  using assms by (cases m) (auto intro: yields_mono keeps_then)

lemma yields_disposes: "yields True m (\<lambda>x. keeps s (g x)) \<Longrightarrow> yields True m (\<lambda>x. disposes_of s (g x))"
  by (erule yields_mono) (rule keeps_disposes)

text \<open>Changes elsewhere.\<close>

lemma keeps_other:
  assumes "\<And>q. q \<in> spool \<Longrightarrow> mail_files s' q = mail_files s q" and "\<And>m. mm_queue_name (msg_more s' m) = mm_queue_name (msg_more s m)"
    and "\<And>i. scan_queue (qmgr_scans s' i) = scan_queue (qmgr_scans s i)" and "\<And>m. freed (core s) m \<le> freed (core s') m"
  shows "keeps s s'"
  using assms by (auto simp: keeps_def spool_ok_def filed_def one_place_def)

lemma keeps_core: "(\<And>m. freed (core s) m \<le> freed c m) \<Longrightarrow> keeps s (s\<lparr>core := c\<rparr>)"
  by (rule keeps_other) simp_all

lemma keeps_view [simp]: "msg_view c = msg_view (core s) \<Longrightarrow> keeps s (s\<lparr>core := c\<rparr>)"
  by (rule keeps_core) (simp add: msg_view_iff)

lemma on_core_keeps: "yields True (f (core s)) (\<lambda>c. \<forall>m. freed (core s) m \<le> freed c m) \<Longrightarrow> yields True (on_core f s) (keeps s)"
  unfolding on_core_def by (erule yields_obindI) (simp add: keeps_core)

lemma on_core_same: "yields True (f (core s)) (same_msgs (core s)) \<Longrightarrow> yields True (on_core f s) (keeps s)"
  by (rule on_core_keeps, erule yields_mono) (simp add: msg_view_iff)

lemma on_core_free: "yields True (on_core (qmgr_message_free m) s) (keeps s)"
  by (rule on_core_keeps, rule yields_mono [OF message_free_view]) simp

lemma keeps_files:
  assumes "one_place (mail_files s) \<Longrightarrow> one_place fs"
    and "\<And>q i f. one_place (mail_files s) \<Longrightarrow> q \<in> spool \<Longrightarrow> mail_files s q i = Some f \<Longrightarrow> \<exists>q' \<in> spool. \<exists>f'. fs q' i = Some f' \<and> f_ino f' = f_ino f"
  shows "keeps s (s\<lparr>mail_files := fs\<rparr>)"
  using assms by (fastforce simp: keeps_def spool_ok_def filed_def)

lemma rename_keeps:
  assumes q: "q \<in> spool" "q' \<in> spool"
  shows "yields True (mail_queue_rename env i q q' s) (\<lambda>r. keeps s (snd r))"
proof -
  have "keeps s (s\<lparr>mail_files := ((mail_files s)(q := (mail_files s q)(i := None)))
      (q' := (((mail_files s)(q := (mail_files s q)(i := None))) q')(i \<mapsto> f))\<rparr>)" (is "keeps s (s\<lparr>mail_files := ?fs\<rparr>)")
    if f: "mail_files s q i = Some f" for f
  proof (rule keeps_files)
    have fs: "?fs r j = (if j = i then if r = q' then Some f else if r = q then None else mail_files s r j else mail_files s r j)" for r j
      by simp
    assume one: "one_place (mail_files s)"
    then show "one_place ?fs" using q f unfolding one_place_def fs by (metis option.distinct(1))
    fix r j g assume r: "r \<in> spool" "mail_files s r j = Some g"
    show "\<exists>q' \<in> spool. \<exists>f'. ?fs q' j = Some f' \<and> f_ino f' = f_ino g"
    proof (cases "j = i")
      case True
      then have "r = q" "g = f" using one q f r unfolding one_place_def by (metis option.distinct(1), metis option.distinct(1) option.inject)
      then show ?thesis using q True by (intro bexI [of _ q']) simp_all
    next
      case False
      then show ?thesis using r by (intro bexI [of _ r]) auto
    qed
  qed
  then show ?thesis
    by (auto simp: mail_queue_rename_def Let_def split: option.split intro!: yields_mono [OF yields_True])
qed

lemma same_ino_keeps:
  assumes "\<And>r. map_option f_ino \<circ> fs r = map_option f_ino \<circ> mail_files s r"
  shows "keeps s (s\<lparr>mail_files := fs\<rparr>)"
proof (rule keeps_files)
  have ino: "map_option f_ino (fs r j) = map_option f_ino (mail_files s r j)" for r j using assms [of r] by (simp add: fun_eq_iff)
  then have none: "fs r j = None \<longleftrightarrow> mail_files s r j = None" for r j by (metis option.map_disc_iff)
  show "one_place (mail_files s) \<Longrightarrow> one_place fs" by (simp add: one_place_def none)
  show "\<exists>q' \<in> spool. \<exists>f'. fs q' i = Some f' \<and> f_ino f' = f_ino f" if "q \<in> spool" "mail_files s q i = Some f" for q i f
    using that ino [of q i] by (intro bexI [of _ q]) auto
qed

lemma utime_keeps: "yields True (mail_queue_utime env q i tm s) (\<lambda>r. keeps s (snd r))"
  by (auto simp: mail_queue_utime_def fun_eq_iff split: option.split intro!: yields_mono [OF yields_True] same_ino_keeps)

lemma remove_keeps:
  assumes "q \<notin> spool"
  shows "yields True (mail_queue_remove env q i s) (\<lambda>r. keeps s (snd r))"
proof -
  have "keeps s (s\<lparr>mail_files := (mail_files s)(q := M)\<rparr>)" for M
    by (rule keeps_other) (use assms in auto)
  then show ?thesis by (auto simp: mail_queue_remove_def split: option.split intro!: yields_mono [OF yields_True])
qed

text \<open>What reading and resolving recipients may do: nothing to the message files and to the scans.\<close>

definition keeps_spool :: "mailq \<Rightarrow> mailq \<Rightarrow> bool" where
  "keeps_spool s s' \<longleftrightarrow> (\<forall>q \<in> spool. mail_files s' q = mail_files s q) \<and> qmgr_scans s' = qmgr_scans s
     \<and> first_scan_idx s' = first_scan_idx s \<and> message_count (core s') = message_count (core s)
     \<and> messages_of (heap_freed (core s')) = messages_of (heap_freed (core s))
     \<and> (\<forall>m. mm_queue_name (msg_more s' m) = mm_queue_name (msg_more s m))"

definition reader_ok :: "active_env \<Rightarrow> bool" where
  "reader_ok env \<longleftrightarrow> (\<forall>m s. yields True (ae_read env m s) (\<lambda>r. \<forall>s'. r = Some s' \<longrightarrow> keeps_spool s s')
     \<and> yields True (ae_sort env m s) (keeps_spool s) \<and> yields True (ae_resolve env m s) (keeps_spool s))"

lemma keeps_spool_keeps: "keeps_spool s s' \<Longrightarrow> keeps s s'"
  by (rule keeps_other) (simp_all add: keeps_spool_def)

section \<open>Every operation keeps or disposes of message files\<close>

lemma open_keeps: "yields True (qmgr_message_open env m s) (\<lambda>r. keeps s (snd r))"
  by (auto simp: qmgr_message_open_def Let_def intro!: yields_mono [OF yields_True])

lemma close_keeps [simp]: "keeps s (qmgr_message_close m s)"
  by (simp add: qmgr_message_close_def)

lemma corrupt_keeps: "yields True (qmgr_active_corrupt env i s) (keeps s)"
  unfolding qmgr_active_corrupt_def by (rule yields_obindI [OF rename_keeps]) auto

lemma defer_keeps: "q \<in> spool \<Longrightarrow> q' \<in> spool \<Longrightarrow> yields True (qmgr_active_defer env q i q' delay s) (keeps s)"
  unfolding qmgr_active_defer_def
proof (rule keeps_seq [OF utime_keeps], goal_cases)
  case (1 x)
  have "yields True (mail_queue_rename env i q q' (snd x)) (\<lambda>r. keeps (snd x) (snd r))" using 1 by (intro rename_keeps)
  then show ?case by (cases x) (auto elim!: yields_mono)
qed

lemma assign_keeps:
  assumes "reader_ok env"
  shows "yields True (assign_recipients env m s) (keeps s)"
proof -
  have sort: "yields True (ae_sort env m s) (keeps s)" and resolve: "yields True (ae_resolve env m s) (keeps s)" for s
    using assms by (auto simp: reader_ok_def intro: yields_mono keeps_spool_keeps)
  show ?thesis
    unfolding assign_recipients_def
  proof (intro keeps_seq [where g = "\<lambda>x. x" and h = "\<lambda>x. x"] sort resolve on_core_same [where f = "qmgr_message_assign (ae_conf env) m"] message_assign_view)
    fix x
    show "yields True (let s = qmgr_message_close m x
         in Ret (if m_rcpt_offset (msg s m) = 0 then s\<lparr>core := qmgr_message_move_limits m (core s)\<rparr> else s)) (keeps x)"
      using keeps_trans [OF close_keeps [of x m] keeps_view [OF move_limits_view]] by (simp add: Let_def)
  qed
qed

lemma create_keeps: "keeps s (snd (qmgr_message_create env MAIL_QUEUE_ACTIVE i fl s))"
  by (auto simp: qmgr_message_create_def Let_def keeps_def spool_ok_def filed_def)

lemma read_keeps:
  assumes "reader_ok env"
  shows "yields True (ae_read env m s) (\<lambda>r. keeps s (case r of None \<Rightarrow> s | Some s' \<Rightarrow> s'))"
proof -
  have "yields True (ae_read env m s) (\<lambda>r. \<forall>s'. r = Some s' \<longrightarrow> keeps_spool s s')" using assms by (simp add: reader_ok_def)
  then show ?thesis by (rule yields_mono) (auto split: option.split intro: keeps_spool_keeps)
qed

lemma keeps_pre: "keeps s s' \<Longrightarrow> yields True m (\<lambda>r. keeps s' (g r)) \<Longrightarrow> yields True m (\<lambda>r. keeps s (g r))"
  by (erule yields_mono) (rule keeps_trans)

lemma free_as_keeps: "yields True (message_free_as res m s) (\<lambda>y. keeps s (snd y))"
  using on_core_free [of m s] by (simp add: message_free_as_def)

lemma set_file_mode_keeps: "keeps s (set_file_mode q i mode s)"
  unfolding set_file_mode_def by (rule same_ino_keeps) (auto simp: fun_eq_iff option.map_comp comp_def)

lemma load_keeps:
  assumes "reader_ok env"
  shows "yields True (message_load env m q i mode s) (\<lambda>r. keeps s (snd r))"
  unfolding message_load_def
proof (rule keeps_seq [OF read_keeps [OF assms]], goal_cases)
  case (1 r)
  have rest: "yields True (obind (mail_queue_remove env MAIL_QUEUE_DEFER i x) (\<lambda>(res, s).
        if res = FS_error then Panic ''qmgr_message_alloc''
        else obind (assign_recipients env m s) (\<lambda>s. Ret (Message_ok m, s)))) (\<lambda>r. keeps x (snd r))" for x
  proof (rule keeps_seq [OF remove_keeps], simp, goal_cases)
    case (1 y)
    then show ?case using assign_keeps [OF assms, of m "snd y"] by (cases y) simp
  qed
  show ?case
  proof (cases r)
    case None
    then show ?thesis using keeps_pre [OF close_keeps free_as_keeps] by simp
  next
    case (Some x)
    have "keeps x (if mode \<noteq> 0 then set_file_mode q i mode x else x)" using set_file_mode_keeps by simp
    then show ?thesis unfolding Some option.case by (rule keeps_pre [OF _ rest])
  qed
qed

lemma alloc_keeps:
  assumes "reader_ok env"
  shows "yields True (qmgr_message_alloc env MAIL_QUEUE_ACTIVE i fl mode s) (\<lambda>r. keeps s (snd r))"
proof -
  obtain m s1 where m: "qmgr_message_create env MAIL_QUEUE_ACTIVE i fl s = (m, s1)" by fastforce
  have s1: "keeps s s1" using create_keeps [of s env i fl] m by simp
  have "yields True (if \<not> opened then message_free_as Message_bad m x
       else if ae_locked env i then message_free_as Message_locked m (qmgr_message_close m x)
       else message_load env m MAIL_QUEUE_ACTIVE i mode x) (\<lambda>r. keeps x (snd r))" for opened x
    using free_as_keeps keeps_pre [OF close_keeps free_as_keeps] load_keeps [OF assms] by simp
  then show ?thesis
    unfolding qmgr_message_alloc_def m Let_def prod.case
    by (intro keeps_pre [OF s1] keeps_seq [OF open_keeps]) (auto split: prod.split)
qed

lemma realloc_keeps:
  assumes "reader_ok env"
  shows "yields True (qmgr_message_realloc env m s) (\<lambda>r. keeps s (snd r))"
proof -
  have "yields True (obind (ae_read env m x) (\<lambda>r. case r of
          None \<Rightarrow> Ret (False, qmgr_message_close m x)
        | Some s \<Rightarrow> obind (assign_recipients env m s) (\<lambda>s. Ret (True, s)))) (\<lambda>r. keeps x (snd r))" for x
    by (rule keeps_seq [OF read_keeps [OF assms]]) (use assign_keeps [OF assms] in \<open>auto split: option.split\<close>)
  then show ?thesis
    unfolding qmgr_message_realloc_def
    by (intro yields_if yields_simps(2) keeps_seq [OF open_keeps]) (auto split: prod.split)
qed

lemma update_warn_keeps: "yields True (qmgr_message_update_warn env m s) (keeps s)"
  unfolding qmgr_message_update_warn_def
  by (rule keeps_seq [OF open_keeps, where h = "\<lambda>x. x"]) (auto split: prod.split)

lemma kill_record_keeps: "yields True (qmgr_message_kill_record env m offset s) (keeps s)"
  unfolding qmgr_message_kill_record_def
  by (intro yields_if yields_simps(2) keeps_seq [OF open_keeps, where h = "\<lambda>x. x"]) (auto split: prod.split)

text \<open>The one place where a message file is removed.\<close>

lemma free_finishes:
  assumes "m_flags (msg s m) = 0" and "core s0 = core s"
  shows "yields True (on_core (qmgr_message_free m) s) (\<lambda>s'. finished s0 s' (m_queue_id (msg s m)) \<and> (\<exists>c. s' = s\<lparr>core := c\<rparr>))"
  unfolding on_core_def
proof (rule yields_obindI [OF message_free_view], goal_cases)
  case (1 c)
  then show ?case using assms by (auto simp: finished_def intro!: exI [of _ m])
qed

lemma remove_and_free:
  assumes "m_flags (msg s m) = 0"
  shows "yields True (obind (obind (mail_queue_remove env MAIL_QUEUE_ACTIVE (m_queue_id (msg s m)) s) (\<lambda>(res, s).
      if res = FS_error then Panic who else Ret s)) (on_core (qmgr_message_free m))) (disposes_of s)"
proof -
  let ?i = "m_queue_id (msg s m)"
  let ?s = "s\<lparr>mail_files := (mail_files s)(MAIL_QUEUE_ACTIVE := (mail_files s MAIL_QUEUE_ACTIVE)(?i := None))\<rparr>"
  have "disposes_of s s'" if s': "finished s s' ?i" "s' = ?s\<lparr>core := c\<rparr>" for s' c
    unfolding disposes_of_def
  proof (intro impI conjI allI)
    assume ok: "spool_ok s"
    have "one_place (mail_files ?s)"
      by (rule one_place_subset [of "mail_files s"]) (use ok in \<open>auto simp: spool_ok_def split: if_splits\<close>)
    then show "spool_ok s'" using ok by (simp add: s'(2) spool_ok_def)
    fix i ino assume "filed s i ino"
    then obtain q f where f: "q \<in> spool" "mail_files s q i = Some f" "f_ino f = ino" by (auto simp: filed_def)
    have "mail_files s' q i = Some f" if "i \<noteq> ?i" using f(2) that s'(2) by auto
    then show "filed s' i ino \<or> finished s s' i" using f s'(1) by (cases "i = ?i") (auto simp: filed_def)
  qed
  then have "yields True (on_core (qmgr_message_free m) ?s) (disposes_of s)"
    using free_finishes [of ?s m s] assms(1) by (auto elim!: yields_mono)
  moreover have "yields True (on_core (qmgr_message_free m) s) (disposes_of s)"
    by (intro yields_disposes [where g = "\<lambda>x. x"] on_core_free)
  ultimately show ?thesis
    by (auto simp: mail_queue_remove_def split: option.split intro!: yields_mono [OF yields_True])
qed

lemma done_3_disposes:
  assumes "spool_ok s"
  shows "yields True (qmgr_active_done_3_generic env m s) (disposes_of s)"
proof -
  have q: "mm_queue_name (msg_more s m) = MAIL_QUEUE_ACTIVE" using assms by (simp add: spool_ok_def)
  show ?thesis
  proof (cases "m_flags (msg s m) = 0")
    case True
    then show ?thesis using remove_and_free [OF True] by (simp add: qmgr_active_done_3_generic_def q Let_def)
  next
    case False
    have "yields True (obind (qmgr_active_defer env MAIL_QUEUE_ACTIVE (m_queue_id (msg s m)) MAIL_QUEUE_DEFERRED
        (backoff_delay env (event_now (core s)) (mm_create_time (msg_more s m))) s) (on_core (qmgr_message_free m))) (keeps s)"
      by (rule keeps_seq [where g = "\<lambda>x. x" and h = "\<lambda>x. x", OF defer_keeps on_core_free]) simp_all
    from yields_disposes [where g = "\<lambda>x. x", OF this] show ?thesis
      using False by (simp add: qmgr_active_done_3_generic_def q Let_def)
  qed
qed

text \<open>The steps of \<open>qmgr_active_done\<close>.\<close>

lemma keeps_ok: "keeps s s' \<Longrightarrow> spool_ok s \<Longrightarrow> spool_ok s'"
  by (simp add: keeps_def)

lemma disposes_pre: "keeps s s' \<Longrightarrow> yields True m (disposes_of s') \<Longrightarrow> yields True m (disposes_of s)"
  by (erule yields_mono) (rule keeps_then)

lemma flush_keeps [simp]: "keeps s (request_flush f m s)"
  by (rule keeps_other) (simp_all add: request_flush_def)

lemma set_flags_keeps [simp]: "keeps s (set_msg_flags m f s)"
  by (simp add: set_msg_flags_def keeps_core)

lemma done_25_disposes:
  assumes "spool_ok s"
  shows "yields True (qmgr_active_done_25_generic env m s) (disposes_of s)"
  using done_3_disposes [OF assms] by (simp add: qmgr_active_done_25_generic_def Let_def keeps_disposes)

lemma corrupt_free_keeps: "yields True (obind (qmgr_active_corrupt env i s) (on_core (qmgr_message_free m))) (keeps s)"
  by (rule keeps_seq [where g = "\<lambda>x. x" and h = "\<lambda>x. x", OF corrupt_keeps on_core_free])

lemma done_2_disposes:
  assumes ok: "spool_ok s" and reader: "reader_ok env"
    and again: "\<And>s. spool_ok s \<Longrightarrow> yields True (again m s) (disposes_of s)"
  shows "yields True (qmgr_active_done_2_generic again env m s) (disposes_of s)"
proof -
  have c: "yields True (obind (qmgr_active_corrupt env i x) (on_core (qmgr_message_free m))) (disposes_of x)" for i x
    by (rule yields_disposes [where g = "\<lambda>x. x", OF corrupt_free_keeps])
  have "yields True (obind (qmgr_message_realloc env m s) (\<lambda>(more, s).
                if \<not> more then obind (qmgr_active_corrupt env i s) (on_core (qmgr_message_free m))
                else if m_refcount (msg s m) = 0 then again m s else Ret s)) (disposes_of s)" for i
  proof (rule disposes_seq [where h = "\<lambda>x. x", OF realloc_keeps [OF reader]], goal_cases)
    case (1 x)
    then show ?case using c again [OF keeps_ok [OF 1 ok]] keeps_disposes [OF keeps_refl] by (cases x) (simp del: yields_obind)
  qed
  then show ?thesis
    using c done_25_disposes [OF ok] keeps_disposes [OF flush_keeps]
    unfolding qmgr_active_done_2_generic_def Let_def by (simp del: yields_obind)
qed

lemma done_disposes:
  assumes "reader_ok env"
  shows "spool_ok s \<Longrightarrow> yields True (qmgr_active_done stack env m s) (disposes_of s)"
proof (induction stack arbitrary: s)
  case (Suc stack)
  have step2: "yields True (qmgr_active_done_2_generic (qmgr_active_done stack env) env m x) (disposes_of x)" if "spool_ok x" for x
    by (rule done_2_disposes [OF that assms]) (rule Suc.IH)
  let ?i = "m_queue_id (msg s m)"
  have "yields True (obind (mail_queue_remove env MAIL_QUEUE_BOUNCE ?i s) (\<lambda>(res, s).
       if res \<noteq> FS_ok then Panic who else qmgr_active_done_2_generic (qmgr_active_done stack env) env m s)) (disposes_of s)" for who
  proof (rule disposes_seq [where h = "\<lambda>x. x", OF remove_keeps], simp, goal_cases)
    case (1 x)
    then show ?case using step2 [OF keeps_ok [OF 1 Suc.prems]] by (cases x) (simp del: yields_obind)
  qed
  then show ?case
    using step2 [OF Suc.prems] keeps_disposes [OF flush_keeps]
    unfolding qmgr_active_done.simps Let_def
    by (intro yields_obindI [OF yields_True]) (simp del: yields_obind split: option.split)
qed simp

lemma flush_done_disposes:
  assumes reader: "reader_ok env" and ok: "spool_ok s"
  shows "yields True (flush_done stack env f status m s) (disposes_of s)"
proof (cases f)
  case (Bounce_flush v)
  have "yields True (qmgr_active_done_2_generic (qmgr_active_done stack env) env m x) (disposes_of x)" if "spool_ok x" for x
    by (rule done_2_disposes [OF that reader done_disposes [OF reader]])
  from disposes_pre [OF set_flags_keeps this [OF keeps_ok [OF set_flags_keeps ok]]] show ?thesis
    by (simp add: Bounce_flush qmgr_active_done_2_bounce_flush_def)
next
  case Trace_flush
  have k: "yields True (if status = 0 \<and> mm_tflags_offset (msg_more s m) \<noteq> 0
            then qmgr_message_kill_record env m (mm_tflags_offset (msg_more s m)) s else Ret s) (keeps s)"
    using kill_record_keeps by simp
  show ?thesis
    unfolding Trace_flush flush_done.simps qmgr_active_done_25_trace_flush_def
    by (rule disposes_seq [where g = "\<lambda>x. x" and h = "\<lambda>x. x", OF k])
      (rule disposes_pre [OF set_flags_keeps done_25_disposes], blast intro: keeps_ok ok set_flags_keeps)
next
  case (Defer_flush v)
  then show ?thesis
    using disposes_pre [OF set_flags_keeps done_3_disposes [OF keeps_ok [OF set_flags_keeps ok]]]
    by (simp add: qmgr_active_done_3_defer_flush_def)
next
  case Defer_warn
  have k: "yields True (if status = 0 then qmgr_message_update_warn env m s else Ret s) (keeps s)"
    using update_warn_keeps by simp
  show ?thesis
    unfolding Defer_warn flush_done.simps qmgr_active_done_3_defer_warn_def
    by (rule disposes_seq [where g = "\<lambda>x. x" and h = "\<lambda>x. x", OF k]) (blast intro: done_3_disposes keeps_ok ok)
qed

lemma move_files_keeps:
  assumes "q \<in> spool" and "q' \<in> spool"
  shows "yields True (move_files env q q' tm names s) (keeps s)"
proof (induction names arbitrary: s)
  case (Cons i names)
  have mv: "yields True (obind (mail_queue_rename env i q q' x) (\<lambda>(res, s).
          if res = FS_error then Panic ''qmgr_move'' else move_files env q q' tm names s)) (keeps x)" for x
    by (rule keeps_seq [OF rename_keeps [OF assms], where h = "\<lambda>x. x"]) (auto simp: Cons.IH split: prod.split)
  have ut: "yields True (if tm > 0 then mail_queue_utime env q i tm s else Ret (FS_ok, s)) (\<lambda>r. keeps s (snd r))"
    using utime_keeps by simp
  show ?case
    unfolding move_files.simps
  proof (intro yields_if Cons.IH keeps_seq [OF ut, where h = "\<lambda>x. x"], goal_cases)
    case (1 x)
    then show ?case using mv Cons.IH by (cases x) (simp del: yields_obind)
  qed
qed simp

end
