(* ===== verification/Qmgr_Cycle.thy ===== *)
theory Qmgr_Cycle
  imports Qmgr_Spool
begin

unbundle bit_operations_syntax

text \<open>
  The queue manager as a transition system over the state of \<open>Qmgr_Active\<close>: scans, triggers, the main loop,
  the events that make a message leave the active queue, and a restart of the process.
\<close>

section \<open>Entering the active queue\<close>

text \<open>Only a message that entered the active queue may have been disposed of.\<close>

definition feeds :: "mailq \<Rightarrow> bool \<times> mailq \<Rightarrow> bool" where
  "feeds s r \<longleftrightarrow> (if fst r then disposes_of s (snd r) else keeps s (snd r))"

lemma feeds_keeps [simp]: "keeps s s' \<Longrightarrow> feeds s (b, s')"
  by (simp add: feeds_def keeps_disposes)

lemma feeds_disposes: "feeds s r \<Longrightarrow> disposes_of s (snd r)"
  by (simp add: feeds_def keeps_disposes split: if_splits)

lemma feeds_pre: "keeps s s' \<Longrightarrow> feeds s' r \<Longrightarrow> feeds s r"
  by (simp add: feeds_def split: if_splits) (blast intro: keeps_then keeps_trans)+

lemma feeds_seq:
  assumes "yields True m (\<lambda>x. keeps s (g x))" and "\<And>x. keeps s (g x) \<Longrightarrow> yields True (f x) (feeds (g x))"
  shows "yields True (obind m f) (feeds s)"
  using assms by (cases m) (auto intro: yields_mono feeds_pre)

lemma feed_result:
  assumes reader: "reader_ok env" and ok: "spool_ok x"
  shows "yields True (case res of
      Message_bad \<Rightarrow> obind (qmgr_active_corrupt env i x) (\<lambda>s. Ret (False, s))
    | Message_locked \<Rightarrow> obind (qmgr_active_defer env MAIL_QUEUE_ACTIVE i MAIL_QUEUE_INCOMING 60 x) (\<lambda>s. Ret (False, s))
    | Message_ok m \<Rightarrow> obind (if m_refcount (msg x m) = 0 then qmgr_active_done stack env m x else Ret x) (\<lambda>s. Ret (True, s)))
    (feeds x)"
proof (cases res)
  case Message_bad
  then show ?thesis using corrupt_keeps [of env i x] by (auto elim: yields_mono)
next
  case Message_locked
  then show ?thesis using defer_keeps [of MAIL_QUEUE_ACTIVE MAIL_QUEUE_INCOMING env i 60 x] by (auto elim: yields_mono)
next
  case (Message_ok m)
  then show ?thesis using done_disposes [OF reader ok, of stack m] by (simp add: feeds_def keeps_disposes)
qed

lemma feed_feeds:
  assumes reader: "reader_ok env" and ok: "spool_ok s" and q: "scan_queue sc \<in> spool"
  shows "yields True (qmgr_active_feed stack env sc i s) (feeds s)"
proof -
  have alloc: "yields True (obind (qmgr_message_alloc env MAIL_QUEUE_ACTIVE i fl mode x) (\<lambda>(res, s). case res of
        Message_bad \<Rightarrow> obind (qmgr_active_corrupt env i s) (\<lambda>s. Ret (False, s))
      | Message_locked \<Rightarrow> obind (qmgr_active_defer env MAIL_QUEUE_ACTIVE i MAIL_QUEUE_INCOMING 60 s) (\<lambda>s. Ret (False, s))
      | Message_ok m \<Rightarrow> obind (if m_refcount (msg s m) = 0 then qmgr_active_done stack env m s else Ret s) (\<lambda>s. Ret (True, s))))
      (feeds x)" if "spool_ok x" for fl mode x
  proof (rule feeds_seq [OF alloc_keeps [OF reader]], goal_cases)
    case (1 y)
    obtain a b where y: "y = (a, b)" by (cases y)
    show ?case using feed_result [OF reader, where x = b and res = a] keeps_ok [OF 1 that] unfolding y prod.case snd_conv by blast
  qed
  show ?thesis
  proof (cases "mail_open_ok env (scan_queue sc) i s")
    case None
    then show ?thesis by (simp add: qmgr_active_feed_def)
  next
    case (Some st)
    then show ?thesis
      unfolding qmgr_active_feed_def Some option.case Let_def
    proof (intro yields_if feeds_seq [OF rename_keeps [OF q]], goal_cases)
      case (4 x)
      then show ?case using alloc [OF keeps_ok [OF 4(4) ok]] by (cases x) (simp del: yields_obind)
    qed simp_all
  qed
qed

section \<open>Scans, triggers and the main loop keep message files\<close>

lemma queue_done_view: "yields True (qmgr_queue_done q c) (same_msgs c)"
  by (simp add: qmgr_queue_done_def Let_def)

lemma enable_queue_view: "yields True (qmgr_enable_queue q c) (same_msgs c)"
proof -
  have "yields True (if QMGR_QUEUE_THROTTLED (queues c q) then qmgr_queue_unthrottle q c else Ret c) (same_msgs c)"
    by (simp add: qmgr_queue_unthrottle_def Let_def)
  then show ?thesis unfolding qmgr_enable_queue_def
    by (rule view_seq) (simp, blast intro: view_trans [OF queue_done_view])
qed

lemma enable_queues_view: "yields True (enable_queues qs c) (same_msgs c)"
  by (induction qs arbitrary: c) (simp, simp only: enable_queues.simps, blast intro: view_seq view_trans enable_queue_view)

lemma enable_transport_view: "yields True (qmgr_enable_transport t c) (same_msgs c)"
proof -
  have "yields True (if t_flags (transports c t) AND QMGR_TRANSPORT_STAT_DEAD \<noteq> 0 then qmgr_transport_unthrottle t c else Ret c)
      (same_msgs c)"
    by (simp add: qmgr_transport_unthrottle_def Let_def)
  then show ?thesis unfolding qmgr_enable_transport_def by (rule view_seq) (blast intro: view_trans enable_queues_view)
qed

lemma enable_all_view: "yields True (qmgr_enable_all c) (same_msgs c)"
proof -
  have "yields True (enable_transports ts c) (same_msgs c)" for ts
    by (induction ts arbitrary: c) (simp, simp only: enable_transports.simps, blast intro: view_seq view_trans enable_transport_view)
  then show ?thesis by (simp add: qmgr_enable_all_def)
qed

lemma scans_keep [simp]:
  "(\<And>j. scan_queue (Q j) = scan_queue (qmgr_scans s j)) \<Longrightarrow> keeps s (s\<lparr>qmgr_scans := Q\<rparr>)"
  by (rule keeps_other) simp_all

lemma scan_request_keeps: "yields True (qmgr_scan_request env i flags s) (keeps s)"
proof -
  have "yields True (if flags AND QMGR_FLUSH_ONCE \<noteq> 0 then obind (qmgr_enable_all (core s)) (\<lambda>c. Ret (s\<lparr>core := c\<rparr>)) else Ret s) (keeps s)"
    by (auto intro!: yields_mono [OF enable_all_view])
  then show ?thesis
    unfolding qmgr_scan_request_def
    by (rule keeps_seq [where g = "\<lambda>x. x" and h = "\<lambda>x. x"])
      (simp add: upd_scan_def qmgr_scan_start_def Let_def)
qed

lemma scan_next_keeps: "yields True (qmgr_scan_next env i s) (\<lambda>r. keeps s (snd r))"
  by (simp add: qmgr_scan_next_def scan_next_name_def upd_scan_def qmgr_scan_start_def Let_def split: option.split list.split)

lemma drain_keeps: "yields True (qmgr_active_drain env s) (keeps s)"
  unfolding qmgr_active_drain_def by (rule on_core_same) (rule active_drain_view)

lemma trigger_keeps: "yields True (qmgr_trigger_event env buf argv s) (keeps s)"
  unfolding qmgr_trigger_event_def Let_def
  by (auto split: prod.split intro!: keeps_seq [where g = "\<lambda>x. x" and h = "\<lambda>x. x"] scan_request_keeps simp del: yields_obind)

lemma deferred_run_keeps: "yields True (qmgr_deferred_run_event env s) (keeps s)"
  unfolding qmgr_deferred_run_event_def
  by (rule keeps_seq [where g = "\<lambda>x. x" and h = "\<lambda>x. x", OF scan_request_keeps]) simp

lemma post_init_keeps: "yields True (qmgr_post_init env s) (\<lambda>r. keeps s (snd r))"
proof -
  have scans: "keeps x (x\<lparr>qmgr_scans := (qmgr_scans x)(QMGR_SCAN_IDX_INCOMING := qmgr_scan_create MAIL_QUEUE_INCOMING,
      QMGR_SCAN_IDX_DEFERRED := qmgr_scan_create MAIL_QUEUE_DEFERRED)\<rparr>)" for x
    by (auto simp: keeps_def spool_ok_def filed_def qmgr_scan_create_def scan_idx_defs)
  have move: "yields True (qmgr_move (check_params env) MAIL_QUEUE_ACTIVE MAIL_QUEUE_INCOMING (event_now (core s)) s) (keeps s)"
    using move_files_keeps by (simp add: qmgr_move_def)
  show ?thesis
    unfolding qmgr_post_init_def Let_def
    by (rule keeps_seq [where g = "\<lambda>x. x", OF move], rule keeps_pre [OF scans],
        rule keeps_seq [where g = "\<lambda>x. x", OF scan_request_keeps], rule keeps_seq [where g = "\<lambda>x. x", OF deferred_run_keeps]) simp
qed

text \<open>A message that entered the active queue ends the loop over the scans.\<close>

lemma scan_queue_spool: "spool_ok s \<Longrightarrow> i < QMGR_SCAN_IDX_COUNT \<Longrightarrow> scan_queue (qmgr_scans s i) \<in> spool"
  by (auto simp: spool_ok_def scan_idx_defs less_2_cases_iff)

lemma feed_loop_disposes:
  assumes reader: "reader_ok env"
  shows "spool_ok s \<Longrightarrow> yields True (feed_loop stack env idxs r s) (\<lambda>x. disposes_of s (snd x))"
proof (induction idxs arbitrary: r s)
  case (Cons idx idxs)
  let ?j = "(idx + first_scan_idx s) mod QMGR_SCAN_IDX_COUNT"
  have feed: "yields True (obind (qmgr_active_feed stack env (qmgr_scans x ?j) i x) (\<lambda>(feed, s).
       let r = r\<lparr>fs_last := ?j, fs_wait := False, fs_feed := feed\<rparr>
       in if feed then Ret (r, s) else feed_loop stack env idxs r s)) (\<lambda>y. disposes_of x (snd y))" if x: "spool_ok x" for i x
  proof (rule yields_obindI [OF feed_feeds [OF reader x scan_queue_spool [OF x]]], goal_cases)
    case (2 y)
    have "yields True (feed_loop stack env idxs u z) (\<lambda>y. disposes_of x (snd y))" if "keeps x z" for u z
      by (rule yields_mono [OF Cons.IH [OF keeps_ok [OF that x]]]) (rule keeps_then [OF that])
    then show ?case using 2 by (cases y) (auto simp: feeds_def Let_def split: if_splits)
  qed (simp add: scan_idx_defs)
  show ?case
    unfolding feed_loop.simps Let_def
  proof (intro yields_if disposes_seq [OF scan_next_keeps], goal_cases)
    case (1 x)
    then show ?case using feed Cons.IH keeps_ok [OF 1(2) Cons.prems] by (cases x) (simp del: yields_obind add: Let_def split: option.split)
  qed (simp add: keeps_disposes)
qed (simp add: keeps_disposes)

lemma flow_control_other:
  "yields True (flow_control env b k (next_first_scan_idx env k s))
     (\<lambda>x. core x = core s \<and> mail_files x = mail_files s \<and> msg_more x = msg_more s \<and> qmgr_scans x = qmgr_scans s)"
  by (simp add: flow_control_def next_first_scan_idx_def mail_flow_get_def mail_flow_put_def Let_def)

lemma loop_disposes:
  assumes reader: "reader_ok env" and ok: "spool_ok s"
  shows "yields True (qmgr_loop stack env s) (\<lambda>x. disposes_of s (snd x))"
  unfolding qmgr_loop_def
proof (rule disposes_seq [where g = "\<lambda>x. x", OF drain_keeps], goal_cases)
  case (1 x)
  have other: "disposes_of y z \<Longrightarrow> yields True (flow_control env b k (next_first_scan_idx env k z)) (disposes_of y)" for b k y z
    by (rule yields_mono [OF flow_control_other]) (simp add: disposes_of_def spool_ok_def filed_def finished_def)
  show ?case
    by (rule yields_obindI [OF feed_loop_disposes [OF reader keeps_ok [OF 1 ok]]]) (auto intro!: other)
qed

section \<open>The transition system\<close>

text \<open>
  What happens to the spool: the cleanup server files a new message, a delivery agent or the bounce service writes a
  log file, the scheduler works on the requests in core, the last delivery request of a message is done, the bounce
  service answers, a trigger or the timer asks for a scan, the main loop runs, time passes, and the process restarts.
\<close>

datatype spool_event =
    Arrive string mail_file
  | Log_file string string "mail_file option"
  | Scheduler qmgr
  | Message_done message_id
  | Flush_answer nat "32 word"
  | Deferred_run
  | Trigger string
  | Loop
  | Clock int
  | Restart

fun spool_enabled :: "spool_event \<Rightarrow> mailq \<Rightarrow> bool" where
  "spool_enabled (Arrive i f) s \<longleftrightarrow>
     list_all (\<lambda>q. mail_files s q i = None) [MAIL_QUEUE_INCOMING, MAIL_QUEUE_ACTIVE, MAIL_QUEUE_DEFERRED, MAIL_QUEUE_CORRUPT]"
| "spool_enabled (Log_file q i f) s \<longleftrightarrow> q = MAIL_QUEUE_BOUNCE \<or> q = MAIL_QUEUE_DEFER"
| "spool_enabled (Scheduler c) s \<longleftrightarrow> messages_of (heap_freed c) = messages_of (heap_freed (core s))"
| "spool_enabled (Message_done m) s \<longleftrightarrow> m_refcount (msg s m) = 0"
| "spool_enabled (Flush_answer n status) s \<longleftrightarrow> n < length (flushes s)"
| "spool_enabled _ s \<longleftrightarrow> True"

text \<open>
  A new process has an empty store. The history of the store is kept, so that the addresses of the new process differ
  from those of the old one.
\<close>

definition new_process :: "mailq \<Rightarrow> qmgr" where
  "new_process s = qmgr_initial\<lparr>heap_next := heap_next (core s), heap_freed := heap_freed (core s),
     event_now := wall_time s, sane_now := wall_time s\<rparr>"

fun spool_handle :: "nat \<Rightarrow> active_env \<Rightarrow> spool_event \<Rightarrow> mailq \<Rightarrow> mailq outcome" where
  "spool_handle stack env (Arrive i f) s =
     Ret (s\<lparr>mail_files := (mail_files s)(MAIL_QUEUE_INCOMING := (mail_files s MAIL_QUEUE_INCOMING)(i \<mapsto> f))\<rparr>)"
| "spool_handle stack env (Log_file q i f) s = Ret (s\<lparr>mail_files := (mail_files s)(q := (mail_files s q)(i := f))\<rparr>)"
| "spool_handle stack env (Scheduler c) s = Ret (s\<lparr>core := c\<rparr>)"
| "spool_handle stack env (Message_done m) s = qmgr_active_done stack env m s"
| "spool_handle stack env (Flush_answer n status) s =
     flush_done stack env (fst (flushes s ! n)) status (snd (flushes s ! n))
       (s\<lparr>flushes := take n (flushes s) @ drop (Suc n) (flushes s)\<rparr>)"
| "spool_handle stack env Deferred_run s = qmgr_deferred_run_event env s"
| "spool_handle stack env (Trigger buf) s = qmgr_trigger_event env buf [] s"
| "spool_handle stack env Loop s = obind (qmgr_loop stack env s) (\<lambda>(wait, s). Ret s)"
| "spool_handle stack env (Clock t) s = Ret (s\<lparr>wall_time := t, core := (core s)\<lparr>event_now := t, sane_now := t\<rparr>\<rparr>)"
| "spool_handle stack env Restart s =
     obind (qmgr_post_init env (s\<lparr>core := new_process s, flushes := [], first_scan_idx := QMGR_SCAN_IDX_INCOMING\<rparr>)) (\<lambda>(env, s). Ret s)"

text \<open>I/O errors, locks and the contents of directories may be different at every step.\<close>

inductive spool_step :: "mailq \<Rightarrow> mailq \<Rightarrow> bool" where
  step: "reader_ok env \<Longrightarrow> spool_enabled ev s \<Longrightarrow> spool_handle stack env ev s = Ret s' \<Longrightarrow> spool_step s s'"

inductive_cases spool_stepE: "spool_step s s'"

lemma arrive_keeps:
  assumes "spool_enabled (Arrive i f) s"
  shows "keeps s (s\<lparr>mail_files := (mail_files s)(MAIL_QUEUE_INCOMING := (mail_files s MAIL_QUEUE_INCOMING)(i \<mapsto> f))\<rparr>)"
    (is "keeps s (s\<lparr>mail_files := ?fs\<rparr>)")
proof (rule keeps_files)
  have none: "mail_files s q i = None" if "q \<in> spool" for q using assms that by (auto simp: spool_def)
  have fs: "?fs q j = (if j = i then if q = MAIL_QUEUE_INCOMING then Some f else mail_files s q j else mail_files s q j)" for q j
    by simp
  show "one_place (mail_files s) \<Longrightarrow> one_place ?fs" unfolding one_place_def fs by (auto simp: none)
  show "\<exists>q' \<in> spool. \<exists>f'. ?fs q' j = Some f' \<and> f_ino f' = f_ino g" if "q \<in> spool" "mail_files s q j = Some g" for q j g
    using that none by (intro bexI [of _ q]) (auto simp: fs)
qed

lemma log_file_keeps: "spool_enabled (Log_file q i f) s \<Longrightarrow> keeps s (s\<lparr>mail_files := (mail_files s)(q := M)\<rparr>)"
  by (rule keeps_other) auto

lemma handle_disposes:
  assumes reader: "reader_ok env" and ok: "spool_ok s" and en: "spool_enabled ev s"
  shows "yields True (spool_handle stack env ev s) (disposes_of s)"
proof (cases ev)
  case (Arrive i f)
  then show ?thesis using keeps_disposes [OF arrive_keeps] en by simp
next
  case (Log_file q i f)
  then show ?thesis using keeps_disposes [OF log_file_keeps] en by simp
next
  case (Scheduler c)
  then show ?thesis using en by (simp add: keeps_disposes keeps_core)
next
  case (Message_done m)
  then show ?thesis using done_disposes [OF reader ok] by simp
next
  case (Flush_answer n status)
  have k: "keeps s (s\<lparr>flushes := fl\<rparr>)" for fl by (rule keeps_other) simp_all
  show ?thesis using disposes_pre [OF k flush_done_disposes [OF reader keeps_ok [OF k ok]]] by (simp add: Flush_answer)
next
  case Loop
  then show ?thesis using loop_disposes [OF reader ok, of stack] by (simp add: split_beta)
next
  case (Clock t)
  have "keeps s (s\<lparr>wall_time := t, core := (core s)\<lparr>event_now := t, sane_now := t\<rparr>\<rparr>)" by (rule keeps_other) simp_all
  then show ?thesis by (simp add: Clock keeps_disposes)
next
  case Restart
  have "keeps s (s\<lparr>core := new_process s, flushes := [], first_scan_idx := QMGR_SCAN_IDX_INCOMING\<rparr>)"
    by (rule keeps_other) (simp_all add: new_process_def)
  from yields_disposes [OF keeps_pre [OF this post_init_keeps]] show ?thesis by (simp add: Restart split_beta)
qed (simp_all add: yields_disposes [where g = "\<lambda>x. x"] deferred_run_keeps trigger_keeps)

lemma spool_step_disposes: "spool_ok s \<Longrightarrow> spool_step s s' \<Longrightarrow> disposes_of s s'"
proof (erule spool_stepE)
  fix env ev stack
  assume "spool_ok s" "reader_ok env" "spool_enabled ev s" "spool_handle stack env ev s = Ret s'"
  then show "disposes_of s s'" using handle_disposes [of env s ev stack] by simp
qed

text \<open>A started process has looked at no file yet.\<close>

definition spool_started :: "mailq \<Rightarrow> bool" where
  "spool_started s \<longleftrightarrow> (\<forall>i. \<forall>q \<in> spool. \<forall>q' \<in> spool. mail_files s q i \<noteq> None \<longrightarrow> mail_files s q' i \<noteq> None \<longrightarrow> q = q')
     \<and> (\<forall>m. mm_queue_name (msg_more s m) = MAIL_QUEUE_ACTIVE) \<and> qmgr_scans s QMGR_SCAN_IDX_INCOMING = qmgr_scan_create MAIL_QUEUE_INCOMING
     \<and> qmgr_scans s QMGR_SCAN_IDX_DEFERRED = qmgr_scan_create MAIL_QUEUE_DEFERRED"

interpretation spool_daemon: transition_system spool_started spool_step spool_ok
proof
  show "spool_started s \<Longrightarrow> spool_ok s" for s by (simp add: spool_started_def spool_ok_def one_place_def qmgr_scan_create_def)
  show "spool_ok s \<Longrightarrow> spool_step s s' \<Longrightarrow> spool_ok s'" for s s' using spool_step_disposes by (simp add: disposes_of_def)
qed

text \<open>
  C2: no message file is lost. In every reachable state of the spool a file name is in at most one of
  the incoming, active, deferred and corrupt queues; and whatever happens next (a new message, a delivery result, an
  answer of the bounce service, a queue run, I/O errors, a restart of the process), every message file is still
  in one of these queues, with the same inode number, or its message was disposed of in this very step, without a
  delivery problem on record.
\<close>

theorem mail_never_lost:
  assumes "spool_started s0" and "spool_step\<^sup>*\<^sup>* s0 s" and "spool_step s s'"
  shows "one_place (mail_files s) \<and> (\<forall>i ino. filed s i ino \<longrightarrow> filed s' i ino \<or> finished s s' i)"
proof -
  have "spool_ok s" using spool_daemon.inv_reachable [OF assms(1,2)] .
  then show ?thesis using spool_step_disposes [OF _ assms(3)] by (simp add: disposes_of_def spool_ok_def)
qed

section \<open>An example\<close>

definition idle_more :: message_more where
  "idle_more = \<lparr>mm_queue_name = MAIL_QUEUE_ACTIVE, mm_qflags = 0, mm_tflags = 0, mm_tflags_offset = 0, mm_rflags = 0,
     mm_create_time = 0, mm_warn_time = 0, mm_sender = [], mm_verp_delims = None\<rparr>"

definition demo_file :: mail_file where
  "demo_file = \<lparr>f_ino = 7, f_mtime = 100, f_mode = 0x1C0, f_regular = True, f_size = 500\<rparr>"

definition demo_spool :: mailq where
  "demo_spool = \<lparr>core = qmgr_initial, mail_files = (\<lambda>q. Map.empty)(MAIL_QUEUE_INCOMING := [''A1'' \<mapsto> demo_file]),
     msg_more = (\<lambda>_. idle_more), flushes = [],
     qmgr_scans = (\<lambda>i. qmgr_scan_create (if i = QMGR_SCAN_IDX_INCOMING then MAIL_QUEUE_INCOMING else MAIL_QUEUE_DEFERRED)),
     first_scan_idx = 0, flow_tokens = 0, wall_time = 1000\<rparr>"

text \<open>Every file is readable and has no recipients left.\<close>

definition spool_env :: active_env where
  "spool_env = \<lparr>ae_conf = demo_conf, ae_max_backoff_time = 4000, ae_max_queue_time = 432000, ae_dsn_queue_time = 432000,
     ae_verp_bounce_off = False, ae_queue_run_delay = 300, ae_in_flow_delay = 1, ae_proc_limit = 100, ae_msg_rcpt_limit = 20000,
     ae_io_error = (\<lambda>_ _. False), ae_locked = (\<lambda>_. False), ae_read = (\<lambda>m s. Ret (Some s)), ae_sort = (\<lambda>m s. Ret s),
     ae_resolve = (\<lambda>m s. Ret s), ae_listing = (\<lambda>q s. [''A1'']), ae_connect = (\<lambda>_. None)\<rparr>"

lemma spool_env_reader: "reader_ok spool_env"
  by (simp add: reader_ok_def spool_env_def keeps_spool_def)

lemma demo_spool_started: "spool_started demo_spool"
  by (auto simp: spool_started_def demo_spool_def idle_more_def scan_idx_defs split: if_splits)

definition demo_scanned :: mailq where "demo_scanned = ret_of (spool_handle 5 spool_env (Trigger ''I'') demo_spool) demo_spool"
definition demo_fed :: mailq where "demo_fed = ret_of (spool_handle 5 spool_env Loop demo_scanned) demo_scanned"

lemma demo_trigger: "spool_handle 5 spool_env (Trigger ''I'') demo_spool = Ret demo_scanned"
proof -
  have "case spool_handle 5 spool_env (Trigger ''I'') demo_spool of Ret _ \<Rightarrow> True | _ \<Rightarrow> False" by code_simp
  then show ?thesis unfolding demo_scanned_def by (rule ret_ofI)
qed

lemma demo_loop: "spool_handle 5 spool_env Loop demo_scanned = Ret demo_fed"
proof -
  have "case spool_handle 5 spool_env Loop demo_scanned of Ret _ \<Rightarrow> True | _ \<Rightarrow> False" by code_simp
  then show ?thesis unfolding demo_fed_def by (rule ret_ofI)
qed

lemma demo_spool_steps: "spool_step demo_spool demo_scanned" "spool_step demo_scanned demo_fed"
  by (rule spool_step.step [OF spool_env_reader _ demo_trigger], simp) (rule spool_step.step [OF spool_env_reader _ demo_loop], simp)

lemma demo_spool_filed: "filed demo_scanned ''A1'' 7"
proof -
  have "map_option f_ino (mail_files demo_scanned MAIL_QUEUE_INCOMING ''A1'') = Some 7" by code_simp
  then show ?thesis unfolding filed_def by (intro bexI [of _ MAIL_QUEUE_INCOMING]) auto
qed

theorem mail_never_lost_witness: "\<not> filed demo_fed ''A1'' 7 \<and> filed demo_scanned ''A1'' 7 \<and> finished demo_scanned demo_fed ''A1''"
proof -
  have "list_all (\<lambda>q. mail_files demo_fed q ''A1'' = None)
      [MAIL_QUEUE_INCOMING, MAIL_QUEUE_ACTIVE, MAIL_QUEUE_DEFERRED, MAIL_QUEUE_CORRUPT]" by code_simp
  then have "\<not> filed demo_fed ''A1'' 7" by (simp add: filed_def spool_def)
  then show ?thesis
    using mail_never_lost [OF demo_spool_started r_into_rtranclp [where r = spool_step, OF demo_spool_steps(1)] demo_spool_steps(2)] demo_spool_filed by blast
qed

section \<open>Deferred mail\<close>

lemma backoff_bounds:
  "var_min_backoff_time (ae_conf env) \<le> backoff_delay env now created"
  "backoff_delay env now created \<le> max (var_min_backoff_time (ae_conf env)) (ae_max_backoff_time env)"
  by (auto simp: backoff_delay_def Let_def)

lemma defer_files:
  assumes "qmgr_active_defer env q i q' delay s = Ret s'" and "mail_files s q i = Some f" and "q \<noteq> q'"
  shows "mail_files s' q' i = Some (f\<lparr>f_mtime := event_now (core s) + delay\<rparr>) \<and> mail_files s' q i = None"
  using assms by (auto simp: qmgr_active_defer_def mail_queue_utime_def mail_queue_rename_def Let_def split: if_splits option.splits)

text \<open>
  C6: deferred mail cools down. When the delivery of a message has failed for some recipients and no notice is due, its
  file moves from the active to the deferred queue, with a time stamp that lies ahead by a backoff time between
  \<^verbatim>\<open>minimal_backoff_time\<close> and the larger of that and \<^verbatim>\<open>maximal_backoff_time\<close>. Until that time, apart from
  one second, a scan of the deferred queue that does not ask for all mail leaves everything as it is.
\<close>

theorem deferred_mail_cools_down:
  assumes "m_flags (msg s m) \<noteq> 0" and "mm_queue_name (msg_more s m) = MAIL_QUEUE_ACTIVE" and "m_queue_id (msg s m) = i"
    and "mail_files s MAIL_QUEUE_ACTIVE i = Some f" and "qmgr_active_done_3_generic env m s = Ret s'"
  shows "\<exists>delay f'. mail_files s' MAIL_QUEUE_DEFERRED i = Some f' \<and> mail_files s' MAIL_QUEUE_ACTIVE i = None
    \<and> f' = f\<lparr>f_mtime := event_now (core s) + delay\<rparr>
    \<and> var_min_backoff_time (ae_conf env) \<le> delay
    \<and> delay \<le> max (var_min_backoff_time (ae_conf env)) (ae_max_backoff_time env)
    \<and> (scan_queue sc = MAIL_QUEUE_DEFERRED \<longrightarrow> scan_flags sc AND QMGR_SCAN_ALL = 0 \<longrightarrow> mail_files t MAIL_QUEUE_DEFERRED i = Some f'
        \<longrightarrow> wall_time t + 1 < event_now (core s) + delay \<longrightarrow> qmgr_active_feed stack env' sc i t = Ret (False, t))"
proof -
  let ?delay = "backoff_delay env (event_now (core s)) (mm_create_time (msg_more s m))"
  let ?f = "f\<lparr>f_mtime := event_now (core s) + ?delay\<rparr>"
  have ne: "MAIL_QUEUE_ACTIVE \<noteq> MAIL_QUEUE_DEFERRED" "MAIL_QUEUE_DEFERRED \<noteq> MAIL_QUEUE_ACTIVE" by (simp_all add: mail_queue_names)
  obtain x c where "qmgr_active_defer env MAIL_QUEUE_ACTIVE i MAIL_QUEUE_DEFERRED ?delay s = Ret x" "s' = x\<lparr>core := c\<rparr>"
    using assms by (auto simp: qmgr_active_done_3_generic_def Let_def on_core_def)
  then have "mail_files s' MAIL_QUEUE_DEFERRED i = Some ?f \<and> mail_files s' MAIL_QUEUE_ACTIVE i = None"
    using defer_files [OF _ assms(4) ne(1)] by simp
  moreover have "qmgr_active_feed stack env' sc i t = Ret (False, t)"
    if "scan_queue sc = MAIL_QUEUE_DEFERRED" "scan_flags sc AND QMGR_SCAN_ALL = 0" "mail_files t MAIL_QUEUE_DEFERRED i = Some ?f"
      "wall_time t + 1 < event_now (core s) + ?delay"
    using that ne by (auto simp: qmgr_active_feed_def mail_open_ok_def split: option.split)
  ultimately show ?thesis using backoff_bounds by blast
qed

definition demo_deferred :: mailq where
  "demo_deferred = demo_spool\<lparr>core := qmgr_initial\<lparr>messages := (\<lambda>_. blank_message)(4 := blank_message\<lparr>m_flags := 1, m_queue_id := ''A1''\<rparr>)\<rparr>,
     mail_files := (\<lambda>q. Map.empty)(MAIL_QUEUE_ACTIVE := [''A1'' \<mapsto> demo_file])\<rparr>"

definition demo_cooling :: mailq where
  "demo_cooling = ret_of (qmgr_active_done_3_generic spool_env 4 demo_deferred) demo_spool"

theorem deferred_mail_cools_down_witness:
  "\<exists>f'. mail_files demo_cooling MAIL_QUEUE_DEFERRED ''A1'' = Some f' \<and> 300 \<le> f_mtime f' \<and> f_mtime f' \<le> 4000"
proof -
  have "case qmgr_active_done_3_generic spool_env 4 demo_deferred of Ret _ \<Rightarrow> True | _ \<Rightarrow> False" by code_simp
  then have ret: "qmgr_active_done_3_generic spool_env 4 demo_deferred = Ret demo_cooling" unfolding demo_cooling_def by (rule ret_ofI)
  have "m_flags (msg demo_deferred 4) \<noteq> 0" "mm_queue_name (msg_more demo_deferred 4) = MAIL_QUEUE_ACTIVE"
    "m_queue_id (msg demo_deferred 4) = ''A1''" "mail_files demo_deferred MAIL_QUEUE_ACTIVE ''A1'' = Some demo_file" "event_now (core demo_deferred) = 0"
    by (simp_all add: demo_deferred_def demo_spool_def idle_more_def qmgr_initial_def)
  moreover have "var_min_backoff_time (ae_conf spool_env) = 300" "ae_max_backoff_time spool_env = 4000"
    by (simp_all add: spool_env_def demo_conf_def)
  ultimately show ?thesis using deferred_mail_cools_down [OF _ _ _ _ ret] by fastforce
qed

section \<open>Scans\<close>

primrec scan_names :: "nat \<Rightarrow> active_env \<Rightarrow> nat \<Rightarrow> mailq \<Rightarrow> (string option list \<times> mailq) outcome" where
  "scan_names 0 env i s = Ret ([], s)"
| "scan_names (Suc n) env i s =
     obind (qmgr_scan_next env i s) (\<lambda>(name, s). obind (scan_names n env i s) (\<lambda>(names, s). Ret (name # names, s)))"

lemma scan_names_append:
  "scan_names (n + k) env i s = obind (scan_names n env i s) (\<lambda>(names, s). obind (scan_names k env i s) (\<lambda>(more, s). Ret (names @ more, s)))"
proof (induction n arbitrary: s)
  case 0
  show ?case by (cases "scan_names k env i s") auto
next
  case (Suc n)
  show ?case by (cases "qmgr_scan_next env i s") (auto simp: Suc obind_assoc split_beta)
qed

text \<open>The names that are left.\<close>

lemma scan_names_handle:
  "scan_handle (qmgr_scans s i) = Some (names @ rest) \<Longrightarrow> scan_names (length names) env i s
     = Ret (map Some names, s\<lparr>qmgr_scans := (qmgr_scans s)(i := (qmgr_scans s i)\<lparr>scan_handle := Some rest\<rparr>)\<rparr>)"
proof (induction names arbitrary: s)
  case Nil
  then have "(qmgr_scans s i)\<lparr>scan_handle := Some rest\<rparr> = qmgr_scans s i" by (cases "qmgr_scans s i") simp
  then show ?case by simp
next
  case (Cons name names)
  let ?s = "s\<lparr>qmgr_scans := (qmgr_scans s)(i := (qmgr_scans s i)\<lparr>scan_handle := Some (names @ rest)\<rparr>)\<rparr>"
  have "qmgr_scan_next env i s = Ret (Some name, ?s)"
    using Cons.prems by (simp add: qmgr_scan_next_def scan_next_name_def upd_scan_def)
  then show ?case using Cons.IH [of ?s] by (simp cong: if_cong)
qed

text \<open>The call that finds the end of a scan starts the next one when a request is pending, or ends the scan.\<close>

lemma scan_next_restarts:
  assumes "scan_handle (qmgr_scans s i) = Some []" and "scan_nflags (qmgr_scans s i) AND QMGR_SCAN_START \<noteq> 0"
    and "\<And>t. ae_listing env (scan_queue (qmgr_scans s i)) t = name # names"
  shows "qmgr_scan_next env i s = Ret (Some name, s\<lparr>qmgr_scans := (qmgr_scans s)(i :=
    (qmgr_scans s i)\<lparr>scan_flags := scan_nflags (qmgr_scans s i), scan_nflags := 0, scan_handle := Some names\<rparr>)\<rparr>)"
  using assms by (simp add: qmgr_scan_next_def scan_next_name_def qmgr_scan_start_def upd_scan_def)

lemma scan_next_ends:
  "scan_handle (qmgr_scans s i) = Some [] \<Longrightarrow> scan_nflags (qmgr_scans s i) = 0 \<Longrightarrow>
     qmgr_scan_next env i s = Ret (None, s\<lparr>qmgr_scans := (qmgr_scans s)(i := (qmgr_scans s i)\<lparr>scan_handle := None\<rparr>)\<rparr>)"
  by (simp add: qmgr_scan_next_def scan_next_name_def upd_scan_def)

text \<open>A scan that is asked to start again returns the rest of the names, and then all of them.\<close>

lemma scan_names_again:
  assumes "scan_handle (qmgr_scans s i) = Some rest" and "scan_nflags (qmgr_scans s i) AND QMGR_SCAN_START \<noteq> 0"
    and "\<And>t. ae_listing env (scan_queue (qmgr_scans s i)) t = name # names"
  shows "scan_names (length rest + (1 + (length names + 1))) env i s = Ret (map Some (rest @ name # names) @ [None],
    s\<lparr>qmgr_scans := (qmgr_scans s)(i := (qmgr_scans s i)\<lparr>scan_flags := scan_nflags (qmgr_scans s i), scan_nflags := 0, scan_handle := None\<rparr>)\<rparr>)"
  using assms scan_names_handle [of s i rest "[]" env]
  by (simp only: scan_names_append) (simp add: scan_next_restarts scan_names_handle [where rest = "[]"] scan_next_ends)



section \<open>Connections to delivery agents\<close>

text \<open>How many more connections the transports of a list may have under way.\<close>

definition pend_room :: "qmgr \<Rightarrow> transport_id list \<Rightarrow> nat" where
  "pend_room c ts = (\<Sum>t \<leftarrow> ts. nat (QMGR_TRANSPORT_MAX_PEND - t_pending (transports c t)))"

lemma pend_room_simps [simp]:
  "pend_room c [] = 0" "pend_room c (t # ts) = nat (QMGR_TRANSPORT_MAX_PEND - t_pending (transports c t)) + pend_room c ts"
  "pend_room c (ts @ us) = pend_room c ts + pend_room c us"
  by (simp_all add: pend_room_def)

lemma pend_room_le:
  "(\<And>t. t \<in> set ts \<Longrightarrow> 0 \<le> t_pending (transports c t)) \<Longrightarrow> pend_room c ts \<le> 2 * length ts"
proof (induction ts)
  case (Cons t ts)
  then have "0 \<le> t_pending (transports c t)" "pend_room c ts \<le> 2 * length ts" by auto
  then show ?case by (simp add: QMGR_TRANSPORT_MAX_PEND_def)
qed simp

lemma pend_room_cong: "(\<And>t. t \<in> set ts \<Longrightarrow> t_pending (transports c' t) = t_pending (transports c t)) \<Longrightarrow> pend_room c' ts = pend_room c ts"
  by (induction ts) simp_all

lemma transport_alloc_pending:
  assumes "transport_suitable c t"
  shows "\<exists>c'. qmgr_transport_alloc conf st t (c\<lparr>transport_list := ts\<rparr>) = Ret c' \<and> transport_list c' = ts
    \<and> (\<forall>u. t_pending (transports c' u) = (if u = t then t_pending (transports c t) + 1 else t_pending (transports c u)))"
  using assms by (auto simp: qmgr_transport_alloc_def transport_suitable_def Let_def)

lemma active_drain_returns:
  "distinct (transport_list c) \<Longrightarrow> pend_room c (transport_list c) \<le> n \<Longrightarrow>
     \<exists>c'. active_drain n env c = Ret c' \<and> set (transport_list c') = set (transport_list c)
       \<and> (\<forall>t \<in> set (transport_list c). \<not> transport_suitable c' t)"
proof (induction n arbitrary: c rule: nat.induct)
  case (zero c)
  then show ?case
  proof (cases rule: transport_select_cases [of c])
    case (2 as t bs)
    then have False using zero by (auto simp: transport_suitable_def)
    then show ?thesis ..
  qed (subst active_drain.simps, simp)
next
  case (Suc n c)
  show ?case
  proof (cases rule: transport_select_cases [of c])
    case (2 as t bs)
    obtain c' where c': "qmgr_transport_alloc (ae_conf env) (ae_connect env t) t (c\<lparr>transport_list := bs @ as @ [t]\<rparr>) = Ret c'"
      "transport_list c' = bs @ as @ [t]"
      "\<And>u. t_pending (transports c' u) = (if u = t then t_pending (transports c t) + 1 else t_pending (transports c u))"
      using transport_alloc_pending [OF 2(2)] by blast
    have "t \<notin> set as" "t \<notin> set bs" using Suc.prems(1) 2(1) by auto
    then have "pend_room c' as = pend_room c as" "pend_room c' bs = pend_room c bs" by (auto intro!: pend_room_cong simp: c'(3))
    moreover have "t_pending (transports c t) < QMGR_TRANSPORT_MAX_PEND" using 2(2) by (simp add: transport_suitable_def)
    ultimately have "pend_room c' (transport_list c') \<le> n" using Suc.prems(2) 2(1) by (simp add: c'(2,3))
    moreover have "distinct (transport_list c')" "set (transport_list c') = set (transport_list c)"
      using Suc.prems(1) 2(1) c'(2) by auto
    ultimately show ?thesis using Suc.IH [of c'] 2(4) c'(1) by (subst active_drain.simps) simp
  qed (subst active_drain.simps, simp)
qed



end
