(* ===== verification/Qmgr_Limit.thy ===== *)
theory Qmgr_Limit
  imports Qmgr_Cycle
begin

unbundle bit_operations_syntax

text \<open>
  The main loop of \<^verbatim>\<open>src/src/qmgr/qmgr.c\<close> keeps the active queue within its limit, gives way to new mail when it is full,
  and leaves no more flow control tokens than there may be processes.
\<close>

section \<open>The size of the active queue\<close>

text \<open>The number of messages in core before and after an operation.\<close>

abbreviation msgs :: "mailq \<Rightarrow> int" where
  "msgs s \<equiv> message_count (core s)"

lemma keeps_spool_count: "keeps_spool s s' \<Longrightarrow> msgs s' = msgs s"
  by (simp add: keeps_spool_def)

lemma count_seq:
  assumes "yields True m (\<lambda>x. msgs (g x) = msgs s)"
    and "\<And>x. msgs (g x) = msgs s \<Longrightarrow> yields True (f x) (\<lambda>y. msgs (h y) = msgs (g x))"
  shows "yields True (obind m f) (\<lambda>y. msgs (h y) = msgs s)"
  using assms by (cases m) auto

lemma files_count:
  "yields True (mail_queue_rename env i q q' s) (\<lambda>r. core (snd r) = core s)"
  "yields True (mail_queue_utime env q i tm s) (\<lambda>r. core (snd r) = core s)"
  "yields True (mail_queue_remove env q i s) (\<lambda>r. core (snd r) = core s)"
  by (auto simp: mail_queue_rename_def mail_queue_utime_def mail_queue_remove_def Let_def split: option.split
      intro!: yields_mono [OF yields_True])

lemma corrupt_count: "yields True (qmgr_active_corrupt env i s) (\<lambda>s'. core s' = core s)"
  unfolding qmgr_active_corrupt_def by (rule yields_obindI [OF files_count(1)]) auto

lemma defer_count: "yields True (qmgr_active_defer env q i q' delay s) (\<lambda>s'. core s' = core s)"
  unfolding qmgr_active_defer_def
proof (rule yields_obindI [OF files_count(2)], goal_cases)
  case (1 x)
  then show ?case using files_count(1) [of env i q q' "snd x"] by (cases x) (auto elim!: yields_mono)
qed

lemma free_count: "yields True (on_core (qmgr_message_free m) s) (\<lambda>s'. message_count (core s') = msgs s - 1)"
  unfolding on_core_def by (rule yields_obindI [OF message_free_view]) simp

lemma open_count: "yields True (qmgr_message_open env m s) (\<lambda>r. msgs (snd r) = msgs s)"
  by (auto simp: qmgr_message_open_def Let_def intro!: yields_mono [OF yields_True])

lemma close_count [simp]: "msgs (qmgr_message_close m s) = msgs s"
  by (simp add: qmgr_message_close_def)

lemma same_msgs_count: "same_msgs c c' \<Longrightarrow> message_count c' = message_count c"
  by (simp add: msg_view_iff)

lemma assign_count:
  assumes "reader_ok env"
  shows "yields True (assign_recipients env m s) (\<lambda>s'. message_count (core s') = msgs s)"
proof -
  have io: "yields True (ae_sort env m s) (\<lambda>s'. msgs s' = msgs s)" "yields True (ae_resolve env m s) (\<lambda>s'. msgs s' = msgs s)" for s
  proof -
    have "yields True (ae_sort env m s) (keeps_spool s)" "yields True (ae_resolve env m s) (keeps_spool s)"
      using assms by (auto simp: reader_ok_def)
    then show "yields True (ae_sort env m s) (\<lambda>s'. msgs s' = msgs s)" "yields True (ae_resolve env m s) (\<lambda>s'. msgs s' = msgs s)"
      by (auto elim: yields_mono simp: keeps_spool_count)
  qed
  have on: "yields True (on_core (qmgr_message_assign (ae_conf env) m) s) (\<lambda>s'. message_count (core s') = msgs s)" for s
    unfolding on_core_def by (rule yields_obindI [OF message_assign_view]) (auto dest: same_msgs_count)
  have mv: "message_count (qmgr_message_move_limits m c) = message_count c" for c
    using move_limits_view by (rule same_msgs_count)
  show ?thesis
    unfolding assign_recipients_def
    by (intro count_seq [where g = "\<lambda>x. x" and h = "\<lambda>x. x"] io on) (simp add: Let_def mv)
qed

lemma read_count:
  assumes "reader_ok env"
  shows "yields True (ae_read env m s) (\<lambda>r. \<forall>s'. r = Some s' \<longrightarrow> message_count (core s') = msgs s)"
proof -
  have "yields True (ae_read env m s) (\<lambda>r. \<forall>s'. r = Some s' \<longrightarrow> keeps_spool s s')" using assms by (simp add: reader_ok_def)
  then show ?thesis by (rule yields_mono) (simp add: keeps_spool_def)
qed


text \<open>Operations that add or drop no message.\<close>

lemma load_count:
  assumes "reader_ok env"
  shows "yields True (message_load env m q i mode s) (\<lambda>r. msgs (snd r) = (case fst r of Message_ok _ \<Rightarrow> msgs s | _ \<Rightarrow> msgs s - 1))"
  unfolding message_load_def
proof (rule yields_obindI [OF read_count [OF assms]], goal_cases)
  case (1 r)
  have rest: "yields True (obind (mail_queue_remove env MAIL_QUEUE_DEFER i x) (\<lambda>(res, s).
        if res = FS_error then Panic ''qmgr_message_alloc''
        else obind (assign_recipients env m s) (\<lambda>s. Ret (Message_ok m, s))))
      (\<lambda>r. msgs (snd r) = (case fst r of Message_ok _ \<Rightarrow> msgs x | _ \<Rightarrow> msgs x - 1))" for x
  proof (rule yields_obindI [OF files_count(3)], goal_cases)
    case (1 y)
    then show ?case using assign_count [OF assms, of m "snd y"] by (cases y) simp
  qed
  show ?case
  proof (cases r)
    case None
    then show ?thesis using free_count [of m "qmgr_message_close m s"] by (simp add: message_free_as_def)
  next
    case (Some x)
    have "msgs (if mode \<noteq> 0 then set_file_mode q i mode x else x) = msgs s" using 1 Some by (simp add: set_file_mode_def)
    with rest [of "if mode \<noteq> 0 then set_file_mode q i mode x else x"] show ?thesis unfolding Some option.case by (simp only:)
  qed
qed

lemma alloc_count:
  assumes "reader_ok env"
  shows "yields True (qmgr_message_alloc env q i fl mode s) (\<lambda>r. msgs (snd r) = (case fst r of Message_ok _ \<Rightarrow> msgs s + 1 | _ \<Rightarrow> msgs s))"
proof -
  obtain m s1 where m: "qmgr_message_create env q i fl s = (m, s1)" by fastforce
  have s1: "msgs s1 = msgs s + 1" using m by (auto simp: qmgr_message_create_def Let_def)
  show ?thesis
    unfolding qmgr_message_alloc_def m Let_def prod.case
  proof (rule yields_obindI [OF open_count], goal_cases)
    case (1 y)
    obtain b x where y: "y = (b, x)" by (cases y)
    have "yields True (message_load env m q i mode x) (\<lambda>r. msgs (snd r) = (case fst r of Message_ok _ \<Rightarrow> msgs s + 1 | _ \<Rightarrow> msgs s))"
      using load_count [OF assms, of m q i mode x] 1 s1 y by (auto elim!: yields_mono split: message_result.splits)
    then show ?case using free_count [of m x] free_count [of m "qmgr_message_close m x"] 1 s1 y by (simp add: message_free_as_def)
  qed
qed

lemma realloc_count:
  assumes "reader_ok env"
  shows "yields True (qmgr_message_realloc env m s) (\<lambda>r. msgs (snd r) = msgs s)"
proof -
  have rd: "yields True (obind (ae_read env m x) (\<lambda>r. case r of
          None \<Rightarrow> Ret (False, qmgr_message_close m x)
        | Some s \<Rightarrow> obind (assign_recipients env m s) (\<lambda>s. Ret (True, s)))) (\<lambda>r. msgs (snd r) = msgs x)" for x
    by (rule yields_obindI [OF read_count [OF assms]]) (auto split: option.split intro: yields_mono [OF assign_count [OF assms]])
  show ?thesis
    unfolding qmgr_message_realloc_def
  proof (intro yields_if yields_simps(2) count_seq [OF open_count], goal_cases)
    case (1 x)
    obtain b y where x: "x = (b, y)" by (cases x)
    show ?case using rd [of y] 1 unfolding x by simp
  qed
qed

text \<open>Disposing of a message.\<close>

lemma done_3_count: "yields True (qmgr_active_done_3_generic env m s) (\<lambda>s'. msgs s' \<le> msgs s)"
proof -
  have free: "core x = core s \<Longrightarrow> yields True (on_core (qmgr_message_free m) x) (\<lambda>s'. msgs s' \<le> msgs s)" for x
    by (rule yields_mono [OF free_count]) simp
  have rm: "yields True (obind (mail_queue_remove env q i s) (\<lambda>(res, s). if res = FS_error then Panic p else Ret s)) (\<lambda>x. core x = core s)" for q i p
    by (rule yields_obindI [OF files_count(3)]) auto
  show ?thesis
    unfolding qmgr_active_done_3_generic_def Let_def
    by (rule yields_obindI [OF yields_if [OF defer_count rm]]) (rule free)
qed

lemma done_25_count: "yields True (qmgr_active_done_25_generic env m s) (\<lambda>s'. msgs s' \<le> msgs s)"
  using done_3_count by (simp add: qmgr_active_done_25_generic_def Let_def request_flush_def)

lemma corrupt_free_count: "yields True (obind (qmgr_active_corrupt env i s) (on_core (qmgr_message_free m))) (\<lambda>s'. msgs s' \<le> msgs s)"
  by (rule yields_obindI [OF corrupt_count], rule yields_mono [OF free_count]) simp

lemma done_2_count:
  assumes reader: "reader_ok env" and again: "\<And>s. yields True (again m s) (\<lambda>s'. msgs s' \<le> msgs s)"
  shows "yields True (qmgr_active_done_2_generic again env m s) (\<lambda>s'. msgs s' \<le> msgs s)"
proof -
  have "yields True (obind (qmgr_message_realloc env m s) (\<lambda>(more, s).
                if \<not> more then obind (qmgr_active_corrupt env i s) (on_core (qmgr_message_free m))
                else if m_refcount (msg s m) = 0 then again m s else Ret s)) (\<lambda>s'. msgs s' \<le> msgs s)" for i
  proof (rule yields_obindI [OF realloc_count [OF reader]], goal_cases)
    case (1 x)
    then show ?case using corrupt_free_count [of env i "snd x" m] again [of "snd x"] by (cases x) (simp del: yields_obind)
  qed
  then show ?thesis
    using corrupt_free_count done_25_count
    unfolding qmgr_active_done_2_generic_def Let_def by (simp del: yields_obind add: request_flush_def)
qed

lemma done_count:
  assumes "reader_ok env"
  shows "yields True (qmgr_active_done stack env m s) (\<lambda>s'. msgs s' \<le> msgs s)"
proof (induction stack arbitrary: s)
  case (Suc stack)
  have step2: "yields True (qmgr_active_done_2_generic (qmgr_active_done stack env) env m x) (\<lambda>s'. msgs s' \<le> msgs x)" for x
    by (rule done_2_count [OF assms]) (rule Suc.IH)
  have "yields True (obind (mail_queue_remove env MAIL_QUEUE_BOUNCE i s) (\<lambda>(res, s).
       if res \<noteq> FS_ok then Panic who else qmgr_active_done_2_generic (qmgr_active_done stack env) env m s)) (\<lambda>s'. msgs s' \<le> msgs s)" for i who
  proof (rule yields_obindI [OF files_count(3)], goal_cases)
    case (1 x)
    then show ?case using step2 [of "snd x"] by (cases x) (simp del: yields_obind)
  qed
  then show ?case
    using step2 unfolding qmgr_active_done.simps Let_def
    by (intro yields_obindI [OF yields_True]) (simp del: yields_obind add: request_flush_def split: option.split)
qed simp

section \<open>The main loop\<close>

text \<open>A message that does not enter the active queue is not in core either.\<close>

lemma feed_count:
  assumes reader: "reader_ok env"
  shows "yields True (qmgr_active_feed stack env sc i s) (\<lambda>r. msgs (snd r) \<le> msgs s + (if fst r then 1 else 0))"
proof -
  have res: "yields True (case res of
      Message_bad \<Rightarrow> obind (qmgr_active_corrupt env i x) (\<lambda>s. Ret (False, s))
    | Message_locked \<Rightarrow> obind (qmgr_active_defer env MAIL_QUEUE_ACTIVE i MAIL_QUEUE_INCOMING 60 x) (\<lambda>s. Ret (False, s))
    | Message_ok m \<Rightarrow> obind (if m_refcount (msg x m) = 0 then qmgr_active_done stack env m x else Ret x) (\<lambda>s. Ret (True, s)))
    (\<lambda>r. msgs (snd r) \<le> n + (if fst r then 1 else 0))"
    if "msgs x = (case res of Message_ok _ \<Rightarrow> n + 1 | _ \<Rightarrow> n)" for res x n
    using that corrupt_count [of env i x] defer_count [of env MAIL_QUEUE_ACTIVE i MAIL_QUEUE_INCOMING 60 x] done_count [OF reader, of stack _ x]
    by (cases res) (auto elim: yields_mono)
  have alloc: "yields True (obind (qmgr_message_alloc env MAIL_QUEUE_ACTIVE i fl mode x) (\<lambda>(res, s). case res of
        Message_bad \<Rightarrow> obind (qmgr_active_corrupt env i s) (\<lambda>s. Ret (False, s))
      | Message_locked \<Rightarrow> obind (qmgr_active_defer env MAIL_QUEUE_ACTIVE i MAIL_QUEUE_INCOMING 60 s) (\<lambda>s. Ret (False, s))
      | Message_ok m \<Rightarrow> obind (if m_refcount (msg s m) = 0 then qmgr_active_done stack env m s else Ret s) (\<lambda>s. Ret (True, s))))
      (\<lambda>r. msgs (snd r) \<le> msgs x + (if fst r then 1 else 0))" for fl mode x
  proof (rule yields_obindI [OF alloc_count [OF reader]], goal_cases)
    case (1 y)
    obtain a b where y: "y = (a, b)" by (cases y)
    show ?case using res [where x = b and res = a and n = "msgs x"] 1 unfolding y prod.case fst_conv snd_conv .
  qed
  show ?thesis
  proof (cases "mail_open_ok env (scan_queue sc) i s")
    case (Some st)
    then show ?thesis
      unfolding qmgr_active_feed_def Some option.case Let_def
    proof (intro yields_if yields_obindI [OF files_count(1)], goal_cases)
      case (3 x)
      then show ?case using alloc [of _ _ "snd x"] by (cases x) (simp del: yields_obind)
    qed simp_all
  qed (simp add: qmgr_active_feed_def)
qed

lemma scan_next_count: "yields True (qmgr_scan_next env i s) (\<lambda>r. core (snd r) = core s)"
  by (simp add: qmgr_scan_next_def scan_next_name_def upd_scan_def qmgr_scan_start_def Let_def split: option.split list.split)

lemma feed_loop_count:
  assumes reader: "reader_ok env"
  shows "yields True (feed_loop stack env idxs r s) (\<lambda>x. msgs (snd x) \<le> max (msgs s) (var_qmgr_active_limit (ae_conf env)))"
proof (induction idxs arbitrary: r s)
  case (Cons idx idxs)
  let ?j = "(idx + first_scan_idx s) mod QMGR_SCAN_IDX_COUNT" and ?lim = "var_qmgr_active_limit (ae_conf env)"
  have feed: "yields True (obind (qmgr_active_feed stack env (qmgr_scans x ?j) i x) (\<lambda>(feed, s).
       let r = r\<lparr>fs_last := ?j, fs_wait := False, fs_feed := feed\<rparr>
       in if feed then Ret (r, s) else feed_loop stack env idxs r s)) (\<lambda>y. msgs (snd y) \<le> max (msgs s) ?lim)"
    if x: "core x = core s" "msgs s < ?lim" for i x
  proof (rule yields_obindI [OF feed_count [OF reader]], goal_cases)
    case (1 y)
    have "yields True (feed_loop stack env idxs u z) (\<lambda>y. msgs (snd y) \<le> max (msgs s) ?lim)" if "msgs z \<le> msgs s" for u z
      by (rule yields_mono [OF Cons.IH]) (use that in auto)
    then show ?case using 1 x by (cases y) (auto simp: Let_def split: if_splits)
  qed
  show ?case
    unfolding feed_loop.simps Let_def
  proof (intro yields_if yields_obindI [OF scan_next_count], goal_cases)
    case (1 x)
    then show ?case using feed Cons.IH [of _ "snd x"] by (cases x) (simp del: yields_obind add: Let_def split: option.split)
  qed simp
qed simp

lemma drain_count: "yields True (qmgr_active_drain env s) (\<lambda>s'. msgs s' = msgs s)"
  unfolding qmgr_active_drain_def on_core_def by (rule yields_obindI [OF active_drain_view]) (auto dest: same_msgs_count)

text \<open>The two parts of the loop that run after the scans.\<close>

lemma next_first_scan_idx_fair:
  "first_scan_idx (next_first_scan_idx env k s) =
     (if msgs s < var_qmgr_active_limit (ae_conf env) then (k + 1) mod QMGR_SCAN_IDX_COUNT else QMGR_SCAN_IDX_INCOMING)"
  by (simp add: next_first_scan_idx_def)

lemma flow_control_tokens:
  assumes "flow_control env b k s = Ret x" and "0 \<le> ae_proc_limit env"
  shows "core x = core s" "first_scan_idx x = first_scan_idx s" "ae_in_flow_delay env > 0 \<Longrightarrow> flow_tokens x \<le> ae_proc_limit env"
  using assms
  by (auto simp: flow_control_def mail_flow_get_def mail_flow_put_def mail_flow_count_def Let_def split: if_splits)



end
