(* ===== verification/Master.thy ===== *)
theory Master
  imports Postfix_Prelude "HOL-Library.Word"
begin

unbundle bit_operations_syntax

text \<open>
  The process manager: \<^verbatim>\<open>src/src/master/master_avail.c\<close>, \<^verbatim>\<open>master_spawn.c\<close>, \<^verbatim>\<open>master_status.c\<close>,
  \<^verbatim>\<open>master_wakeup.c\<close>, \<^verbatim>\<open>master_service.c\<close>, \<^verbatim>\<open>master_listen.c\<close> and \<^verbatim>\<open>master_conf.c\<close>. Services are
  records in a store; the child processes are a table by process id, as in the code. What the kernel and the event
  manager keep for the process is part of the state: pending timers and the descriptors that are watched for input.
  Reading \<^verbatim>\<open>master.cf\<close>, \<^verbatim>\<open>fork()\<close>, \<^verbatim>\<open>waitpid()\<close>, new descriptors and status messages are inputs of the operations. The
  code that the child process runs between \<^verbatim>\<open>fork()\<close> and \<^verbatim>\<open>exec()\<close> is not part of the process manager.
\<close>

section \<open>Services and processes\<close>

definition MASTER_FLAG_THROTTLE :: "32 word" where "MASTER_FLAG_THROTTLE = 1"
definition MASTER_FLAG_MARK :: "32 word" where "MASTER_FLAG_MARK = 2"
definition MASTER_FLAG_CONDWAKE :: "32 word" where "MASTER_FLAG_CONDWAKE = 4"
definition MASTER_FLAG_LISTEN :: "32 word" where "MASTER_FLAG_LISTEN = 32"

lemmas master_flag_defs = MASTER_FLAG_THROTTLE_def MASTER_FLAG_MARK_def MASTER_FLAG_CONDWAKE_def MASTER_FLAG_LISTEN_def

definition MASTER_SERV_TYPE_UNIX :: int where "MASTER_SERV_TYPE_UNIX = 1"
definition MASTER_SERV_TYPE_INET :: int where "MASTER_SERV_TYPE_INET = 2"
definition MASTER_SERV_TYPE_FIFO :: int where "MASTER_SERV_TYPE_FIFO = 3"
definition MASTER_SERV_TYPE_PASS :: int where "MASTER_SERV_TYPE_PASS = 4"
definition MASTER_SERV_TYPE_UXDG :: int where "MASTER_SERV_TYPE_UXDG = 5"

lemmas master_type_defs = MASTER_SERV_TYPE_UNIX_def MASTER_SERV_TYPE_INET_def MASTER_SERV_TYPE_FIFO_def
  MASTER_SERV_TYPE_PASS_def MASTER_SERV_TYPE_UXDG_def

definition known_type :: "int \<Rightarrow> bool" where
  "known_type ty \<longleftrightarrow> ty \<in> {MASTER_SERV_TYPE_UNIX, MASTER_SERV_TYPE_INET, MASTER_SERV_TYPE_FIFO, MASTER_SERV_TYPE_PASS, MASTER_SERV_TYPE_UXDG}"

definition MASTER_STAT_TAKEN :: int where "MASTER_STAT_TAKEN = 0"
definition MASTER_STAT_AVAIL :: int where "MASTER_STAT_AVAIL = 1"

definition MASTER_LIMIT_OK :: "int \<Rightarrow> int \<Rightarrow> bool" where
  "MASTER_LIMIT_OK limit count \<longleftrightarrow> limit = 0 \<or> count < limit"

type_synonym serv_id = nat

text \<open>\<^verbatim>\<open>MASTER_SERV\<close>. The stress parameter is present on services with remote clients.\<close>

record service =
  sv_flags :: "32 word"
  sv_ext_name :: string
  sv_name :: string
  sv_type :: int
  sv_busy_warn_time :: int
  sv_wakeup_time :: int
  sv_listen_fd :: "int list"
  sv_max_proc :: int
  sv_path :: string
  sv_args :: "string list"
  sv_stress :: bool
  sv_stress_expire_time :: int
  sv_avail_proc :: int
  sv_total_proc :: int
  sv_throttle_delay :: int
  sv_status_fd :: "(int \<times> int) option"

text \<open>\<^verbatim>\<open>MASTER_PROC\<close>; the process id is the key in the table.\<close>

record process_info =
  pr_gen :: "32 word"
  pr_avail :: int
  pr_serv :: serv_id
  pr_use_count :: int

datatype master_timer = Tm_unthrottle serv_id | Tm_wakeup serv_id
datatype reader = Rd_avail serv_id | Rd_status serv_id

record master =
  services :: "serv_id \<Rightarrow> service"
  master_head :: "serv_id list"
  master_child_table :: "int \<rightharpoonup> process_info"
  master_generation :: "32 word"
  master_timers :: "master_timer \<rightharpoonup> int"
  master_readers :: "int \<rightharpoonup> reader"
  master_time :: int
  wakeups :: "serv_id list"
  killed :: "int list"
  next_serv :: serv_id

abbreviation MASTER_THROTTLED :: "service \<Rightarrow> bool" where
  "MASTER_THROTTLED f \<equiv> sv_flags f AND MASTER_FLAG_THROTTLE \<noteq> 0"

abbreviation MASTER_MARKED_FOR_DELETION :: "service \<Rightarrow> bool" where
  "MASTER_MARKED_FOR_DELETION f \<equiv> sv_flags f AND MASTER_FLAG_MARK \<noteq> 0"

abbreviation MASTER_LISTENING :: "service \<Rightarrow> bool" where
  "MASTER_LISTENING f \<equiv> sv_flags f AND MASTER_FLAG_LISTEN \<noteq> 0"

definition upd_serv :: "serv_id \<Rightarrow> (service \<Rightarrow> service) \<Rightarrow> master \<Rightarrow> master" where
  "upd_serv s f m = m\<lparr>services := (services m)(s := f (services m s))\<rparr>"

definition set_flag :: "32 word \<Rightarrow> service \<Rightarrow> service" where
  "set_flag fl x = x\<lparr>sv_flags := sv_flags x OR fl\<rparr>"

definition clear_flag :: "32 word \<Rightarrow> service \<Rightarrow> service" where
  "clear_flag fl x = x\<lparr>sv_flags := sv_flags x AND NOT fl\<rparr>"

definition request_timer :: "master_timer \<Rightarrow> int \<Rightarrow> master \<Rightarrow> master" where
  "request_timer tm delay m = m\<lparr>master_timers := (master_timers m)(tm \<mapsto> master_time m + delay)\<rparr>"

definition cancel_timer :: "master_timer \<Rightarrow> master \<Rightarrow> master" where
  "cancel_timer tm m = m\<lparr>master_timers := (master_timers m)(tm := None)\<rparr>"

definition enable_read :: "reader \<Rightarrow> int list \<Rightarrow> master \<Rightarrow> master" where
  "enable_read r fds m = m\<lparr>master_readers := fold (\<lambda>fd e. e(fd \<mapsto> r)) fds (master_readers m)\<rparr>"

definition disable_readwrite :: "int list \<Rightarrow> master \<Rightarrow> master" where
  "disable_readwrite fds m = m\<lparr>master_readers := fold (\<lambda>fd e. e(fd := None)) fds (master_readers m)\<rparr>"

section \<open>Available processes\<close>

text \<open>The policy: watch for connection requests when no process does so and another one can be started.\<close>

definition wants_listen :: "service \<Rightarrow> bool" where
  "wants_listen sv \<longleftrightarrow> (if MASTER_THROTTLED sv \<or> sv_avail_proc sv > 0 then False else MASTER_LIMIT_OK (sv_max_proc sv) (sv_total_proc sv))"

definition busy_warning :: "int \<Rightarrow> service \<Rightarrow> service" where
  "busy_warning now sv =
     (if MASTER_THROTTLED sv \<or> sv_avail_proc sv > 0 \<or> MASTER_LIMIT_OK (sv_max_proc sv) (sv_total_proc sv) then sv
      else if sv_stress sv \<and> sv_busy_warn_time sv < now - 1000 then sv\<lparr>sv_busy_warn_time := now\<rparr> else sv)"

definition master_avail_listen :: "serv_id \<Rightarrow> master \<Rightarrow> master" where
  "master_avail_listen s m =
     (let listen_flag = wants_listen (services m s);
          m = upd_serv s (busy_warning (master_time m)) m
      in if listen_flag \<and> \<not> MASTER_LISTENING (services m s)
         then upd_serv s (set_flag MASTER_FLAG_LISTEN) (enable_read (Rd_avail s) (sv_listen_fd (services m s)) m)
         else if \<not> listen_flag \<and> MASTER_LISTENING (services m s)
         then upd_serv s (clear_flag MASTER_FLAG_LISTEN) (disable_readwrite (sv_listen_fd (services m s)) m)
         else m)"

definition master_avail_more :: "serv_id \<Rightarrow> int \<Rightarrow> master \<Rightarrow> master outcome" where
  "master_avail_more s pid m =
     (case master_child_table m pid of
        None \<Rightarrow> Panic ''dangling process''
      | Some proc \<Rightarrow>
          if pr_avail proc = MASTER_STAT_AVAIL then Panic ''master_avail_more''
          else Ret (master_avail_listen s
                 ((upd_serv s (\<lambda>x. x\<lparr>sv_avail_proc := sv_avail_proc x + 1\<rparr>) m)
                    \<lparr>master_child_table := (master_child_table m)(pid \<mapsto> proc\<lparr>pr_avail := MASTER_STAT_AVAIL\<rparr>)\<rparr>)))"

definition master_avail_less :: "serv_id \<Rightarrow> int \<Rightarrow> master \<Rightarrow> master outcome" where
  "master_avail_less s pid m =
     (case master_child_table m pid of
        None \<Rightarrow> Panic ''dangling process''
      | Some proc \<Rightarrow>
          if pr_avail proc \<noteq> MASTER_STAT_AVAIL then Panic ''master_avail_less''
          else Ret (master_avail_listen s
                 ((upd_serv s (\<lambda>x. x\<lparr>sv_avail_proc := sv_avail_proc x - 1\<rparr>) m)
                    \<lparr>master_child_table := (master_child_table m)(pid \<mapsto> proc\<lparr>pr_avail := MASTER_STAT_TAKEN\<rparr>)\<rparr>)))"

section \<open>Wakeup timers\<close>

text \<open>A trigger that cannot be sent is logged; a throttled service is not triggered.\<close>

definition master_wakeup_timer_event :: "serv_id \<Rightarrow> master \<Rightarrow> master outcome" where
  "master_wakeup_timer_event s m =
     (let sv = services m s
      in if sv_wakeup_time sv = 0 then Ret m
         else if \<not> MASTER_THROTTLED sv then
           (if \<not> known_type (sv_type sv) then Panic ''master_wakeup_timer_event''
            else Ret (request_timer (Tm_wakeup s) (sv_wakeup_time sv)
                   (if sv_type sv = MASTER_SERV_TYPE_UXDG then m else m\<lparr>wakeups := s # wakeups m\<rparr>)))
         else Ret (request_timer (Tm_wakeup s) (sv_wakeup_time sv) m))"

definition master_wakeup_init :: "serv_id \<Rightarrow> master \<Rightarrow> master outcome" where
  "master_wakeup_init s m =
     (if sv_wakeup_time (services m s) = 0 \<or> sv_flags (services m s) AND MASTER_FLAG_CONDWAKE \<noteq> 0 then Ret m
      else master_wakeup_timer_event s m)"

definition master_wakeup_cleanup :: "serv_id \<Rightarrow> master \<Rightarrow> master" where
  "master_wakeup_cleanup s m = cancel_timer (Tm_wakeup s) m"

section \<open>Status reports\<close>

definition master_status_init :: "int \<times> int \<Rightarrow> serv_id \<Rightarrow> master \<Rightarrow> master outcome" where
  "master_status_init pipe s m =
     (if sv_status_fd (services m s) \<noteq> None then Panic ''master_status_init''
      else Ret (enable_read (Rd_status s) [fst pipe] (upd_serv s (\<lambda>x. x\<lparr>sv_status_fd := Some pipe\<rparr>) m)))"

definition master_status_cleanup :: "serv_id \<Rightarrow> master \<Rightarrow> master outcome" where
  "master_status_cleanup s m =
     (case sv_status_fd (services m s) of
        None \<Rightarrow> Panic ''master_status_cleanup''
      | Some pipe \<Rightarrow> Ret (upd_serv s (\<lambda>x. x\<lparr>sv_status_fd := None\<rparr>) (disable_readwrite [fst pipe] m)))"

text \<open>What is read from the status pipe.\<close>

datatype status_read = St_error | St_eof | St_partial | St_report int "32 word" int

definition master_status_event :: "serv_id \<Rightarrow> status_read \<Rightarrow> master \<Rightarrow> master outcome" where
  "master_status_event s st m =
     (case st of
        St_error \<Rightarrow> Ret m
      | St_eof \<Rightarrow> Panic ''master_status_event''
      | St_partial \<Rightarrow> Ret m
      | St_report pid gen avail \<Rightarrow>
          (case master_child_table m pid of
             None \<Rightarrow> Ret m
           | Some proc \<Rightarrow>
               if pr_gen proc \<noteq> gen then Ret m
               else if pr_serv proc \<noteq> s then Panic ''master_status_event''
               else if pr_avail proc = avail then Ret m
               else if avail = MASTER_STAT_AVAIL
               then master_avail_more s pid
                      (m\<lparr>master_child_table := (master_child_table m)(pid \<mapsto> proc\<lparr>pr_use_count := pr_use_count proc + 1\<rparr>)\<rparr>)
               else if avail = MASTER_STAT_TAKEN then master_avail_less s pid m
               else Ret m))"

section \<open>Birth and death of processes\<close>

definition master_unthrottle :: "serv_id \<Rightarrow> master \<Rightarrow> master" where
  "master_unthrottle s m =
     (if MASTER_THROTTLED (services m s)
      then master_avail_listen s (cancel_timer (Tm_unthrottle s) (upd_serv s (clear_flag MASTER_FLAG_THROTTLE) m))
      else m)"

definition master_throttle :: "serv_id \<Rightarrow> master \<Rightarrow> master" where
  "master_throttle s m =
     (if \<not> MASTER_THROTTLED (services m s)
      then master_avail_listen s
             (request_timer (Tm_unthrottle s) (sv_throttle_delay (services m s)) (upd_serv s (set_flag MASTER_FLAG_THROTTLE) m))
      else m)"

text \<open>\<open>fork\<close> is the new process id, or none.\<close>

definition master_spawn :: "int option \<Rightarrow> serv_id \<Rightarrow> master \<Rightarrow> master outcome" where
  "master_spawn fork s m =
     (let sv = services m s
      in if \<not> MASTER_LIMIT_OK (sv_max_proc sv) (sv_total_proc sv) then Panic ''master_spawn''
         else if sv_avail_proc sv > 0 then Panic ''master_spawn''
         else if MASTER_THROTTLED sv then Panic ''master_spawn''
         else let m = m\<lparr>master_generation := master_generation m + 1\<rparr>
              in case fork of
                   None \<Rightarrow> Ret (master_throttle s m)
                 | Some pid \<Rightarrow>
                     let m = m\<lparr>master_child_table := (master_child_table m)(pid \<mapsto>
                               \<lparr>pr_gen = master_generation m, pr_avail = 0, pr_serv = s, pr_use_count = 0\<rparr>)\<rparr>;
                         m = upd_serv s (\<lambda>x. x\<lparr>sv_total_proc := sv_total_proc x + 1\<rparr>) m
                     in obind (master_avail_more s pid m) (\<lambda>m.
                          if sv_flags (services m s) AND MASTER_FLAG_CONDWAKE \<noteq> 0
                          then master_wakeup_init s (upd_serv s (clear_flag MASTER_FLAG_CONDWAKE) m)
                          else Ret m))"

definition master_delete_child :: "int \<Rightarrow> process_info \<Rightarrow> master \<Rightarrow> master outcome" where
  "master_delete_child pid proc m =
     (let s = pr_serv proc;
          m = upd_serv s (\<lambda>x. x\<lparr>sv_total_proc := sv_total_proc x - 1\<rparr>) m
      in obind (if pr_avail proc = MASTER_STAT_AVAIL then master_avail_less s pid m else Ret (master_avail_listen s m)) (\<lambda>m.
           Ret (m\<lparr>master_child_table := (master_child_table m)(pid := None)\<rparr>)))"

text \<open>How a process ended, as \<^verbatim>\<open>waitpid()\<close> tells.\<close>

datatype wait_status = W_normal | W_exited | W_signaled | W_stopped

text \<open>One round of the loop over dead processes.\<close>

definition reap_one :: "bool \<Rightarrow> int \<times> wait_status \<Rightarrow> master \<Rightarrow> master outcome" where
  "reap_one init_mode w m =
     (case master_child_table m (fst w) of
        None \<Rightarrow> if init_mode then Ret m else Panic ''master_reap''
      | Some proc \<Rightarrow>
          let s = pr_serv proc
          in if snd w = W_stopped then Ret m
             else master_delete_child (fst w) proc
                    (if snd w \<noteq> W_normal \<and> pr_use_count proc = 0 \<and> \<not> MASTER_THROTTLED (services m s)
                     then master_throttle s m else m))"

fun master_reap_child :: "bool \<Rightarrow> (int \<times> wait_status) list \<Rightarrow> master \<Rightarrow> master outcome" where
  "master_reap_child init_mode [] m = Ret m"
| "master_reap_child init_mode (w # ws) m = obind (reap_one init_mode w m) (master_reap_child init_mode ws)"

text \<open>
  Wait until a service has no processes. \<open>batches\<close> are the processes that each call of \<^verbatim>\<open>master_reap_child()\<close> finds;
  \<open>Diverge\<close> is a wait that never ends.
\<close>

fun await_children :: "bool \<Rightarrow> serv_id \<Rightarrow> (int \<times> wait_status) list list \<Rightarrow> master \<Rightarrow> master outcome" where
  "await_children init_mode s batches m =
     (if sv_total_proc (services m s) > 0
      then case batches of
             [] \<Rightarrow> Diverge
           | b # bs \<Rightarrow> obind (master_reap_child init_mode b m) (await_children init_mode s bs)
      else Ret m)"

declare await_children.simps [simp del]

text \<open>The processes that get a signal, in the order of \<open>pids\<close>, the entries of the table.\<close>

definition master_delete_children ::
    "bool \<Rightarrow> int list \<Rightarrow> (int \<times> wait_status) list list \<Rightarrow> serv_id \<Rightarrow> master \<Rightarrow> master outcome" where
  "master_delete_children init_mode pids batches s m =
     (let m = master_throttle s m;
          m = m\<lparr>killed := filter (\<lambda>pid. case master_child_table m pid of None \<Rightarrow> False | Some proc \<Rightarrow> pr_serv proc = s) pids @ killed m\<rparr>
      in obind (await_children init_mode s batches m) (\<lambda>m. Ret (master_unthrottle s m)))"

section \<open>Services\<close>

definition master_avail_cleanup ::
    "bool \<Rightarrow> int list \<Rightarrow> (int \<times> wait_status) list list \<Rightarrow> serv_id \<Rightarrow> master \<Rightarrow> master outcome" where
  "master_avail_cleanup init_mode pids batches s m =
     obind (master_delete_children init_mode pids batches s m) (\<lambda>m.
       Ret (if MASTER_LISTENING (services m s)
            then upd_serv s (clear_flag MASTER_FLAG_LISTEN) (disable_readwrite (sv_listen_fd (services m s)) m) else m))"

definition master_listen_init :: "int list \<Rightarrow> serv_id \<Rightarrow> master \<Rightarrow> master outcome" where
  "master_listen_init fds s m =
     (if known_type (sv_type (services m s)) then Ret (upd_serv s (\<lambda>x. x\<lparr>sv_listen_fd := fds\<rparr>) m)
      else Panic ''master_listen_init'')"

definition master_listen_cleanup :: "serv_id \<Rightarrow> master \<Rightarrow> master" where
  "master_listen_cleanup s m = upd_serv s (\<lambda>x. x\<lparr>sv_listen_fd := map (\<lambda>_. -1) (sv_listen_fd x)\<rparr>) m"

definition master_start_service :: "int list \<Rightarrow> int \<times> int \<Rightarrow> serv_id \<Rightarrow> master \<Rightarrow> master outcome" where
  "master_start_service fds pipe s m =
     obind (master_listen_init fds s m) (\<lambda>m.
     obind (master_status_init pipe s (master_avail_listen s m)) (master_wakeup_init s))"

definition master_stop_service ::
    "bool \<Rightarrow> int list \<Rightarrow> (int \<times> wait_status) list list \<Rightarrow> serv_id \<Rightarrow> master \<Rightarrow> master outcome" where
  "master_stop_service init_mode pids batches s m =
     obind (master_status_cleanup s (master_wakeup_cleanup s m)) (\<lambda>m.
     obind (master_avail_cleanup init_mode pids batches s m) (\<lambda>m. Ret (master_listen_cleanup s m)))"

definition master_restart_service :: "int \<times> int \<Rightarrow> serv_id \<Rightarrow> bool \<Rightarrow> master \<Rightarrow> master outcome" where
  "master_restart_service pipe s conf_reload m =
     obind (master_status_cleanup s (master_wakeup_cleanup s m)) (\<lambda>m.
     obind (master_status_init pipe s m) (\<lambda>m.
     obind (master_wakeup_init s m) (\<lambda>m.
       Ret (if conf_reload then master_avail_listen s m else m))))"

text \<open>A connection request: \<open>pipe\<close> is the new status pipe when the service goes into stress mode.\<close>

definition master_avail_event :: "int \<times> int \<Rightarrow> int option \<Rightarrow> serv_id \<Rightarrow> master \<Rightarrow> master outcome" where
  "master_avail_event pipe fork s m =
     obind (if sv_stress (services m s) \<and> \<not> MASTER_LIMIT_OK (sv_max_proc (services m s)) (sv_total_proc (services m s) + 1)
            then obind (if sv_stress_expire_time (services m s) < master_time m then master_restart_service pipe s False m else Ret m) (\<lambda>m.
                   Ret (upd_serv s (\<lambda>x. x\<lparr>sv_stress_expire_time := master_time m + 1000\<rparr>) m))
            else Ret m) (master_spawn fork s)"

section \<open>Configuration\<close>

text \<open>
  An entry of \<^verbatim>\<open>master.cf\<close>, with the descriptors that are opened when it becomes a service, and the new
  status pipe when it updates one.
\<close>

record conf_entry =
  ce_serv :: service
  ce_fds :: "int list"
  ce_pipe :: "int \<times> int"

definition same_endpoint :: "service \<Rightarrow> service \<Rightarrow> bool" where
  "same_endpoint a b \<longleftrightarrow> sv_name a = sv_name b \<and> sv_type a = sv_type b"

definition update_serv :: "service \<Rightarrow> service \<Rightarrow> service" where
  "update_serv entry sv =
     (let sv = clear_flag MASTER_FLAG_MARK sv;
          sv = (if sv_flags entry AND MASTER_FLAG_CONDWAKE \<noteq> 0 then set_flag MASTER_FLAG_CONDWAKE sv
                else clear_flag MASTER_FLAG_CONDWAKE sv)
      in sv\<lparr>sv_wakeup_time := sv_wakeup_time entry, sv_max_proc := sv_max_proc entry, sv_throttle_delay := sv_throttle_delay entry,
            sv_ext_name := sv_ext_name entry, sv_path := sv_path entry, sv_args := sv_args entry, sv_stress := sv_stress entry\<rparr>)"

definition config_entry :: "conf_entry \<Rightarrow> master \<Rightarrow> master outcome" where
  "config_entry e m =
     (case List.find (\<lambda>s. same_endpoint (services m s) (ce_serv e)) (master_head m) of
        None \<Rightarrow>
          let s = next_serv m
          in master_start_service (ce_fds e) (ce_pipe e) s
               (m\<lparr>next_serv := Suc s, services := (services m)(s := ce_serv e), master_head := s # master_head m\<rparr>)
      | Some s \<Rightarrow> master_restart_service (ce_pipe e) s True (upd_serv s (update_serv (ce_serv e)) m))"

fun master_config :: "conf_entry list \<Rightarrow> master \<Rightarrow> master outcome" where
  "master_config [] m = Ret m"
| "master_config (e # es) m = obind (config_entry e m) (master_config es)"

text \<open>
  Delete the services that are still marked. \<open>waits\<close> has, for each service, the processes that \<^verbatim>\<open>waitpid()\<close> finds
  while the process manager waits for it to end.
\<close>

fun delete_marked :: "bool \<Rightarrow> (int list \<times> (int \<times> wait_status) list list) list \<Rightarrow> serv_id list \<Rightarrow> master \<Rightarrow> master outcome" where
  "delete_marked init_mode waits [] m = Ret m"
| "delete_marked init_mode waits (s # ss) m =
     (if MASTER_MARKED_FOR_DELETION (services m s)
      then case waits of
             [] \<Rightarrow> Diverge
           | (pids, batches) # waits \<Rightarrow>
               obind (master_stop_service init_mode pids batches s (m\<lparr>master_head := remove1 s (master_head m)\<rparr>))
                 (delete_marked init_mode waits ss)
      else delete_marked init_mode waits ss m)"

definition mark_services :: "master \<Rightarrow> master" where
  "mark_services m = fold (\<lambda>s. upd_serv s (set_flag MASTER_FLAG_MARK)) (master_head m) m"

definition master_refresh :: "bool \<Rightarrow> conf_entry list \<Rightarrow> (int list \<times> (int \<times> wait_status) list list) list \<Rightarrow> master \<Rightarrow> master outcome" where
  "master_refresh init_mode entries waits m =
     obind (master_config entries (mark_services m)) (\<lambda>m. delete_marked init_mode waits (master_head m) m)"

end
