(* ===== verification/Master_Proc.thy ===== *)
theory Master_Proc
  imports Master
begin

unbundle bit_operations_syntax

text \<open>
  Properties of the process manager: its invariant, and that every operation keeps it.
\<close>

section \<open>Flags\<close>

lemma flag_bits_disjoint [simp]:
  "MASTER_FLAG_THROTTLE AND MASTER_FLAG_MARK = 0" "MASTER_FLAG_THROTTLE AND MASTER_FLAG_CONDWAKE = 0"
  "MASTER_FLAG_THROTTLE AND MASTER_FLAG_LISTEN = 0" "MASTER_FLAG_MARK AND MASTER_FLAG_THROTTLE = 0"
  "MASTER_FLAG_MARK AND MASTER_FLAG_CONDWAKE = 0" "MASTER_FLAG_MARK AND MASTER_FLAG_LISTEN = 0"
  "MASTER_FLAG_CONDWAKE AND MASTER_FLAG_THROTTLE = 0" "MASTER_FLAG_CONDWAKE AND MASTER_FLAG_MARK = 0"
  "MASTER_FLAG_CONDWAKE AND MASTER_FLAG_LISTEN = 0" "MASTER_FLAG_LISTEN AND MASTER_FLAG_THROTTLE = 0"
  "MASTER_FLAG_LISTEN AND MASTER_FLAG_MARK = 0" "MASTER_FLAG_LISTEN AND MASTER_FLAG_CONDWAKE = 0"
  by (simp_all add: master_flag_defs)

lemma flag_bits_nonzero [simp]:
  "MASTER_FLAG_THROTTLE \<noteq> 0" "MASTER_FLAG_MARK \<noteq> 0" "MASTER_FLAG_CONDWAKE \<noteq> 0" "MASTER_FLAG_LISTEN \<noteq> 0"
  by (simp_all add: master_flag_defs)

lemma word_flag_ops:
  fixes x a b :: "32 word"
  shows "(x OR a) AND a = a" "(x AND NOT a) AND a = 0"
    "a AND b = 0 \<Longrightarrow> (x OR a) AND b = x AND b" "a AND b = 0 \<Longrightarrow> (x AND NOT a) AND b = x AND b"
proof -
  show "(x OR a) AND a = a" "(x AND NOT a) AND a = 0" by (auto intro!: bit_word_eqI simp: bit_simps)
  assume "a AND b = 0"
  then have "bit a n \<Longrightarrow> \<not> bit b n" for n by (metis bit_0_eq bit_and_iff bot_apply bot_bool_def)
  then show "(x OR a) AND b = x AND b" "(x AND NOT a) AND b = x AND b"
    by (auto intro!: bit_word_eqI simp: bit_simps)
qed

lemma set_flag_simps [simp]:
  "sv_flags (set_flag a x) AND a = a" "a AND b = 0 \<Longrightarrow> sv_flags (set_flag a x) AND b = sv_flags x AND b"
  "sv_ext_name (set_flag a x) = sv_ext_name x" "sv_name (set_flag a x) = sv_name x" "sv_type (set_flag a x) = sv_type x"
  "sv_busy_warn_time (set_flag a x) = sv_busy_warn_time x" "sv_wakeup_time (set_flag a x) = sv_wakeup_time x"
  "sv_listen_fd (set_flag a x) = sv_listen_fd x" "sv_max_proc (set_flag a x) = sv_max_proc x" "sv_stress (set_flag a x) = sv_stress x"
  "sv_avail_proc (set_flag a x) = sv_avail_proc x" "sv_total_proc (set_flag a x) = sv_total_proc x"
  "sv_path (set_flag a x) = sv_path x" "sv_args (set_flag a x) = sv_args x" "sv_throttle_delay (set_flag a x) = sv_throttle_delay x" "sv_status_fd (set_flag a x) = sv_status_fd x"
  by (simp_all add: set_flag_def word_flag_ops)

lemma clear_flag_simps [simp]:
  "sv_flags (clear_flag a x) AND a = 0" "a AND b = 0 \<Longrightarrow> sv_flags (clear_flag a x) AND b = sv_flags x AND b"
  "sv_ext_name (clear_flag a x) = sv_ext_name x" "sv_name (clear_flag a x) = sv_name x" "sv_type (clear_flag a x) = sv_type x"
  "sv_busy_warn_time (clear_flag a x) = sv_busy_warn_time x" "sv_wakeup_time (clear_flag a x) = sv_wakeup_time x"
  "sv_listen_fd (clear_flag a x) = sv_listen_fd x" "sv_max_proc (clear_flag a x) = sv_max_proc x" "sv_stress (clear_flag a x) = sv_stress x"
  "sv_avail_proc (clear_flag a x) = sv_avail_proc x" "sv_total_proc (clear_flag a x) = sv_total_proc x"
  "sv_path (clear_flag a x) = sv_path x" "sv_args (clear_flag a x) = sv_args x" "sv_throttle_delay (clear_flag a x) = sv_throttle_delay x" "sv_status_fd (clear_flag a x) = sv_status_fd x"
  by (simp_all add: clear_flag_def word_flag_ops)

lemma busy_warning_simps [simp]:
  "sv_flags (busy_warning t x) = sv_flags x" "sv_name (busy_warning t x) = sv_name x" "sv_type (busy_warning t x) = sv_type x"
  "sv_wakeup_time (busy_warning t x) = sv_wakeup_time x" "sv_stress (busy_warning t x) = sv_stress x"
  "sv_listen_fd (busy_warning t x) = sv_listen_fd x" "sv_max_proc (busy_warning t x) = sv_max_proc x"
  "sv_avail_proc (busy_warning t x) = sv_avail_proc x" "sv_total_proc (busy_warning t x) = sv_total_proc x"
  "sv_ext_name (busy_warning t x) = sv_ext_name x" "sv_path (busy_warning t x) = sv_path x" "sv_args (busy_warning t x) = sv_args x" "sv_throttle_delay (busy_warning t x) = sv_throttle_delay x" "sv_status_fd (busy_warning t x) = sv_status_fd x"
  by (simp_all add: busy_warning_def)

lemma wants_listen_cong:
  "(MASTER_THROTTLED a \<longleftrightarrow> MASTER_THROTTLED b) \<Longrightarrow> sv_avail_proc a = sv_avail_proc b \<Longrightarrow> sv_max_proc a = sv_max_proc b \<Longrightarrow>
     sv_total_proc a = sv_total_proc b \<Longrightarrow> wants_listen a = wants_listen b"
  by (simp add: wants_listen_def)

section \<open>The invariant\<close>

text \<open>The processes of a service, and those that are available.\<close>

definition procs :: "(int \<rightharpoonup> process_info) \<Rightarrow> serv_id \<Rightarrow> int set" where
  "procs T s = {pid. \<exists>p. T pid = Some p \<and> pr_serv p = s}"

definition avails :: "(int \<rightharpoonup> process_info) \<Rightarrow> serv_id \<Rightarrow> int set" where
  "avails T s = {pid. \<exists>p. T pid = Some p \<and> pr_serv p = s \<and> pr_avail p = MASTER_STAT_AVAIL}"

lemma procs_upd [simp]:
  "procs (T(pid \<mapsto> p)) s = (if pr_serv p = s then insert pid (procs T s) else procs T s - {pid})"
  "procs (T(pid := None)) s = procs T s - {pid}"
  by (auto simp: procs_def split: if_splits)

lemma avails_upd [simp]:
  "avails (T(pid \<mapsto> p)) s = (if pr_serv p = s \<and> pr_avail p = MASTER_STAT_AVAIL then insert pid (avails T s) else avails T s - {pid})"
  "avails (T(pid := None)) s = avails T s - {pid}"
  by (auto simp: avails_def split: if_splits)

lemma procs_finite [simp]: "finite (dom T) \<Longrightarrow> finite (procs T s)" "finite (dom T) \<Longrightarrow> finite (avails T s)"
  by (rule finite_subset [of _ "dom T"], auto simp: procs_def avails_def)+

lemma in_procs [simp]: "pid \<in> procs T s \<longleftrightarrow> (\<exists>p. T pid = Some p \<and> pr_serv p = s)"
  "pid \<in> avails T s \<longleftrightarrow> (\<exists>p. T pid = Some p \<and> pr_serv p = s \<and> pr_avail p = MASTER_STAT_AVAIL)"
  by (simp_all add: procs_def avails_def)

text \<open>The counters of a service are exact, and it is throttled exactly when the timer is set that ends this.\<close>

definition tally_ok :: "serv_id set \<Rightarrow> (int \<rightharpoonup> process_info) \<Rightarrow> (serv_id \<Rightarrow> service) \<Rightarrow> bool" where
  "tally_ok L T sv \<longleftrightarrow> finite (dom T) \<and> (\<forall>pid p. T pid = Some p \<longrightarrow> pr_serv p \<in> L \<and> pr_avail p \<in> {MASTER_STAT_TAKEN, MASTER_STAT_AVAIL})
     \<and> (\<forall>s \<in> L. sv_total_proc (sv s) = int (card (procs T s)) \<and> sv_avail_proc (sv s) = int (card (avails T s)) \<and> known_type (sv_type (sv s)))"

definition throttles_ok :: "serv_id set \<Rightarrow> (master_timer \<rightharpoonup> int) \<Rightarrow> (serv_id \<Rightarrow> service) \<Rightarrow> bool" where
  "throttles_ok L tm sv \<longleftrightarrow> (\<forall>s \<in> L. MASTER_THROTTLED (sv s) \<longleftrightarrow> tm (Tm_unthrottle s) \<noteq> None)
     \<and> (\<forall>s. s \<notin> L \<longrightarrow> tm (Tm_unthrottle s) = None \<and> tm (Tm_wakeup s) = None)"

text \<open>The descriptors that are watched are those of listening services and the status pipes.\<close>

definition status_fds :: "service \<Rightarrow> int set" where
  "status_fds sv = fst ` set_option (sv_status_fd sv)"

definition readers_ok :: "serv_id set \<Rightarrow> (int \<rightharpoonup> reader) \<Rightarrow> (serv_id \<Rightarrow> service) \<Rightarrow> bool" where
  "readers_ok L rd sv \<longleftrightarrow>
     (\<forall>fd s. rd fd = Some (Rd_avail s) \<longleftrightarrow> s \<in> L \<and> MASTER_LISTENING (sv s) \<and> fd \<in> set (sv_listen_fd (sv s)))
     \<and> (\<forall>fd s. rd fd = Some (Rd_status s) \<longleftrightarrow> s \<in> L \<and> fd \<in> status_fds (sv s))"

text \<open>No descriptor has two uses.\<close>

definition fds_ok :: "serv_id set \<Rightarrow> (serv_id \<Rightarrow> service) \<Rightarrow> bool" where
  "fds_ok L sv \<longleftrightarrow> (\<forall>s \<in> L. \<forall>t \<in> L. set (sv_listen_fd (sv s)) \<inter> status_fds (sv t) = {}
     \<and> (s \<noteq> t \<longrightarrow> set (sv_listen_fd (sv s)) \<inter> set (sv_listen_fd (sv t)) = {} \<and> status_fds (sv s) \<inter> status_fds (sv t) = {}))"

definition base_ok :: "serv_id set \<Rightarrow> master \<Rightarrow> bool" where
  "base_ok L m \<longleftrightarrow> tally_ok L (master_child_table m) (services m) \<and> throttles_ok L (master_timers m) (services m)
     \<and> readers_ok L (master_readers m) (services m) \<and> fds_ok L (services m)"

text \<open>A service is attended when the process manager listens exactly when the policy says so.\<close>

definition attended :: "service \<Rightarrow> bool" where
  "attended sv \<longleftrightarrow> (MASTER_LISTENING sv \<longleftrightarrow> wants_listen sv)"

definition near_ok :: "serv_id \<Rightarrow> serv_id set \<Rightarrow> master \<Rightarrow> bool" where
  "near_ok s L m \<longleftrightarrow> base_ok L m \<and> s \<in> L \<and> (\<forall>t \<in> L. t \<noteq> s \<longrightarrow> attended (services m t))"

definition serv_good :: "serv_id set \<Rightarrow> master \<Rightarrow> bool" where
  "serv_good L m \<longleftrightarrow> base_ok L m \<and> (\<forall>t \<in> L. attended (services m t))"

lemma good_near: "serv_good L m \<Longrightarrow> s \<in> L \<Longrightarrow> near_ok s L m"
  by (simp add: serv_good_def near_ok_def)

section \<open>Watching for connection requests\<close>

lemma upd_serv_simps [simp]:
  "services (upd_serv s f m) = (services m)(s := f (services m s))" "master_child_table (upd_serv s f m) = master_child_table m"
  "master_head (upd_serv s f m) = master_head m" "master_timers (upd_serv s f m) = master_timers m"
  "master_readers (upd_serv s f m) = master_readers m" "master_time (upd_serv s f m) = master_time m" "next_serv (upd_serv s f m) = next_serv m"
  by (simp_all add: upd_serv_def)

lemma event_fields [simp]:
  "services (request_timer tm d m) = services m" "master_child_table (request_timer tm d m) = master_child_table m"
  "master_head (request_timer tm d m) = master_head m" "master_readers (request_timer tm d m) = master_readers m"
  "master_timers (request_timer tm d m) = (master_timers m)(tm \<mapsto> master_time m + d)" "next_serv (request_timer tm d m) = next_serv m"
  "services (cancel_timer tm m) = services m" "master_child_table (cancel_timer tm m) = master_child_table m"
  "master_head (cancel_timer tm m) = master_head m" "master_readers (cancel_timer tm m) = master_readers m"
  "master_timers (cancel_timer tm m) = (master_timers m)(tm := None)" "next_serv (cancel_timer tm m) = next_serv m"
  "services (enable_read r fds m) = services m" "master_child_table (enable_read r fds m) = master_child_table m"
  "master_head (enable_read r fds m) = master_head m" "master_timers (enable_read r fds m) = master_timers m" "next_serv (enable_read r fds m) = next_serv m"
  "services (disable_readwrite fds m) = services m" "master_child_table (disable_readwrite fds m) = master_child_table m"
  "master_head (disable_readwrite fds m) = master_head m" "master_timers (disable_readwrite fds m) = master_timers m" "next_serv (disable_readwrite fds m) = next_serv m"
  by (simp_all add: request_timer_def cancel_timer_def enable_read_def disable_readwrite_def)

lemma readers_fold: "fold (\<lambda>fd e. e(fd := v)) fds rd fd = (if fd \<in> set fds then v else rd fd)"
  by (induction fds arbitrary: rd) auto

lemma readers_simps [simp]:
  "master_readers (enable_read r fds m) fd = (if fd \<in> set fds then Some r else master_readers m fd)"
  "master_readers (disable_readwrite fds m) fd = (if fd \<in> set fds then None else master_readers m fd)"
  by (simp_all add: enable_read_def disable_readwrite_def readers_fold)

text \<open>What the operation leaves alone.\<close>

lemma avail_listen_frame [simp]:
  "t \<noteq> s \<Longrightarrow> services (master_avail_listen s m) t = services m t" "master_child_table (master_avail_listen s m) = master_child_table m"
  "master_head (master_avail_listen s m) = master_head m" "master_timers (master_avail_listen s m) = master_timers m"
  "next_serv (master_avail_listen s m) = next_serv m"
  by (simp_all add: master_avail_listen_def Let_def)

lemma avail_listen_serv [simp]:
  "MASTER_FLAG_LISTEN AND b = 0 \<Longrightarrow> sv_flags (services (master_avail_listen s m) t) AND b = sv_flags (services m t) AND b"
  "sv_name (services (master_avail_listen s m) t) = sv_name (services m t)" "sv_type (services (master_avail_listen s m) t) = sv_type (services m t)"
  "sv_listen_fd (services (master_avail_listen s m) t) = sv_listen_fd (services m t)" "sv_max_proc (services (master_avail_listen s m) t) = sv_max_proc (services m t)"
  "sv_avail_proc (services (master_avail_listen s m) t) = sv_avail_proc (services m t)" "sv_total_proc (services (master_avail_listen s m) t) = sv_total_proc (services m t)"
  "sv_status_fd (services (master_avail_listen s m) t) = sv_status_fd (services m t)" "sv_wakeup_time (services (master_avail_listen s m) t) = sv_wakeup_time (services m t)"
  "sv_ext_name (services (master_avail_listen s m) t) = sv_ext_name (services m t)"
  "sv_path (services (master_avail_listen s m) t) = sv_path (services m t)"
  "sv_args (services (master_avail_listen s m) t) = sv_args (services m t)"
  "sv_throttle_delay (services (master_avail_listen s m) t) = sv_throttle_delay (services m t)"
  "sv_stress (services (master_avail_listen s m) t) = sv_stress (services m t)"
  by (auto simp: master_avail_listen_def Let_def)

lemma avail_listen_listening: "MASTER_LISTENING (services (master_avail_listen s m) s) \<longleftrightarrow> wants_listen (services m s)"
  by (simp add: master_avail_listen_def Let_def)

lemma avail_listen_attended: "attended (services (master_avail_listen s m) s)"
proof -
  have "wants_listen (services (master_avail_listen s m) s) = wants_listen (services m s)" by (rule wants_listen_cong) simp_all
  then show ?thesis by (simp add: attended_def avail_listen_listening)
qed

lemma avail_listen_readers:
  "master_readers (master_avail_listen s m) fd =
     (if fd \<in> set (sv_listen_fd (services m s)) \<and> MASTER_LISTENING (services m s) \<noteq> wants_listen (services m s)
      then if wants_listen (services m s) then Some (Rd_avail s) else None else master_readers m fd)"
  by (auto simp: master_avail_listen_def Let_def)

text \<open>It establishes the policy for the service.\<close>

lemma status_fds_cong: "sv_status_fd a = sv_status_fd b \<Longrightarrow> status_fds a = status_fds b"
  by (simp add: status_fds_def)

lemma fds_okD:
  assumes "fds_ok L sv" and "s \<in> L" and "t \<in> L"
  shows "fd \<in> set (sv_listen_fd (sv s)) \<Longrightarrow> fd \<in> status_fds (sv t) \<Longrightarrow> False"
    "s \<noteq> t \<Longrightarrow> fd \<in> set (sv_listen_fd (sv s)) \<Longrightarrow> fd \<in> set (sv_listen_fd (sv t)) \<Longrightarrow> False"
    "s \<noteq> t \<Longrightarrow> fd \<in> status_fds (sv s) \<Longrightarrow> fd \<in> status_fds (sv t) \<Longrightarrow> False"
  using assms unfolding fds_ok_def disjoint_iff by blast+

lemma avail_listen_base:
  assumes base: "base_ok L m" and s: "s \<in> L"
  shows "base_ok L (master_avail_listen s m)"
proof -
  let ?m = "master_avail_listen s m"
  have st: "status_fds (services ?m t) = status_fds (services m t)" for t by (rule status_fds_cong) simp
  have fds: "fds_ok L (services m)" and rd: "readers_ok L (master_readers m) (services m)" using base by (simp_all add: base_ok_def)
  have ls: "MASTER_LISTENING (services ?m t) \<longleftrightarrow> (if t = s then wants_listen (services m s) else MASTER_LISTENING (services m t))" for t
    by (cases "t = s") (simp_all add: avail_listen_listening)
  have "master_readers ?m fd = Some (Rd_avail t) \<longleftrightarrow> t \<in> L \<and> MASTER_LISTENING (services ?m t) \<and> fd \<in> set (sv_listen_fd (services ?m t))" for fd t
    unfolding avail_listen_readers ls using rd s fds_okD(2) [OF fds s, of t fd] by (auto simp: readers_ok_def)
  moreover have "master_readers ?m fd = Some (Rd_status t) \<longleftrightarrow> t \<in> L \<and> fd \<in> status_fds (services ?m t)" for fd t
    unfolding avail_listen_readers st using rd s fds_okD(1) [OF fds s, of t fd] by (auto simp: readers_ok_def)
  ultimately have "readers_ok L (master_readers ?m) (services ?m)" by (simp add: readers_ok_def)
  moreover have "fds_ok L (services ?m)" using fds by (simp add: fds_ok_def st)
  ultimately show ?thesis using base by (simp add: base_ok_def tally_ok_def throttles_ok_def)
qed

lemma avail_listen_good:
  assumes "near_ok s L m"
  shows "serv_good L (master_avail_listen s m)"
proof -
  have "attended (services (master_avail_listen s m) t)" if "t \<in> L" for t
    using that assms avail_listen_attended [of s m] by (cases "t = s") (simp_all add: near_ok_def)
  then show ?thesis using assms by (simp add: near_ok_def serv_good_def avail_listen_base)
qed

section \<open>Operations on a service\<close>

text \<open>An operation whose last act is to enforce the policy.\<close>

lemma avail_listen_table: "(master_avail_listen s m)\<lparr>master_child_table := T\<rparr> = master_avail_listen s (m\<lparr>master_child_table := T\<rparr>)"
  by (simp add: master_avail_listen_def Let_def upd_serv_def enable_read_def disable_readwrite_def)

text \<open>The counters follow the table.\<close>

lemma tally_okI:
  assumes "tally_ok L T sv" and "finite (dom T')" and "\<And>pid p. T' pid = Some p \<Longrightarrow> pr_serv p \<in> L \<and> pr_avail p \<in> {MASTER_STAT_TAKEN, MASTER_STAT_AVAIL}"
    and "\<And>t. t \<in> L \<Longrightarrow> t \<noteq> s \<Longrightarrow> procs T' t = procs T t \<and> avails T' t = avails T t"
    and "sv_type x = sv_type (sv s)" and "sv_total_proc x = int (card (procs T' s))" and "sv_avail_proc x = int (card (avails T' s))"
  shows "tally_ok L T' (sv(s := x))"
  using assms unfolding tally_ok_def by auto

lemma tally_ok_upd:
  assumes c: "tally_ok L T sv" and p: "T pid = Some p" "pr_serv p = s"
  shows "pr_avail p \<noteq> MASTER_STAT_AVAIL \<Longrightarrow> sv_type x = sv_type (sv s) \<Longrightarrow> sv_total_proc x = sv_total_proc (sv s) \<Longrightarrow>
      sv_avail_proc x = sv_avail_proc (sv s) + 1 \<Longrightarrow> tally_ok L (T(pid \<mapsto> p\<lparr>pr_use_count := u, pr_avail := MASTER_STAT_AVAIL\<rparr>)) (sv(s := x))"
    and "pr_avail p = MASTER_STAT_AVAIL \<Longrightarrow> sv_type x = sv_type (sv s) \<Longrightarrow> sv_total_proc x = sv_total_proc (sv s) \<Longrightarrow>
      sv_avail_proc x = sv_avail_proc (sv s) - 1 \<Longrightarrow> tally_ok L (T(pid \<mapsto> p\<lparr>pr_avail := MASTER_STAT_TAKEN\<rparr>)) (sv(s := x))"
    and "sv_type x = sv_type (sv s) \<Longrightarrow> sv_total_proc x = sv_total_proc (sv s) - 1 \<Longrightarrow>
      sv_avail_proc x = sv_avail_proc (sv s) - (if pr_avail p = MASTER_STAT_AVAIL then 1 else 0) \<Longrightarrow> tally_ok L (T(pid := None)) (sv(s := x))"
proof -
  have fin: "finite (dom T)" "finite (procs T s)" "finite (avails T s)" and s: "s \<in> L"
    and cnt: "sv_total_proc (sv s) = int (card (procs T s))" "sv_avail_proc (sv s) = int (card (avails T s))"
    and all: "\<And>pid p. T pid = Some p \<Longrightarrow> pr_serv p \<in> L \<and> pr_avail p \<in> {MASTER_STAT_TAKEN, MASTER_STAT_AVAIL}" using c p by (auto simp: tally_ok_def)
  have ins: "insert pid (procs T s) = procs T s" using p by auto
  have other: "procs T t - {pid} = procs T t" "avails T t - {pid} = avails T t" if "t \<noteq> s" for t using p that by auto
  have taken: "MASTER_STAT_TAKEN \<noteq> MASTER_STAT_AVAIL" by (simp add: MASTER_STAT_TAKEN_def MASTER_STAT_AVAIL_def)
  have pos: "0 < card (procs T s)" "pr_avail p = MASTER_STAT_AVAIL \<Longrightarrow> 0 < card (avails T s)"
    using fin(2,3) p by (auto simp only: card_gt_0_iff procs_def avails_def)
  show "tally_ok L (T(pid \<mapsto> p\<lparr>pr_use_count := u, pr_avail := MASTER_STAT_AVAIL\<rparr>)) (sv(s := x))"
    if "pr_avail p \<noteq> MASTER_STAT_AVAIL" "sv_type x = sv_type (sv s)" "sv_total_proc x = sv_total_proc (sv s)" "sv_avail_proc x = sv_avail_proc (sv s) + 1"
    by (rule tally_okI [OF c]) (use that fin s p cnt all ins other in \<open>auto split: if_splits\<close>)
  show "tally_ok L (T(pid \<mapsto> p\<lparr>pr_avail := MASTER_STAT_TAKEN\<rparr>)) (sv(s := x))"
    if "pr_avail p = MASTER_STAT_AVAIL" "sv_type x = sv_type (sv s)" "sv_total_proc x = sv_total_proc (sv s)" "sv_avail_proc x = sv_avail_proc (sv s) - 1"
    by (rule tally_okI [OF c]) (use that fin s p cnt all ins other taken pos in \<open>auto simp: of_nat_diff split: if_splits\<close>)
  show "tally_ok L (T(pid := None)) (sv(s := x))"
    if "sv_type x = sv_type (sv s)" "sv_total_proc x = sv_total_proc (sv s) - 1"
      "sv_avail_proc x = sv_avail_proc (sv s) - (if pr_avail p = MASTER_STAT_AVAIL then 1 else 0)"
    by (rule tally_okI [OF c]) (use that fin p cnt all other pos in \<open>auto simp: of_nat_diff split: if_splits\<close>)
qed

lemma tally_ok_new:
  assumes c: "tally_ok L T sv" and s: "s \<in> L" and p: "T pid = None" "pr_serv p = s" "pr_avail p = MASTER_STAT_AVAIL"
    and x: "sv_type x = sv_type (sv s)" "sv_total_proc x = sv_total_proc (sv s) + 1" "sv_avail_proc x = sv_avail_proc (sv s) + 1"
  shows "tally_ok L (T(pid \<mapsto> p)) (sv(s := x))"
proof -
  have "finite (dom T)" "finite (procs T s)" "finite (avails T s)"
    and "sv_total_proc (sv s) = int (card (procs T s))" "sv_avail_proc (sv s) = int (card (avails T s))"
    and "\<And>pid p. T pid = Some p \<Longrightarrow> pr_serv p \<in> L \<and> pr_avail p \<in> {MASTER_STAT_TAKEN, MASTER_STAT_AVAIL}" using c s by (auto simp: tally_ok_def)
  then show ?thesis using p x s by (intro tally_okI [OF c]) (auto split: if_splits)
qed

text \<open>Changes of a service that do not concern its descriptors.\<close>

lemma base_ok_upd:
  assumes base: "base_ok L m" and s: "s \<in> L" and counts: "tally_ok L (master_child_table m') (services m')"
    and x: "services m' = (services m)(s := x)" "sv_listen_fd x = sv_listen_fd (services m s)" "sv_status_fd x = sv_status_fd (services m s)"
      "MASTER_LISTENING x \<longleftrightarrow> MASTER_LISTENING (services m s)" and rd: "master_readers m' = master_readers m"
    and tm: "MASTER_THROTTLED x \<longleftrightarrow> master_timers m' (Tm_unthrottle s) \<noteq> None" "\<And>t. t \<noteq> s \<Longrightarrow> master_timers m' (Tm_unthrottle t) = master_timers m (Tm_unthrottle t)"
      "\<And>t. t \<notin> L \<Longrightarrow> master_timers m' (Tm_wakeup t) = None"
  shows "base_ok L m'"
proof -
  have st: "status_fds x = status_fds (services m s)" by (rule status_fds_cong) (rule x)
  have old: "throttles_ok L (master_timers m) (services m)" using base by (simp add: base_ok_def)
  have "master_timers m' (Tm_unthrottle t) = None" if "t \<notin> L" for t
  proof -
    have "t \<noteq> s" using that s by auto
    then show ?thesis using tm(2) [of t] old that by (simp add: throttles_ok_def)
  qed
  then have "throttles_ok L (master_timers m') (services m')" using old x(1) tm by (auto simp: throttles_ok_def)
  moreover have "readers_ok L (master_readers m') (services m')" using base s x rd st by (auto simp: base_ok_def readers_ok_def)
  moreover have "fds_ok L (services m')" using base x(1,2) st by (auto simp: base_ok_def fds_ok_def)
  ultimately show ?thesis using counts by (simp add: base_ok_def)
qed

text \<open>Operations on a service leave the other services and the list of services alone.\<close>

definition serv_frame :: "serv_id \<Rightarrow> master \<Rightarrow> master \<Rightarrow> bool" where
  "serv_frame s m m' \<longleftrightarrow> (\<forall>t. t \<noteq> s \<longrightarrow> services m' t = services m t) \<and> master_head m' = master_head m \<and> next_serv m' = next_serv m"

text \<open>Most operations leave the configuration of all services alone.\<close>

definition settings :: "service \<Rightarrow> int \<times> int \<times> int \<times> string \<times> string \<times> string list \<times> bool" where
  "settings sv = (sv_max_proc sv, sv_wakeup_time sv, sv_throttle_delay sv, sv_ext_name sv, sv_path sv, sv_args sv, sv_stress sv)"

definition conf_of :: "service \<Rightarrow> string \<times> int \<times> (int \<times> int \<times> int \<times> string \<times> string \<times> string list \<times> bool) \<times> int list \<times> (int \<times> int) option \<times> bool" where
  "conf_of sv = (sv_name sv, sv_type sv, settings sv, sv_listen_fd sv, sv_status_fd sv, MASTER_MARKED_FOR_DELETION sv)"

lemmas conf_defs = conf_of_def settings_def

definition conf_same :: "master \<Rightarrow> master \<Rightarrow> bool" where
  "conf_same m m' \<longleftrightarrow> (\<forall>t. conf_of (services m' t) = conf_of (services m t)) \<and> master_head m' = master_head m \<and> next_serv m' = next_serv m"

lemma conf_same_refl [simp]: "conf_same m m"
  by (simp add: conf_same_def)

lemma conf_same_trans: "conf_same m m' \<Longrightarrow> conf_same m' m'' \<Longrightarrow> conf_same m m''"
  by (simp add: conf_same_def)

lemma avail_listen_conf: "conf_same m m' \<Longrightarrow> conf_same m (master_avail_listen s m')"
  by (simp add: conf_same_def conf_defs)

lemma serv_frame_refl [simp]: "serv_frame s m m"
  by (simp add: serv_frame_def)

lemma serv_frame_trans: "serv_frame s m m' \<Longrightarrow> serv_frame s m' m'' \<Longrightarrow> serv_frame s m m''"
  by (simp add: serv_frame_def)

lemma avail_listen_serv_frame: "serv_frame s m m' \<Longrightarrow> serv_frame s m (master_avail_listen s m')"
  by (simp add: serv_frame_def)

lemma near_frame: "near_ok s L m \<Longrightarrow> base_ok L m' \<Longrightarrow> serv_frame s m m' \<Longrightarrow> near_ok s L m'"
  by (simp add: near_ok_def serv_frame_def)

text \<open>The change before the last step, for the operations on one process.\<close>

lemma near_okI:
  assumes near: "near_ok s L m" and counts: "tally_ok L (master_child_table m') (services m')"
    and frame: "\<And>t. t \<noteq> s \<Longrightarrow> services m' t = services m t"
    and x: "sv_listen_fd (services m' s) = sv_listen_fd (services m s)" "sv_status_fd (services m' s) = sv_status_fd (services m s)"
      "MASTER_LISTENING (services m' s) \<longleftrightarrow> MASTER_LISTENING (services m s)" "MASTER_THROTTLED (services m' s) \<longleftrightarrow> MASTER_THROTTLED (services m s)"
    and ev: "master_readers m' = master_readers m" "master_timers m' = master_timers m"
  shows "near_ok s L m'"
proof -
  have base: "base_ok L m" "s \<in> L" "throttles_ok L (master_timers m) (services m)" using near by (simp_all add: near_ok_def base_ok_def)
  have upd: "services m' = (services m)(s := services m' s)" using frame by (auto simp: fun_eq_iff)
  have "base_ok L m'" by (rule base_ok_upd [OF base(1,2) counts upd]) (use base(2,3) x ev in \<open>auto simp: throttles_ok_def\<close>)
  then show ?thesis using near frame by (simp add: near_ok_def)
qed

lemma near_counts: "near_ok s L m \<Longrightarrow> tally_ok L (master_child_table m) (services m)"
  by (simp add: near_ok_def base_ok_def)

lemma avail_more_good:
  assumes near: "near_ok s L m" and p: "master_child_table m pid = Some p" "pr_serv p = s" "pr_avail p \<noteq> MASTER_STAT_AVAIL"
  shows "returns (master_avail_more s pid (m\<lparr>master_child_table := (master_child_table m)(pid \<mapsto> p\<lparr>pr_use_count := u\<rparr>)\<rparr>))
    (\<lambda>m'. serv_good L m' \<and> serv_frame s m m' \<and> conf_same m m' \<and> sv_total_proc (services m' s) = sv_total_proc (services m s))"
proof -
  let ?T = "(master_child_table m)(pid \<mapsto> p\<lparr>pr_use_count := u, pr_avail := MASTER_STAT_AVAIL\<rparr>)"
  let ?m = "(upd_serv s (\<lambda>x. x\<lparr>sv_avail_proc := sv_avail_proc x + 1\<rparr>) m)\<lparr>master_child_table := ?T\<rparr>"
  have "near_ok s L ?m"
    by (rule near_okI [OF near]) (simp_all add: tally_ok_upd(1) [OF near_counts [OF near] p])
  then have "serv_good L (master_avail_listen s ?m)" by (rule avail_listen_good)
  moreover have "serv_frame s m (master_avail_listen s ?m)" by (rule avail_listen_serv_frame) (simp add: serv_frame_def)
  moreover have "conf_same m (master_avail_listen s ?m)" by (rule avail_listen_conf) (simp add: conf_same_def conf_defs)
  ultimately show ?thesis using p(3) by (simp add: master_avail_more_def upd_serv_def)
qed

lemma avail_less_good:
  assumes near: "near_ok s L m" and p: "master_child_table m pid = Some p" "pr_serv p = s" "pr_avail p = MASTER_STAT_AVAIL"
  shows "returns (master_avail_less s pid m) (\<lambda>m'. serv_good L m' \<and> serv_frame s m m' \<and> conf_same m m' \<and> sv_total_proc (services m' s) = sv_total_proc (services m s))"
proof -
  let ?T = "(master_child_table m)(pid \<mapsto> p\<lparr>pr_avail := MASTER_STAT_TAKEN\<rparr>)"
  let ?m = "(upd_serv s (\<lambda>x. x\<lparr>sv_avail_proc := sv_avail_proc x - 1\<rparr>) m)\<lparr>master_child_table := ?T\<rparr>"
  have "near_ok s L ?m"
    by (rule near_okI [OF near]) (simp_all add: tally_ok_upd(2) [OF near_counts [OF near] p])
  then have "serv_good L (master_avail_listen s ?m)" by (rule avail_listen_good)
  moreover have "serv_frame s m (master_avail_listen s ?m)" by (rule avail_listen_serv_frame) (simp add: serv_frame_def)
  moreover have "conf_same m (master_avail_listen s ?m)" by (rule avail_listen_conf) (simp add: conf_same_def conf_defs)
  ultimately show ?thesis using p by (simp add: master_avail_less_def)
qed

lemma delete_child_eq:
  assumes "master_child_table m pid = Some p" and "pr_serv p = s"
  shows "master_delete_child pid p m = Ret (master_avail_listen s ((upd_serv s (\<lambda>x. x\<lparr>sv_total_proc := sv_total_proc x - 1,
    sv_avail_proc := sv_avail_proc x - (if pr_avail p = MASTER_STAT_AVAIL then 1 else 0)\<rparr>) m)\<lparr>master_child_table := (master_child_table m)(pid := None)\<rparr>))"
  using assms by (simp add: master_delete_child_def master_avail_less_def avail_listen_table Let_def upd_serv_def)

lemma delete_child_good:
  assumes near: "near_ok s L m" and p: "master_child_table m pid = Some p" "pr_serv p = s"
  shows "returns (master_delete_child pid p m) (\<lambda>m'. serv_good L m' \<and> serv_frame s m m'
    \<and> master_child_table m' = (master_child_table m)(pid := None) \<and> conf_same m m')"
proof -
  let ?m = "(upd_serv s (\<lambda>x. x\<lparr>sv_total_proc := sv_total_proc x - 1,
    sv_avail_proc := sv_avail_proc x - (if pr_avail p = MASTER_STAT_AVAIL then 1 else 0)\<rparr>) m)\<lparr>master_child_table := (master_child_table m)(pid := None)\<rparr>"
  have "near_ok s L ?m"
    by (rule near_okI [OF near]) (simp_all add: tally_ok_upd(3) [OF near_counts [OF near] p])
  then have "serv_good L (master_avail_listen s ?m)" by (rule avail_listen_good)
  moreover have "serv_frame s m (master_avail_listen s ?m)" by (rule avail_listen_serv_frame) (simp add: serv_frame_def)
  moreover have "conf_same m (master_avail_listen s ?m)" by (rule avail_listen_conf) (simp add: conf_same_def conf_defs)
  ultimately show ?thesis unfolding delete_child_eq [OF p] by simp
qed

section \<open>Throttling and timers\<close>

lemma throttle_good:
  assumes near: "near_ok s L m" and att: "attended (services m s)"
  shows "serv_good L (master_throttle s m) \<and> serv_frame s m (master_throttle s m) \<and> MASTER_THROTTLED (services (master_throttle s m) s)
    \<and> master_child_table (master_throttle s m) = master_child_table m
    \<and> sv_total_proc (services (master_throttle s m) s) = sv_total_proc (services m s) \<and> conf_same m (master_throttle s m)"
proof (cases "MASTER_THROTTLED (services m s)")
  case True
  then show ?thesis using near att by (auto simp: master_throttle_def near_ok_def serv_good_def)
next
  case False
  let ?m = "request_timer (Tm_unthrottle s) (sv_throttle_delay (services m s)) (upd_serv s (set_flag MASTER_FLAG_THROTTLE) m)"
  have nearD: "base_ok L m" "s \<in> L" using near by (simp_all add: near_ok_def)
  have "base_ok L ?m"
    by (rule base_ok_upd [OF nearD, where x = "set_flag MASTER_FLAG_THROTTLE (services m s)"])
      (use nearD in \<open>auto simp: base_ok_def tally_ok_def throttles_ok_def\<close>)
  then have "near_ok s L ?m" by (rule near_frame [OF near]) (simp add: serv_frame_def)
  then have "serv_good L (master_avail_listen s ?m)" by (rule avail_listen_good)
  moreover have "serv_frame s m (master_avail_listen s ?m)" by (rule avail_listen_serv_frame) (simp add: serv_frame_def)
  moreover have "conf_same m (master_avail_listen s ?m)" by (rule avail_listen_conf) (simp add: conf_same_def conf_defs)
  ultimately show ?thesis using False by (simp add: master_throttle_def)
qed

lemma unthrottle_good:
  assumes near: "near_ok s L m" and att: "attended (services m s)"
  shows "serv_good L (master_unthrottle s m) \<and> serv_frame s m (master_unthrottle s m) \<and> \<not> MASTER_THROTTLED (services (master_unthrottle s m) s)
    \<and> master_child_table (master_unthrottle s m) = master_child_table m
    \<and> sv_total_proc (services (master_unthrottle s m) s) = sv_total_proc (services m s) \<and> conf_same m (master_unthrottle s m)"
proof (cases "MASTER_THROTTLED (services m s)")
  case False
  then show ?thesis using near att by (auto simp: master_unthrottle_def near_ok_def serv_good_def)
next
  case True
  let ?m = "cancel_timer (Tm_unthrottle s) (upd_serv s (clear_flag MASTER_FLAG_THROTTLE) m)"
  have nearD: "base_ok L m" "s \<in> L" using near by (simp_all add: near_ok_def)
  have "base_ok L ?m"
    by (rule base_ok_upd [OF nearD, where x = "clear_flag MASTER_FLAG_THROTTLE (services m s)"])
      (use nearD in \<open>auto simp: base_ok_def tally_ok_def throttles_ok_def\<close>)
  then have "near_ok s L ?m" by (rule near_frame [OF near]) (simp add: serv_frame_def)
  then have "serv_good L (master_avail_listen s ?m)" by (rule avail_listen_good)
  moreover have "serv_frame s m (master_avail_listen s ?m)" by (rule avail_listen_serv_frame) (simp add: serv_frame_def)
  moreover have "conf_same m (master_avail_listen s ?m)" by (rule avail_listen_conf) (simp add: conf_same_def conf_defs)
  ultimately show ?thesis using True by (simp add: master_unthrottle_def)
qed

text \<open>Operations on timers only.\<close>

lemma base_ok_timer:
  assumes "base_ok L m" and "s \<in> L" and "services m' = services m" "master_child_table m' = master_child_table m"
    "master_readers m' = master_readers m" "\<And>tm. tm \<noteq> Tm_wakeup s \<Longrightarrow> master_timers m' tm = master_timers m tm"
  shows "base_ok L m'"
proof -
  have "master_timers m' (Tm_wakeup t) = master_timers m (Tm_wakeup t)" if "t \<notin> L" for t
    using that assms(2) by (intro assms(6)) auto
  then show ?thesis using assms by (auto simp: base_ok_def throttles_ok_def)
qed

lemma wakeup_event_ok:
  assumes "base_ok L m" and "s \<in> L"
  shows "returns (master_wakeup_timer_event s m) (\<lambda>m'. base_ok L m' \<and> services m' = services m \<and> conf_same m m'
    \<and> master_child_table m' = master_child_table m)"
proof -
  have ty: "known_type (sv_type (services m s))" using assms by (simp add: base_ok_def tally_ok_def)
  have "base_ok L m'" if "services m' = services m" "master_child_table m' = master_child_table m" "master_readers m' = master_readers m"
    "\<And>tm. tm \<noteq> Tm_wakeup s \<Longrightarrow> master_timers m' tm = master_timers m tm" for m' using that by (rule base_ok_timer [OF assms])
  then show ?thesis using ty assms by (auto simp: master_wakeup_timer_event_def Let_def conf_same_def)
qed

lemma wakeup_init_ok:
  assumes "base_ok L m" and "s \<in> L"
  shows "returns (master_wakeup_init s m) (\<lambda>m'. base_ok L m' \<and> services m' = services m \<and> conf_same m m'
    \<and> master_child_table m' = master_child_table m)"
  using wakeup_event_ok [OF assms] assms by (simp add: master_wakeup_init_def)

lemma wakeup_cleanup_ok: "base_ok L m \<Longrightarrow> s \<in> L \<Longrightarrow> base_ok L (master_wakeup_cleanup s m)"
  by (rule base_ok_timer) (auto simp: master_wakeup_cleanup_def)

section \<open>Starting processes\<close>

text \<open>The kernel does not hand out the id of a process that was not waited for.\<close>

definition fork_ok :: "int option \<Rightarrow> master \<Rightarrow> bool" where
  "fork_ok fork m \<longleftrightarrow> (case fork of None \<Rightarrow> True | Some pid \<Rightarrow> master_child_table m pid = None)"

lemma spawn_good:
  assumes good: "serv_good L m" and s: "s \<in> L" and want: "wants_listen (services m s)" and fork: "fork_ok fork m"
  shows "returns (master_spawn fork s m) (\<lambda>m'. serv_good L m' \<and> conf_same m m' \<and> serv_frame s m m'
    \<and> (sv_total_proc (services m' s) = sv_total_proc (services m s) + 1 \<or> sv_total_proc (services m' s) = sv_total_proc (services m s) \<and> MASTER_THROTTLED (services m' s)))"
proof -
  have pre: "MASTER_LIMIT_OK (sv_max_proc (services m s)) (sv_total_proc (services m s))" "\<not> 0 < sv_avail_proc (services m s)" "\<not> MASTER_THROTTLED (services m s)"
    using want by (simp_all add: wants_listen_def split: if_splits)
  let ?m = "m\<lparr>master_generation := master_generation m + 1\<rparr>"
  have good1: "serv_good L ?m" using good by (simp add: serv_good_def base_ok_def)
  show ?thesis
  proof (cases fork)
    case None
    have "attended (services ?m s)" using good1 s by (simp add: serv_good_def)
    from throttle_good [OF good_near [OF good1 s] this] show ?thesis
      using pre by (auto simp: master_spawn_def None Let_def conf_same_def serv_frame_def)
  next
    case (Some pid)
    let ?p = "\<lparr>pr_gen = master_generation m + 1, pr_avail = MASTER_STAT_AVAIL, pr_serv = s, pr_use_count = 0\<rparr>"
    let ?m1 = "(upd_serv s (\<lambda>x. x\<lparr>sv_total_proc := sv_total_proc x + 1, sv_avail_proc := sv_avail_proc x + 1\<rparr>) ?m)
        \<lparr>master_child_table := (master_child_table m)(pid \<mapsto> ?p)\<rparr>"
    let ?m2 = "master_avail_listen s ?m1"
    have near: "near_ok s L m" by (rule good_near [OF good s])
    have "near_ok s L ?m1"
      by (rule near_okI [OF near]) (use fork Some in \<open>simp_all add: tally_ok_new [OF near_counts [OF near] s] fork_ok_def\<close>)
    then have good2: "serv_good L ?m2" by (rule avail_listen_good)
    have conf2: "conf_same m ?m2" by (rule avail_listen_conf) (simp add: conf_same_def conf_defs)
    have frame2: "serv_frame s m ?m2" by (rule avail_listen_serv_frame) (simp add: serv_frame_def)
    have spawn: "master_spawn fork s m = (if sv_flags (services ?m2 s) AND MASTER_FLAG_CONDWAKE \<noteq> 0
        then master_wakeup_init s (upd_serv s (clear_flag MASTER_FLAG_CONDWAKE) ?m2) else Ret ?m2)"
      using pre by (simp add: master_spawn_def Some Let_def master_avail_more_def upd_serv_def MASTER_STAT_AVAIL_def)
    let ?m3 = "upd_serv s (clear_flag MASTER_FLAG_CONDWAKE) ?m2"
    have "near_ok s L ?m3"
      by (rule near_okI [OF good_near [OF good2 s]]) (use good2 in \<open>auto simp: serv_good_def base_ok_def tally_ok_def\<close>)
    moreover have "wants_listen (services ?m3 s) = wants_listen (services ?m2 s)" by (rule wants_listen_cong) simp_all
    ultimately have good3: "serv_good L ?m3" using good2 s by (auto simp: near_ok_def serv_good_def attended_def)
    have "returns (master_wakeup_init s ?m3) (\<lambda>m'. serv_good L m' \<and> services m' = services ?m3 \<and> conf_same ?m3 m')"
      by (rule returns_mono [OF wakeup_init_ok [OF _ s]]) (use good3 in \<open>auto simp: serv_good_def\<close>)
    then have "returns (master_wakeup_init s ?m3) (\<lambda>m'. serv_good L m' \<and> conf_same m m' \<and> serv_frame s m m' \<and> sv_total_proc (services m' s) = sv_total_proc (services m s) + 1)"
      by (rule returns_mono) (use conf2 frame2 in \<open>auto simp: conf_same_def conf_defs serv_frame_def\<close>)
    then show ?thesis unfolding spawn using good2 conf2 frame2 by (auto elim: returns_mono)
  qed
qed

section \<open>Dead processes\<close>

lemma wake_timers [simp]:
  "master_timers (master_throttle s m) (Tm_wakeup t) = master_timers m (Tm_wakeup t)"
  "master_timers (master_unthrottle s m) (Tm_wakeup t) = master_timers m (Tm_wakeup t)"
  by (simp_all add: master_throttle_def master_unthrottle_def)

text \<open>The table of processes without those that ended.\<close>

definition reap_tab :: "int \<times> wait_status \<Rightarrow> (int \<rightharpoonup> process_info) \<Rightarrow> (int \<rightharpoonup> process_info)" where
  "reap_tab w T = (if snd w = W_stopped then T else T(fst w := None))"

text \<open>\<^verbatim>\<open>waitpid()\<close> returns each child process once, unless it is stopped; an init process has other children too.\<close>

fun waits_legal :: "bool \<Rightarrow> (int \<times> wait_status) list \<Rightarrow> (int \<rightharpoonup> process_info) \<Rightarrow> bool" where
  "waits_legal init_mode [] T \<longleftrightarrow> True"
| "waits_legal init_mode (w # ws) T \<longleftrightarrow> (init_mode \<or> T (fst w) \<noteq> None) \<and> waits_legal init_mode ws (reap_tab w T)"

lemma waits_legal_append: "waits_legal i (ws @ vs) T \<longleftrightarrow> waits_legal i ws T \<and> waits_legal i vs (fold reap_tab ws T)"
  by (induction ws arbitrary: T) auto

definition reaped :: "serv_id set \<Rightarrow> master \<Rightarrow> (int \<rightharpoonup> process_info) \<Rightarrow> master \<Rightarrow> bool" where
  "reaped L m T m' \<longleftrightarrow> serv_good L m' \<and> conf_same m m' \<and> master_child_table m' = T
     \<and> (\<forall>t. master_timers m' (Tm_wakeup t) = master_timers m (Tm_wakeup t))"

lemma reap_one_good:
  assumes good: "serv_good L m" and legal: "init_mode \<or> master_child_table m (fst w) \<noteq> None"
  shows "returns (reap_one init_mode w m) (reaped L m (reap_tab w (master_child_table m)))"
proof (cases "master_child_table m (fst w)")
  case None
  then have "reap_tab w (master_child_table m) = master_child_table m" by (auto simp: reap_tab_def fun_eq_iff)
  then show ?thesis using None legal good by (simp add: reap_one_def reaped_def)
next
  case (Some p)
  let ?s = "pr_serv p"
  let ?m = "if snd w \<noteq> W_normal \<and> pr_use_count p = 0 \<and> \<not> MASTER_THROTTLED (services m ?s) then master_throttle ?s m else m"
  have s: "?s \<in> L" using good Some by (auto simp: serv_good_def base_ok_def tally_ok_def)
  have att: "attended (services m ?s)" using good s by (simp add: serv_good_def)
  have m: "serv_good L ?m" "conf_same m ?m" "master_child_table ?m = master_child_table m" "master_timers ?m (Tm_wakeup t) = master_timers m (Tm_wakeup t)" for t
    using throttle_good [OF good_near [OF good s] att] good by auto
  have p: "master_child_table ?m (fst w) = Some p" using m(3) Some by simp
  have del: "returns (master_delete_child (fst w) p ?m) (reaped L m ((master_child_table m)(fst w := None)))"
    using delete_child_good [OF good_near [OF m(1) s] p refl] conf_same_trans [OF m(2)] m(3,4)
    unfolding delete_child_eq [OF p refl] by (simp add: reaped_def)
  show ?thesis
  proof (cases "snd w = W_stopped")
    case True
    then show ?thesis using good by (simp add: reap_one_def Some reap_tab_def reaped_def Let_def)
  next
    case False
    then have "reap_one init_mode w m = master_delete_child (fst w) p ?m" by (simp add: reap_one_def Some Let_def)
    then show ?thesis using del False by (simp only: reap_tab_def if_False)
  qed
qed

lemma reap_child_good:
  "serv_good L m \<Longrightarrow> waits_legal i ws (master_child_table m) \<Longrightarrow>
     returns (master_reap_child i ws m) (reaped L m (fold reap_tab ws (master_child_table m)))"
proof (induction ws arbitrary: m)
  case (Cons w ws)
  have "returns (reap_one i w m) (reaped L m (reap_tab w (master_child_table m)))" using Cons.prems by (intro reap_one_good) simp_all
  then show ?case
    unfolding master_reap_child.simps returns_obind
  proof (rule returns_mono)
    fix m' assume m': "reaped L m (reap_tab w (master_child_table m)) m'"
    then have "returns (master_reap_child i ws m') (reaped L m' (fold reap_tab ws (master_child_table m')))"
      using Cons.prems by (intro Cons.IH) (simp_all add: reaped_def)
    then show "returns (master_reap_child i ws m') (reaped L m (fold reap_tab (w # ws) (master_child_table m)))"
      by (rule returns_mono) (use m' conf_same_trans in \<open>auto simp: reaped_def\<close>)
  qed
qed (simp add: reaped_def)

text \<open>The wait for the processes of a service ends when they do.\<close>

lemma total_zero: "base_ok L m \<Longrightarrow> s \<in> L \<Longrightarrow> sv_total_proc (services m s) > 0 \<longleftrightarrow> procs (master_child_table m) s \<noteq> {}"
  by (auto simp: base_ok_def tally_ok_def card_gt_0_iff)

lemma await_good:
  "serv_good L m \<Longrightarrow> s \<in> L \<Longrightarrow> waits_legal i (concat batches) (master_child_table m) \<Longrightarrow>
     procs (fold reap_tab (concat batches) (master_child_table m)) s = {} \<Longrightarrow>
     returns (await_children i s batches m) (\<lambda>m'. \<exists>T. reaped L m T m' \<and> procs T s = {})"
proof (induction batches arbitrary: m)
  case Nil
  then have "\<not> sv_total_proc (services m s) > 0" using total_zero [of L m s] by (simp add: serv_good_def)
  then show ?case using Nil by (subst await_children.simps) (auto simp: reaped_def)
next
  case (Cons b bs)
  show ?case
  proof (cases "sv_total_proc (services m s) > 0")
    case False
    then have "procs (master_child_table m) s = {}" using total_zero [of L m s] Cons.prems by (simp add: serv_good_def)
    then show ?thesis using False Cons.prems by (subst await_children.simps) (auto simp: reaped_def)
  next
    case True
    have reap: "returns (master_reap_child i b m) (reaped L m (fold reap_tab b (master_child_table m)))"
      using Cons.prems by (intro reap_child_good) (simp_all add: waits_legal_append)
    have "returns (await_children i s bs m') (\<lambda>m''. \<exists>T. reaped L m T m'' \<and> procs T s = {})"
      if m': "reaped L m (fold reap_tab b (master_child_table m)) m'" for m'
    proof -
      have "returns (await_children i s bs m') (\<lambda>m''. \<exists>T. reaped L m' T m'' \<and> procs T s = {})"
        using m' Cons.prems by (intro Cons.IH) (simp_all add: reaped_def waits_legal_append)
      then show ?thesis by (rule returns_mono) (use m' conf_same_trans in \<open>auto simp: reaped_def\<close>)
    qed
    then show ?thesis using reap True by (subst await_children.simps) (auto simp: returns_obind elim: returns_mono)
  qed
qed

definition ends_legal :: "bool \<Rightarrow> serv_id \<Rightarrow> (int \<times> wait_status) list list \<Rightarrow> (int \<rightharpoonup> process_info) \<Rightarrow> bool" where
  "ends_legal i s batches T \<longleftrightarrow> waits_legal i (concat batches) T \<and> procs (fold reap_tab (concat batches) T) s = {}"

lemma delete_children_good:
  assumes good: "serv_good L m" and s: "s \<in> L" and legal: "ends_legal i s batches (master_child_table m)"
  shows "returns (master_delete_children i pids batches s m) (\<lambda>m'. serv_good L m' \<and> conf_same m m' \<and> procs (master_child_table m') s = {}
    \<and> \<not> MASTER_THROTTLED (services m' s) \<and> master_timers m' (Tm_wakeup s) = master_timers m (Tm_wakeup s))"
proof -
  have att: "attended (services x s)" if "serv_good L x" for x using that s by (simp add: serv_good_def)
  let ?m = "(master_throttle s m)\<lparr>killed := filter (\<lambda>pid. case master_child_table (master_throttle s m) pid of
      None \<Rightarrow> False | Some proc \<Rightarrow> pr_serv proc = s) pids @ killed (master_throttle s m)\<rparr>"
  have th: "serv_good L (master_throttle s m)" "conf_same m (master_throttle s m)" "master_child_table (master_throttle s m) = master_child_table m"
    using throttle_good [OF good_near [OF good s] att [OF good]] by simp_all
  then have m: "serv_good L ?m" "conf_same m ?m" "master_child_table ?m = master_child_table m"
    by (simp_all add: serv_good_def base_ok_def conf_same_def)
  have un: "serv_good L (master_unthrottle s x) \<and> conf_same x (master_unthrottle s x) \<and> master_child_table (master_unthrottle s x) = master_child_table x
      \<and> \<not> MASTER_THROTTLED (services (master_unthrottle s x) s)" if "serv_good L x" for x
    using unthrottle_good [OF good_near [OF that s] att [OF that]] by simp
  have "returns (await_children i s batches ?m) (\<lambda>m'. \<exists>T. reaped L ?m T m' \<and> procs T s = {})"
    using m legal s by (intro await_good) (simp_all add: ends_legal_def)
  then have "returns (await_children i s batches ?m) (\<lambda>x. serv_good L (master_unthrottle s x) \<and> conf_same m (master_unthrottle s x)
      \<and> procs (master_child_table (master_unthrottle s x)) s = {} \<and> \<not> MASTER_THROTTLED (services (master_unthrottle s x) s)
      \<and> master_timers (master_unthrottle s x) (Tm_wakeup s) = master_timers m (Tm_wakeup s))"
    by (rule returns_mono) (use un m(2) conf_same_trans in \<open>fastforce simp: reaped_def\<close>)
  then show ?thesis by (simp add: master_delete_children_def Let_def returns_obind)
qed

text \<open>
  After the last process is gone the throttle is released, which turns on the watch for connection requests; the service
  is not silent before \<open>master_avail_cleanup\<close> turns it off.
\<close>

lemma delete_children_listens:
  assumes "serv_good L m" and "s \<in> L" and "ends_legal i s batches (master_child_table m)" and "0 \<le> sv_max_proc (services m s)"
  shows "returns (master_delete_children i pids batches s m) (\<lambda>m'. MASTER_LISTENING (services m' s))"
proof (rule returns_mono [OF delete_children_good [OF assms(1-3)]])
  fix m' assume m': "serv_good L m' \<and> conf_same m m' \<and> procs (master_child_table m') s = {}
    \<and> \<not> MASTER_THROTTLED (services m' s) \<and> master_timers m' (Tm_wakeup s) = master_timers m (Tm_wakeup s)"
  then have "avails (master_child_table m') s = {}" by (auto simp: procs_def avails_def)
  then have "sv_total_proc (services m' s) = 0" "sv_avail_proc (services m' s) = 0" "sv_max_proc (services m' s) = sv_max_proc (services m s)" "attended (services m' s)"
    using m' assms(2) by (auto simp: serv_good_def base_ok_def tally_ok_def conf_same_def conf_defs)
  then show "MASTER_LISTENING (services m' s)" using m' assms(4) by (auto simp: attended_def wants_listen_def MASTER_LIMIT_OK_def)
qed

section \<open>Starting and stopping services\<close>

definition fresh_fd :: "serv_id set \<Rightarrow> master \<Rightarrow> int \<Rightarrow> bool" where
  "fresh_fd L m fd \<longleftrightarrow> (\<forall>t \<in> L. fd \<notin> set (sv_listen_fd (services m t)) \<and> fd \<notin> status_fds (services m t))"

lemma status_init_ok:
  assumes base: "base_ok L m" and s: "s \<in> L" and none: "sv_status_fd (services m s) = None" and fresh: "fresh_fd L m (fst pipe)"
  shows "returns (master_status_init pipe s m) (\<lambda>m'. base_ok L m' \<and> services m' = (services m)(s := (services m s)\<lparr>sv_status_fd := Some pipe\<rparr>)
    \<and> master_child_table m' = master_child_table m \<and> master_head m' = master_head m \<and> next_serv m' = next_serv m)"
proof -
  let ?m = "enable_read (Rd_status s) [fst pipe] (upd_serv s (\<lambda>x. x\<lparr>sv_status_fd := Some pipe\<rparr>) m)"
  have st: "status_fds (services ?m t) = (if t = s then {fst pipe} else status_fds (services m t))" for t by (auto simp: status_fds_def)
  have none': "status_fds (services m s) = {}" using none by (simp add: status_fds_def)
  have "readers_ok L (master_readers ?m) (services ?m)"
    unfolding readers_ok_def st using base s fresh none' by (auto simp: base_ok_def readers_ok_def fresh_fd_def)
  moreover have "fds_ok L (services ?m)"
    unfolding fds_ok_def st using base fresh by (auto simp: base_ok_def fds_ok_def fresh_fd_def)
  ultimately have "base_ok L ?m" using base by (auto simp: base_ok_def tally_ok_def throttles_ok_def)
  then show ?thesis using none by (simp add: master_status_init_def)
qed

lemma status_cleanup_ok:
  assumes base: "base_ok L m" and s: "s \<in> L" and some: "sv_status_fd (services m s) \<noteq> None"
  shows "returns (master_status_cleanup s m) (\<lambda>m'. base_ok L m' \<and> services m' = (services m)(s := (services m s)\<lparr>sv_status_fd := None\<rparr>)
    \<and> master_child_table m' = master_child_table m \<and> master_head m' = master_head m \<and> next_serv m' = next_serv m
    \<and> master_timers m' = master_timers m)"
proof -
  obtain pipe where pipe: "sv_status_fd (services m s) = Some pipe" using some by auto
  let ?m = "upd_serv s (\<lambda>x. x\<lparr>sv_status_fd := None\<rparr>) (disable_readwrite [fst pipe] m)"
  have st: "status_fds (services ?m t) = (if t = s then {} else status_fds (services m t))" for t by (auto simp: status_fds_def)
  have ps: "fst pipe \<in> status_fds (services m s)" "status_fds (services m s) = {fst pipe}" using pipe by (auto simp: status_fds_def)
  have fds: "fds_ok L (services m)" using base by (simp add: base_ok_def)
  have fd: "t \<in> L \<Longrightarrow> fst pipe \<in> set (sv_listen_fd (services m t)) \<Longrightarrow> False" "t \<in> L \<Longrightarrow> t \<noteq> s \<Longrightarrow> fst pipe \<in> status_fds (services m t) \<Longrightarrow> False" for t
    using fds_okD [OF fds _ s, of t] ps by blast+
  have "readers_ok L (master_readers ?m) (services ?m)"
    unfolding readers_ok_def st using base s fd ps by (auto simp: base_ok_def readers_ok_def)
  moreover have "fds_ok L (services ?m)"
    unfolding fds_ok_def st using base by (auto simp: base_ok_def fds_ok_def)
  ultimately have "base_ok L ?m" using base by (auto simp: base_ok_def tally_ok_def throttles_ok_def)
  then show ?thesis by (simp add: master_status_cleanup_def pipe)
qed

end
