(* ===== verification/Master_Machine.thy ===== *)
theory Master_Machine
  imports Master_Proc
begin

unbundle bit_operations_syntax

text \<open>
  The process manager as a transition system: connection requests, status reports, timers, dead processes
  and configuration changes in any order.
\<close>

section \<open>Services as a whole\<close>

lemma attended_status [simp]: "attended (x\<lparr>sv_status_fd := p\<rparr>) = attended x"
  by (simp add: attended_def wants_listen_def)

lemma wants_listen_upd [simp]:
  "wants_listen (x\<lparr>sv_status_fd := p\<rparr>) = wants_listen x" "wants_listen (x\<lparr>sv_stress_expire_time := t\<rparr>) = wants_listen x"
  by (simp_all add: wants_listen_def)

text \<open>A service keeps its policy when only its status pipe changes.\<close>

lemma restart_ok:
  assumes near: "near_ok s L m" and some: "sv_status_fd (services m s) \<noteq> None" and fresh: "fresh_fd L m (fst pipe)"
  shows "returns (master_restart_service pipe s reload m) (\<lambda>m'. near_ok s L m' \<and> (reload \<or> attended (services m s) \<longrightarrow> serv_good L m')
    \<and> serv_frame s m m' \<and> master_child_table m' = master_child_table m
    \<and> conf_of (services m' s) = conf_of ((services m s)\<lparr>sv_status_fd := Some pipe\<rparr>)
    \<and> sv_total_proc (services m' s) = sv_total_proc (services m s)
    \<and> (\<not> reload \<longrightarrow> services m' s = (services m s)\<lparr>sv_status_fd := Some pipe\<rparr>))"
proof -
  let ?x = "services m s"
  let ?m1 = "master_wakeup_cleanup s m"
  have s: "s \<in> L" and base: "base_ok L m" using near by (simp_all add: near_ok_def)
  have m1: "services ?m1 = services m" "master_child_table ?m1 = master_child_table m" "master_head ?m1 = master_head m" "next_serv ?m1 = next_serv m"
    by (simp_all add: master_wakeup_cleanup_def)
  have "returns (master_status_cleanup s ?m1) (\<lambda>m2. returns (master_status_init pipe s m2) (\<lambda>m3. base_ok L m3
      \<and> services m3 = (services m)(s := ?x\<lparr>sv_status_fd := Some pipe\<rparr>) \<and> master_child_table m3 = master_child_table m
      \<and> master_head m3 = master_head m \<and> next_serv m3 = next_serv m))"
  proof (rule returns_mono [OF status_cleanup_ok [OF wakeup_cleanup_ok [OF base s] s]])
    show "sv_status_fd (services ?m1 s) \<noteq> None" using some m1 by simp
    fix m2 assume m2: "base_ok L m2 \<and> services m2 = (services ?m1)(s := (services ?m1 s)\<lparr>sv_status_fd := None\<rparr>)
      \<and> master_child_table m2 = master_child_table ?m1 \<and> master_head m2 = master_head ?m1 \<and> next_serv m2 = next_serv ?m1
      \<and> master_timers m2 = master_timers ?m1"
    have "fresh_fd L m2 (fst pipe)" using fresh m2 m1 by (auto simp: fresh_fd_def status_fds_def)
    then show "returns (master_status_init pipe s m2) (\<lambda>m3. base_ok L m3
      \<and> services m3 = (services m)(s := ?x\<lparr>sv_status_fd := Some pipe\<rparr>) \<and> master_child_table m3 = master_child_table m
      \<and> master_head m3 = master_head m \<and> next_serv m3 = next_serv m)"
      using m2 m1 by (intro returns_mono [OF status_init_ok [OF _ s]]) auto
  qed
  then show ?thesis
    unfolding master_restart_service_def returns_obind
  proof (elim returns_mono, goal_cases)
    case (1 m2 m3)
    have near3: "near_ok s L m3" using 1 near by (simp add: near_ok_def)
    show ?case
    proof (rule returns_mono [OF wakeup_init_ok [OF _ s]])
      show "base_ok L m3" using 1 by simp
      fix m4 assume m4: "base_ok L m4 \<and> services m4 = services m3 \<and> conf_same m3 m4 \<and> master_child_table m4 = master_child_table m3"
      then have near4: "near_ok s L m4" using near3 by (simp add: near_ok_def)
      have good: "serv_good L (master_avail_listen s m4)" by (rule avail_listen_good [OF near4])
      have "near_ok s L (master_avail_listen s m4)" using good_near [OF good s] .
      moreover have "attended ?x \<Longrightarrow> serv_good L m4" using near4 m4 1 by (auto simp: near_ok_def serv_good_def)
      ultimately show "returns (Ret (if reload then master_avail_listen s m4 else m4)) (\<lambda>m'. near_ok s L m' \<and> (reload \<or> attended (services m s) \<longrightarrow> serv_good L m')
        \<and> serv_frame s m m' \<and> master_child_table m' = master_child_table m
        \<and> conf_of (services m' s) = conf_of ((services m s)\<lparr>sv_status_fd := Some pipe\<rparr>)
        \<and> sv_total_proc (services m' s) = sv_total_proc (services m s)
        \<and> (\<not> reload \<longrightarrow> services m' s = (services m s)\<lparr>sv_status_fd := Some pipe\<rparr>))"
        using near4 good m4 1 by (auto simp: serv_frame_def conf_same_def conf_defs)
    qed
  qed
qed

text \<open>A connection request.\<close>

lemma avail_event_ok:
  assumes good: "serv_good L m" and s: "s \<in> L" and listen: "MASTER_LISTENING (services m s)"
    and some: "sv_status_fd (services m s) \<noteq> None" and fresh: "fresh_fd L m (fst pipe)" and fork: "fork_ok fork m"
  shows "returns (master_avail_event pipe fork s m) (\<lambda>m'. serv_good L m' \<and> serv_frame s m m'
    \<and> (conf_of (services m' s) = conf_of (services m s) \<or> conf_of (services m' s) = conf_of ((services m s)\<lparr>sv_status_fd := Some pipe\<rparr>))
    \<and> (sv_total_proc (services m' s) = sv_total_proc (services m s) + 1 \<or> sv_total_proc (services m' s) = sv_total_proc (services m s) \<and> MASTER_THROTTLED (services m' s)))"
proof -
  let ?stress = "sv_stress (services m s) \<and> \<not> MASTER_LIMIT_OK (sv_max_proc (services m s)) (sv_total_proc (services m s) + 1)"
  let ?ok = "\<lambda>m'. serv_good L m' \<and> serv_frame s m m' \<and> wants_listen (services m' s) \<and> master_child_table m' = master_child_table m
     \<and> (conf_of (services m' s) = conf_of (services m s) \<or> conf_of (services m' s) = conf_of ((services m s)\<lparr>sv_status_fd := Some pipe\<rparr>))
     \<and> sv_total_proc (services m' s) = sv_total_proc (services m s)"
  have att: "attended (services m s)" and want: "wants_listen (services m s)" using good s listen by (auto simp: serv_good_def attended_def)
  have "returns (master_restart_service pipe s False m) ?ok"
    by (rule returns_mono [OF restart_ok [OF good_near [OF good s] some fresh]]) (use att want in auto)
  then have fresh_stress: "returns (if sv_stress_expire_time (services m s) < master_time m then master_restart_service pipe s False m else Ret m) ?ok"
    using good want by simp
  have expire: "?ok (upd_serv s (\<lambda>x. x\<lparr>sv_stress_expire_time := t\<rparr>) m')" if m': "?ok m'" for m' t
  proof -
    have "near_ok s L (upd_serv s (\<lambda>x. x\<lparr>sv_stress_expire_time := t\<rparr>) m')"
      by (rule near_okI [OF good_near [OF _ s, of m']]) (use m' in \<open>auto simp: serv_good_def base_ok_def tally_ok_def\<close>)
    moreover have "attended (services m' s)" using m' s by (auto simp: serv_good_def)
    ultimately show ?thesis using m' by (auto simp: near_ok_def serv_good_def attended_def serv_frame_def conf_defs)
  qed
  have "returns (if ?stress
      then obind (if sv_stress_expire_time (services m s) < master_time m then master_restart_service pipe s False m else Ret m) (\<lambda>m.
             Ret (upd_serv s (\<lambda>x. x\<lparr>sv_stress_expire_time := master_time m + 1000\<rparr>) m))
      else Ret m) ?ok"
  proof (cases ?stress)
    case True
    show ?thesis
      unfolding if_P [OF True] returns_obind returns_Ret by (rule returns_mono [OF fresh_stress]) (rule expire)
  next
    case False
    show ?thesis unfolding if_not_P [OF False] returns_Ret using good want by simp
  qed
  then show ?thesis
    unfolding master_avail_event_def returns_obind
  proof (rule returns_mono)
    fix m' assume m': "?ok m'"
    then have "returns (master_spawn fork s m') (\<lambda>m''. serv_good L m'' \<and> conf_same m' m'' \<and> serv_frame s m' m''
      \<and> (sv_total_proc (services m'' s) = sv_total_proc (services m' s) + 1 \<or> sv_total_proc (services m'' s) = sv_total_proc (services m' s) \<and> MASTER_THROTTLED (services m'' s)))"
      using s fork by (intro spawn_good) (simp_all add: fork_ok_def split: option.splits)
    then show "returns (master_spawn fork s m') (\<lambda>m'. serv_good L m' \<and> serv_frame s m m'
      \<and> (conf_of (services m' s) = conf_of (services m s) \<or> conf_of (services m' s) = conf_of ((services m s)\<lparr>sv_status_fd := Some pipe\<rparr>))
      \<and> (sv_total_proc (services m' s) = sv_total_proc (services m s) + 1 \<or> sv_total_proc (services m' s) = sv_total_proc (services m s) \<and> MASTER_THROTTLED (services m' s)))"
      by (rule returns_mono) (use m' serv_frame_trans in \<open>auto simp: conf_same_def\<close>)
  qed
qed

text \<open>A new service.\<close>

definition new_serv :: "service \<Rightarrow> bool" where
  "new_serv sv \<longleftrightarrow> known_type (sv_type sv) \<and> sv_total_proc sv = 0 \<and> sv_avail_proc sv = 0 \<and> 0 \<le> sv_max_proc sv \<and> sv_status_fd sv = None
     \<and> \<not> MASTER_THROTTLED sv \<and> \<not> MASTER_LISTENING sv \<and> \<not> MASTER_MARKED_FOR_DELETION sv"

lemma base_ok_new:
  assumes base: "base_ok L m" and s: "s \<notin> L" and new: "new_serv (services m s)" and fresh: "\<And>fd. fd \<in> set (sv_listen_fd (services m s)) \<Longrightarrow> fresh_fd L m fd"
  shows "base_ok (insert s L) m"
proof -
  have none: "procs (master_child_table m) s = {}" "avails (master_child_table m) s = {}"
    using base s by (auto simp: base_ok_def tally_ok_def procs_def avails_def)
  have st: "status_fds (services m s) = {}" using new by (simp add: new_serv_def status_fds_def)
  have "tally_ok (insert s L) (master_child_table m) (services m)" using base new none by (auto simp: base_ok_def tally_ok_def new_serv_def)
  moreover have "throttles_ok (insert s L) (master_timers m) (services m)" using base s new by (auto simp: base_ok_def throttles_ok_def new_serv_def)
  moreover have "readers_ok (insert s L) (master_readers m) (services m)" using base s new st by (auto simp: base_ok_def readers_ok_def new_serv_def)
  moreover have "fds_ok (insert s L) (services m)" using base st fresh by (fastforce simp: base_ok_def fds_ok_def fresh_fd_def)
  ultimately show ?thesis by (simp add: base_ok_def)
qed

lemma fresh_frame: "fresh_fd L m fd \<Longrightarrow> (\<And>t. t \<in> L \<Longrightarrow> services m' t = services m t) \<Longrightarrow> fresh_fd L m' fd"
  by (simp add: fresh_fd_def)

lemma start_ok:
  assumes good: "serv_good L m" and s: "s \<notin> L" and new: "new_serv (services m s)"
    and fresh: "\<And>fd. fd \<in> insert (fst pipe) (set fds) \<Longrightarrow> fresh_fd L m fd" and pipe: "fst pipe \<notin> set fds"
  shows "returns (master_start_service fds pipe s m) (\<lambda>m'. serv_good (insert s L) m' \<and> serv_frame s m m'
    \<and> master_child_table m' = master_child_table m \<and> sv_total_proc (services m' s) = 0
    \<and> conf_of (services m' s) = conf_of ((services m s)\<lparr>sv_listen_fd := fds, sv_status_fd := Some pipe\<rparr>))"
proof -
  let ?L = "insert s L"
  let ?m1 = "upd_serv s (\<lambda>x. x\<lparr>sv_listen_fd := fds\<rparr>) m"
  let ?m2 = "master_avail_listen s ?m1"
  have other: "t \<in> L \<Longrightarrow> services ?m1 t = services m t" for t using s by auto
  have fresh': "fresh_fd L ?m1 fd" if "fd \<in> set fds" for fd
    by (rule fresh_frame [of L m]) (use fresh other that in auto)
  have "base_ok L ?m1" using good s by (auto simp: serv_good_def base_ok_def tally_ok_def throttles_ok_def readers_ok_def fds_ok_def status_fds_def)
  then have "base_ok ?L ?m1"
    by (rule base_ok_new [OF _ s]) (use new fresh' in \<open>auto simp: new_serv_def\<close>)
  then have "near_ok s ?L ?m1" using good s by (auto simp: near_ok_def serv_good_def)
  then have good2: "serv_good ?L ?m2" by (rule avail_listen_good)
  have "fresh_fd ?L ?m2 (fst pipe)"
    using fresh [of "fst pipe"] pipe new by (auto simp: fresh_fd_def status_fds_def new_serv_def)
  then have "returns (master_status_init pipe s ?m2) (\<lambda>m'. base_ok ?L m' \<and> services m' = (services ?m2)(s := (services ?m2 s)\<lparr>sv_status_fd := Some pipe\<rparr>)
    \<and> master_child_table m' = master_child_table ?m2 \<and> master_head m' = master_head ?m2 \<and> next_serv m' = next_serv ?m2)"
    using good2 new by (intro status_init_ok) (auto simp: serv_good_def new_serv_def)
  then have "returns (master_status_init pipe s ?m2) (\<lambda>m'. returns (master_wakeup_init s m') (\<lambda>m'. serv_good ?L m' \<and> serv_frame s m m'
    \<and> master_child_table m' = master_child_table m \<and> sv_total_proc (services m' s) = 0
    \<and> conf_of (services m' s) = conf_of ((services m s)\<lparr>sv_listen_fd := fds, sv_status_fd := Some pipe\<rparr>)))"
  proof (rule returns_mono, goal_cases)
    case (1 m3)
    then have base3: "base_ok ?L m3" by simp
    show ?case
      by (rule returns_mono [OF wakeup_init_ok [OF base3 insertI1]])
        (use 1 good2 new in \<open>auto simp: serv_good_def serv_frame_def conf_same_def conf_defs new_serv_def\<close>)
  qed
  then show ?thesis using new by (simp add: master_start_service_def master_listen_init_def new_serv_def returns_obind)
qed

text \<open>A service that is taken out of operation.\<close>

lemma base_ok_drop:
  assumes base: "base_ok L m" and s: "s \<in> L" and "procs (master_child_table m) s = {}" and "\<not> MASTER_THROTTLED (services m s)"
    and "\<not> MASTER_LISTENING (services m s)" and "sv_status_fd (services m s) = None" and "master_timers m (Tm_wakeup s) = None"
  shows "base_ok (L - {s}) m"
proof -
  have "pr_serv p \<noteq> s" if "master_child_table m pid = Some p" for pid p using assms(3) that by (auto simp: procs_def)
  then have "tally_ok (L - {s}) (master_child_table m) (services m)" using base by (auto simp: base_ok_def tally_ok_def)
  moreover have "throttles_ok (L - {s}) (master_timers m) (services m)" using base s assms(4,7) by (auto simp: base_ok_def throttles_ok_def)
  moreover have "readers_ok (L - {s}) (master_readers m) (services m)" using base assms(5,6) by (auto simp: base_ok_def readers_ok_def status_fds_def)
  moreover have "fds_ok (L - {s}) (services m)" using base by (auto simp: base_ok_def fds_ok_def)
  ultimately show ?thesis by (simp add: base_ok_def)
qed

lemma listen_off_ok:
  assumes base: "base_ok L m" and s: "s \<in> L"
  shows "base_ok L (if MASTER_LISTENING (services m s)
    then upd_serv s (clear_flag MASTER_FLAG_LISTEN) (disable_readwrite (sv_listen_fd (services m s)) m) else m)"
proof (cases "MASTER_LISTENING (services m s)")
  case True
  let ?m = "upd_serv s (clear_flag MASTER_FLAG_LISTEN) (disable_readwrite (sv_listen_fd (services m s)) m)"
  have st: "status_fds (services ?m t) = status_fds (services m t)" for t by (auto simp: status_fds_def)
  have fds: "fds_ok L (services m)" using base by (simp add: base_ok_def)
  have "readers_ok L (master_readers ?m) (services ?m)"
    unfolding readers_ok_def st using base s fds_okD(1,2) [OF fds s] by (auto simp: base_ok_def readers_ok_def)
  moreover have "fds_ok L (services ?m)" unfolding fds_ok_def st using fds by (auto simp: fds_ok_def)
  ultimately show ?thesis using base True by (auto simp: base_ok_def tally_ok_def throttles_ok_def)
qed (use base in simp)

lemma avail_cleanup_ok:
  assumes good: "serv_good L m" and s: "s \<in> L" and legal: "ends_legal i s batches (master_child_table m)"
    and "sv_status_fd (services m s) = None" and "master_timers m (Tm_wakeup s) = None"
  shows "returns (master_avail_cleanup i pids batches s m) (\<lambda>m'. serv_good (L - {s}) m'
    \<and> (\<forall>t. conf_of (services m' t) = conf_of (services m t)) \<and> master_head m' = master_head m \<and> next_serv m' = next_serv m)"
  unfolding master_avail_cleanup_def returns_obind returns_Ret
proof (rule returns_mono [OF delete_children_good [OF good s legal]], goal_cases)
  case (1 m1)
  let ?m = "if MASTER_LISTENING (services m1 s)
    then upd_serv s (clear_flag MASTER_FLAG_LISTEN) (disable_readwrite (sv_listen_fd (services m1 s)) m1) else m1"
  have conf: "conf_of (services ?m t) = conf_of (services m t)" for t using 1 by (auto simp: conf_same_def conf_defs)
  have "base_ok L ?m" using 1 s by (intro listen_off_ok) (simp_all add: serv_good_def)
  then have "base_ok (L - {s}) ?m"
    by (rule base_ok_drop [OF _ s]) (use 1 assms(4,5) conf [of s] in \<open>auto simp: conf_defs\<close>)
  then have "serv_good (L - {s}) ?m" using 1 by (auto simp: serv_good_def)
  then show ?case using conf 1 by (auto simp: conf_same_def)
qed

lemma listen_cleanup_good: "serv_good (L - {s}) m \<Longrightarrow> serv_good (L - {s}) (master_listen_cleanup s m)"
  by (auto simp: master_listen_cleanup_def serv_good_def base_ok_def tally_ok_def throttles_ok_def readers_ok_def fds_ok_def)

lemma stop_ok:
  assumes good: "serv_good L m" and s: "s \<in> L" and some: "sv_status_fd (services m s) \<noteq> None" and legal: "ends_legal i s batches (master_child_table m)"
  shows "returns (master_stop_service i pids batches s m) (\<lambda>m'. serv_good (L - {s}) m'
    \<and> (\<forall>t. t \<noteq> s \<longrightarrow> conf_of (services m' t) = conf_of (services m t)) \<and> master_head m' = master_head m \<and> next_serv m' = next_serv m)"
  unfolding master_stop_service_def returns_obind
proof (rule returns_mono [OF status_cleanup_ok [OF wakeup_cleanup_ok [OF _ s] s]], goal_cases)
  case (3 m1)
  have m1: "serv_good L m1" using 3 good by (auto simp: serv_good_def master_wakeup_cleanup_def)
  have "returns (master_avail_cleanup i pids batches s m1) (\<lambda>m'. serv_good (L - {s}) m'
    \<and> (\<forall>t. conf_of (services m' t) = conf_of (services m1 t)) \<and> master_head m' = master_head m1 \<and> next_serv m' = next_serv m1)"
    using 3 legal by (intro avail_cleanup_ok [OF m1 s]) (auto simp: master_wakeup_cleanup_def)
  then show ?case
    by (rule returns_mono) (use 3 in \<open>auto simp: listen_cleanup_good, auto simp: master_listen_cleanup_def master_wakeup_cleanup_def\<close>)
qed (use good some in \<open>auto simp: serv_good_def master_wakeup_cleanup_def\<close>)

section \<open>Configuration\<close>

text \<open>
  A service is identified by its endpoint. The services that are not marked, with their settings, are the configuration
  that the process manager runs.
\<close>

definition endpoint :: "service \<Rightarrow> string \<times> int" where
  "endpoint sv = (sv_name sv, sv_type sv)"

definition head_ok :: "master \<Rightarrow> bool" where
  "head_ok m \<longleftrightarrow> distinct (map (\<lambda>s. endpoint (services m s)) (master_head m))
     \<and> (\<forall>s \<in> set (master_head m). s < next_serv m \<and> sv_status_fd (services m s) \<noteq> None \<and> 0 \<le> sv_max_proc (services m s))"

definition conf_ok :: "master \<Rightarrow> bool" where
  "conf_ok m \<longleftrightarrow> serv_good (set (master_head m)) m \<and> head_ok m"

definition conf_map :: "master \<Rightarrow> (string \<times> int) \<rightharpoonup> (int \<times> int \<times> int \<times> string \<times> string \<times> string list \<times> bool)" where
  "conf_map m = map_of (map (\<lambda>s. (endpoint (services m s), settings (services m s)))
     (filter (\<lambda>s. \<not> MASTER_MARKED_FOR_DELETION (services m s)) (master_head m)))"

lemma conf_of_endpoint: "conf_of a = conf_of b \<Longrightarrow> endpoint a = endpoint b"
  by (simp add: conf_of_def endpoint_def)

lemma head_ok_distinct: "head_ok m \<Longrightarrow> distinct (master_head m)"
  by (simp add: head_ok_def distinct_map)

lemma conf_map_iff:
  assumes "head_ok m"
  shows "conf_map m ep = Some x \<longleftrightarrow> (\<exists>s \<in> set (master_head m). \<not> MASTER_MARKED_FOR_DELETION (services m s)
    \<and> endpoint (services m s) = ep \<and> settings (services m s) = x)"
proof -
  let ?l = "map (\<lambda>s. (endpoint (services m s), settings (services m s))) (filter (\<lambda>s. \<not> MASTER_MARKED_FOR_DELETION (services m s)) (master_head m))"
  have "distinct (map fst ?l)" using assms by (auto simp: head_ok_def distinct_map comp_def inj_on_def)
  then show ?thesis unfolding conf_map_def by (subst map_of_eq_Some_iff) auto
qed

lemma conf_map_cong:
  assumes "master_head m' = master_head m" and "\<And>s. s \<in> set (master_head m) \<Longrightarrow> conf_of (services m' s) = conf_of (services m s)"
  shows "conf_map m' = conf_map m"
proof -
  have "filter (\<lambda>s. \<not> MASTER_MARKED_FOR_DELETION (services m' s)) (master_head m) = filter (\<lambda>s. \<not> MASTER_MARKED_FOR_DELETION (services m s)) (master_head m)"
    using assms(2) by (intro filter_cong) (auto simp: conf_of_def)
  moreover have "map (\<lambda>s. (endpoint (services m' s), settings (services m' s))) (filter (\<lambda>s. \<not> MASTER_MARKED_FOR_DELETION (services m s)) (master_head m))
      = map (\<lambda>s. (endpoint (services m s), settings (services m s))) (filter (\<lambda>s. \<not> MASTER_MARKED_FOR_DELETION (services m s)) (master_head m))"
    using assms(2) by (intro map_cong) (auto simp: conf_of_def endpoint_def)
  ultimately show ?thesis unfolding conf_map_def assms(1) by (simp only:)
qed

lemma head_ok_cong:
  assumes "head_ok m" and "master_head m' = master_head m" and "next_serv m \<le> next_serv m'"
    and "\<And>s. s \<in> set (master_head m) \<Longrightarrow> conf_of (services m' s) = conf_of (services m s)"
  shows "head_ok m'"
proof -
  have ep: "map (\<lambda>s. endpoint (services m' s)) (master_head m) = map (\<lambda>s. endpoint (services m s)) (master_head m)"
    using assms(4) by (intro map_cong refl conf_of_endpoint)
  have "s < next_serv m' \<and> sv_status_fd (services m' s) \<noteq> None \<and> 0 \<le> sv_max_proc (services m' s)" if "s \<in> set (master_head m)" for s
    using assms(1,3) assms(4) [OF that] that by (auto simp: head_ok_def conf_defs)
  then show ?thesis using assms(1) unfolding head_ok_def assms(2) ep by blast
qed

text \<open>An entry is legal when the parser of \<^verbatim>\<open>master.cf\<close> can return it, and new descriptors are not in use.\<close>

definition fresh_entry :: "conf_entry \<Rightarrow> master \<Rightarrow> bool" where
  "fresh_entry e m \<longleftrightarrow> fst (ce_pipe e) \<notin> set (ce_fds e)
     \<and> (\<forall>fd \<in> insert (fst (ce_pipe e)) (set (ce_fds e)). fresh_fd (set (master_head m)) m fd)"

definition entry_legal :: "conf_entry \<Rightarrow> master \<Rightarrow> bool" where
  "entry_legal e m \<longleftrightarrow> new_serv (ce_serv e) \<and> fresh_entry e m"

lemmas entry_defs = entry_legal_def fresh_entry_def

lemma config_new:
  assumes ok: "conf_ok m" and legal: "entry_legal e m" and none: "\<And>s. s \<in> set (master_head m) \<Longrightarrow> \<not> same_endpoint (services m s) (ce_serv e)"
  shows "returns (master_start_service (ce_fds e) (ce_pipe e) (next_serv m)
      (m\<lparr>next_serv := Suc (next_serv m), services := (services m)(next_serv m := ce_serv e), master_head := next_serv m # master_head m\<rparr>))
    (\<lambda>m'. conf_ok m' \<and> conf_map m' = (conf_map m)(endpoint (ce_serv e) \<mapsto> settings (ce_serv e)))"
    (is "returns (master_start_service _ _ ?s ?m) _")
proof -
  let ?L = "set (master_head m)"
  have s: "?s \<notin> ?L" using ok by (auto simp: conf_ok_def head_ok_def)
  have same: "t \<in> ?L \<Longrightarrow> services ?m t = services m t" for t using s by auto
  have "serv_good ?L m" using ok by (simp add: conf_ok_def)
  then have good: "serv_good ?L ?m"
    using s by (auto simp: serv_good_def base_ok_def tally_ok_def throttles_ok_def readers_ok_def fds_ok_def)
  show ?thesis
  proof (rule returns_mono [OF start_ok [OF good s]], goal_cases)
    case (4 m')
    then have head: "master_head m' = ?s # master_head m" and nxt: "next_serv m' = Suc ?s" by (auto simp: serv_frame_def)
    have others: "services m' t = services m t" if "t \<in> ?L" for t
    proof -
      have "t \<noteq> ?s" using s that by blast
      then show ?thesis using 4 by (simp add: serv_frame_def)
    qed
    have conf: "endpoint (services m' ?s) = endpoint (ce_serv e)" "settings (services m' ?s) = settings (ce_serv e)"
      "sv_status_fd (services m' ?s) \<noteq> None" "\<not> MASTER_MARKED_FOR_DELETION (services m' ?s)"
      using 4 legal by (auto simp: conf_defs endpoint_def entry_defs new_serv_def)
    have max: "0 \<le> sv_max_proc (services m' ?s)" using conf(2) legal by (auto simp: settings_def entry_defs new_serv_def)
    have ep: "map (\<lambda>t. endpoint (services m' t)) (master_head m) = map (\<lambda>t. endpoint (services m t)) (master_head m)" using others by simp
    have "endpoint (ce_serv e) \<notin> (\<lambda>t. endpoint (services m t)) ` ?L" using none by (fastforce simp: endpoint_def same_endpoint_def)
    then have "distinct (map (\<lambda>t. endpoint (services m' t)) (master_head m'))"
      using ok others conf(1) unfolding head list.map ep by (auto simp: conf_ok_def head_ok_def)
    then have "head_ok m'" using ok head nxt others conf max by (auto simp: conf_ok_def head_ok_def less_Suc_eq)
    moreover have "conf_map m' = (conf_map m)(endpoint (ce_serv e) \<mapsto> settings (ce_serv e))"
    proof -
      have "conf_map m' = (conf_map (m'\<lparr>master_head := master_head m\<rparr>))(endpoint (ce_serv e) \<mapsto> settings (ce_serv e))"
        using conf head by (simp add: conf_map_def)
      also have "conf_map (m'\<lparr>master_head := master_head m\<rparr>) = conf_map m" by (rule conf_map_cong) (simp_all add: others)
      finally show ?thesis .
    qed
    ultimately show ?case using 4 head by (simp add: conf_ok_def)
  qed (use legal same in \<open>auto simp: entry_defs fresh_fd_def\<close>)
qed

lemma update_serv_simps [simp]:
  "sv_name (update_serv e x) = sv_name x" "sv_type (update_serv e x) = sv_type x" "settings (update_serv e x) = settings e"
  "sv_listen_fd (update_serv e x) = sv_listen_fd x" "sv_status_fd (update_serv e x) = sv_status_fd x"
  "sv_total_proc (update_serv e x) = sv_total_proc x" "sv_avail_proc (update_serv e x) = sv_avail_proc x"
  "MASTER_LISTENING (update_serv e x) \<longleftrightarrow> MASTER_LISTENING x" "MASTER_THROTTLED (update_serv e x) \<longleftrightarrow> MASTER_THROTTLED x"
  "sv_flags (update_serv e x) AND MASTER_FLAG_MARK = 0"
  by (simp_all add: update_serv_def Let_def settings_def)

lemma config_update:
  assumes ok: "conf_ok m" and legal: "entry_legal e m" and s: "s \<in> set (master_head m)" and same: "same_endpoint (services m s) (ce_serv e)"
  shows "returns (master_restart_service (ce_pipe e) s True (upd_serv s (update_serv (ce_serv e)) m))
    (\<lambda>m'. conf_ok m' \<and> conf_map m' = (conf_map m)(endpoint (ce_serv e) \<mapsto> settings (ce_serv e)))"
proof -
  let ?L = "set (master_head m)"
  let ?m = "upd_serv s (update_serv (ce_serv e)) m"
  have good: "serv_good ?L m" and head: "head_ok m" using ok by (simp_all add: conf_ok_def)
  have near: "near_ok s ?L ?m"
    by (rule near_okI [OF good_near [OF good s]]) (use good in \<open>auto simp: serv_good_def base_ok_def tally_ok_def\<close>)
  have some: "sv_status_fd (services ?m s) \<noteq> None" using head s by (simp add: head_ok_def)
  have "status_fds (services ?m t) = status_fds (services m t)" for t by (simp add: status_fds_def)
  then have fresh: "fresh_fd ?L ?m (fst (ce_pipe e))" using legal by (auto simp: entry_defs fresh_fd_def)
  show ?thesis
  proof (rule returns_mono [OF restart_ok [OF near some fresh]])
    fix m' assume m': "near_ok s ?L m' \<and> (True \<or> attended (services ?m s) \<longrightarrow> serv_good ?L m') \<and> serv_frame s ?m m'
      \<and> master_child_table m' = master_child_table ?m \<and> conf_of (services m' s) = conf_of ((services ?m s)\<lparr>sv_status_fd := Some (ce_pipe e)\<rparr>)
      \<and> sv_total_proc (services m' s) = sv_total_proc (services ?m s) \<and> (\<not> True \<longrightarrow> services m' s = (services ?m s)\<lparr>sv_status_fd := Some (ce_pipe e)\<rparr>)"
    then have hd: "master_head m' = master_head m" "next_serv m' = next_serv m" and others: "t \<noteq> s \<Longrightarrow> services m' t = services m t" for t
      by (simp_all add: serv_frame_def)
    have conf: "endpoint (services m' s) = endpoint (services m s)" "endpoint (services m s) = endpoint (ce_serv e)" "settings (services m' s) = settings (ce_serv e)"
      "sv_status_fd (services m' s) \<noteq> None" "\<not> MASTER_MARKED_FOR_DELETION (services m' s)"
      using m' same update_serv_simps(3) [of "ce_serv e" "services m s"] by (auto simp: conf_defs endpoint_def same_endpoint_def simp del: update_serv_simps(3))
    have ep: "endpoint (services m' t) = endpoint (services m t)" for t using conf(1) others by (cases "t = s") auto
    have max: "0 \<le> sv_max_proc (services m' s)" using conf(3) legal by (auto simp: settings_def entry_defs new_serv_def)
    have "t < next_serv m' \<and> sv_status_fd (services m' t) \<noteq> None \<and> 0 \<le> sv_max_proc (services m' t)" if "t \<in> ?L" for t
      using that head s conf(4) max others [of t] hd by (cases "t = s") (auto simp: head_ok_def)
    then have head': "head_ok m'" using head unfolding head_ok_def hd ep by blast
    have inj: "t = s" if "t \<in> ?L" "endpoint (services m t) = endpoint (services m s)" for t
      using head s that by (auto simp: head_ok_def distinct_map dest: inj_onD)
    have "conf_map m' ep = Some x \<longleftrightarrow> ((conf_map m)(endpoint (ce_serv e) \<mapsto> settings (ce_serv e))) ep = Some x" for ep x
    proof (cases "ep = endpoint (services m s)")
      case True
      have "conf_map m' ep = Some x \<longleftrightarrow> settings (services m' s) = x"
        unfolding conf_map_iff [OF head'] hd ep True using inj conf(5) s by blast
      then show ?thesis using True conf by simp
    next
      case False
      have "conf_map m' ep = Some x \<longleftrightarrow> conf_map m ep = Some x"
        unfolding conf_map_iff [OF head'] conf_map_iff [OF head] hd using False others conf(1) by metis
      then show ?thesis using False conf(2) by simp
    qed
    then have "conf_map m' = (conf_map m)(endpoint (ce_serv e) \<mapsto> settings (ce_serv e))"
      by (intro ext) (metis option.exhaust)
    then show "conf_ok m' \<and> conf_map m' = (conf_map m)(endpoint (ce_serv e) \<mapsto> settings (ce_serv e))"
      using m' head' hd by (simp add: conf_ok_def)
  qed
qed

lemma config_entry_ok:
  assumes "conf_ok m" and "entry_legal e m"
  shows "returns (config_entry e m) (\<lambda>m'. conf_ok m' \<and> conf_map m' = (conf_map m)(endpoint (ce_serv e) \<mapsto> settings (ce_serv e)))"
proof (cases "List.find (\<lambda>s. same_endpoint (services m s) (ce_serv e)) (master_head m)")
  case None
  then show ?thesis
    unfolding config_entry_def None option.case Let_def using None by (intro config_new [OF assms]) (auto simp: find_None_iff)
next
  case (Some s)
  then have "s \<in> set (master_head m)" "same_endpoint (services m s) (ce_serv e)" by (auto simp: find_Some_iff)
  then show ?thesis using config_update [OF assms] Some by (simp add: config_entry_def)
qed

fun entries_fresh :: "conf_entry list \<Rightarrow> master \<Rightarrow> bool" where
  "entries_fresh [] m \<longleftrightarrow> True"
| "entries_fresh (e # es) m \<longleftrightarrow> fresh_entry e m \<and> (case config_entry e m of Ret m' \<Rightarrow> entries_fresh es m' | _ \<Rightarrow> True)"

definition entries_legal :: "conf_entry list \<Rightarrow> master \<Rightarrow> bool" where
  "entries_legal es m \<longleftrightarrow> list_all (\<lambda>e. new_serv (ce_serv e)) es \<and> entries_fresh es m"

text \<open>What a list of entries configures: of two entries with the same endpoint, the last one counts.\<close>

definition configured :: "conf_entry list \<Rightarrow> ((string \<times> int) \<rightharpoonup> (int \<times> int \<times> int \<times> string \<times> string \<times> string list \<times> bool))
    \<Rightarrow> (string \<times> int) \<rightharpoonup> (int \<times> int \<times> int \<times> string \<times> string \<times> string list \<times> bool)" where
  "configured es c = fold (\<lambda>e c. c(endpoint (ce_serv e) \<mapsto> settings (ce_serv e))) es c"

lemma config_ok:
  "conf_ok m \<Longrightarrow> entries_legal es m \<Longrightarrow> returns (master_config es m) (\<lambda>m'. conf_ok m' \<and> conf_map m' = configured es (conf_map m))"
proof (induction es arbitrary: m)
  case (Cons e es)
  have entry: "returns (config_entry e m) (\<lambda>m'. conf_ok m' \<and> conf_map m' = (conf_map m)(endpoint (ce_serv e) \<mapsto> settings (ce_serv e)))"
    using Cons.prems by (intro config_entry_ok) (simp_all add: entries_legal_def entry_legal_def)
  then obtain m' where m': "config_entry e m = Ret m'" "conf_ok m'" "conf_map m' = (conf_map m)(endpoint (ce_serv e) \<mapsto> settings (ce_serv e))"
    by (auto simp: returns_def)
  then have "returns (master_config es m') (\<lambda>m''. conf_ok m'' \<and> conf_map m'' = configured es (conf_map m'))"
    using Cons.prems by (intro Cons.IH) (simp_all add: entries_legal_def)
  then show ?case using m' by (simp add: configured_def)
qed (simp add: configured_def)

fun deletes_legal :: "bool \<Rightarrow> (int list \<times> (int \<times> wait_status) list list) list \<Rightarrow> serv_id list \<Rightarrow> master \<Rightarrow> bool" where
  "deletes_legal i waits [] m \<longleftrightarrow> True"
| "deletes_legal i waits (s # ss) m \<longleftrightarrow>
     (if MASTER_MARKED_FOR_DELETION (services m s)
      then case waits of
             [] \<Rightarrow> False
           | (pids, batches) # waits \<Rightarrow> ends_legal i s batches (master_child_table m)
               \<and> (case master_stop_service i pids batches s (m\<lparr>master_head := remove1 s (master_head m)\<rparr>) of
                    Ret m' \<Rightarrow> deletes_legal i waits ss m' | _ \<Rightarrow> True)
      else deletes_legal i waits ss m)"

lemma delete_one:
  assumes ok: "conf_ok m" and s: "s \<in> set (master_head m)" and mark: "MASTER_MARKED_FOR_DELETION (services m s)"
    and legal: "ends_legal i s batches (master_child_table m)"
  shows "returns (master_stop_service i pids batches s (m\<lparr>master_head := remove1 s (master_head m)\<rparr>)) (\<lambda>m'. conf_ok m' \<and> conf_map m' = conf_map m
    \<and> master_head m' = removeAll s (master_head m) \<and> (\<forall>t. t \<noteq> s \<longrightarrow> conf_of (services m' t) = conf_of (services m t)))"
    (is "returns (master_stop_service _ _ _ _ ?m) _")
proof -
  let ?L = "set (master_head m)"
  have good: "serv_good ?L ?m" and head: "head_ok m" using ok by (simp_all add: conf_ok_def serv_good_def base_ok_def)
  have rem: "remove1 s (master_head m) = removeAll s (master_head m)" using head_ok_distinct [OF head] by (rule distinct_remove1_removeAll)
  show ?thesis
  proof (rule returns_mono [OF stop_ok [OF good s]], goal_cases)
    case (3 m')
    then have hd: "master_head m' = removeAll s (master_head m)" and conf: "t \<noteq> s \<Longrightarrow> conf_of (services m' t) = conf_of (services m t)" for t
      using rem by simp_all
    have head1: "head_ok ?m" using head unfolding head_ok_def by (simp add: rem distinct_map removeAll_filter_not_eq inj_on_def)
    have "head_ok m'" by (rule head_ok_cong [OF head1]) (use 3 in \<open>auto simp: rem\<close>)
    moreover have "conf_map m' = conf_map ?m" by (rule conf_map_cong) (use 3 in \<open>auto simp: rem\<close>)
    moreover have "conf_map ?m = conf_map m"
      using mark by (auto simp: conf_map_def rem removeAll_filter_not_eq intro!: arg_cong [where f = map_of] arg_cong [where f = "map f" for f] filter_cong)
    moreover have "set (master_head m') = ?L - {s}" by (simp add: hd)
    then have "serv_good (set (master_head m')) m'" using 3 by (simp only:)
    ultimately show ?case using conf hd unfolding conf_ok_def by metis
  qed (use head s legal in \<open>auto simp: head_ok_def\<close>)
qed

lemma delete_marked_ok:
  "conf_ok m \<Longrightarrow> set ss \<subseteq> set (master_head m) \<Longrightarrow> distinct ss \<Longrightarrow> deletes_legal i waits ss m \<Longrightarrow>
     returns (delete_marked i waits ss m) (\<lambda>m'. conf_ok m' \<and> conf_map m' = conf_map m \<and> set (master_head m') \<subseteq> set (master_head m)
       \<and> (\<forall>t \<in> set (master_head m'). conf_of (services m' t) = conf_of (services m t)
           \<and> (t \<in> set ss \<longrightarrow> \<not> MASTER_MARKED_FOR_DELETION (services m' t))))"
proof (induction ss arbitrary: m waits)
  case (Cons s ss)
  show ?case
  proof (cases "MASTER_MARKED_FOR_DELETION (services m s)")
    case False
    then have "returns (delete_marked i waits ss m) (\<lambda>m'. conf_ok m' \<and> conf_map m' = conf_map m \<and> set (master_head m') \<subseteq> set (master_head m)
       \<and> (\<forall>t \<in> set (master_head m'). conf_of (services m' t) = conf_of (services m t)
           \<and> (t \<in> set ss \<longrightarrow> \<not> MASTER_MARKED_FOR_DELETION (services m' t))))"
      using Cons.prems by (intro Cons.IH) simp_all
    then show ?thesis using False by (auto simp: conf_of_def elim!: returns_mono)
  next
    case True
    then obtain pids batches ws where waits: "waits = (pids, batches) # ws" using Cons.prems(4) by (auto split: list.splits)
    have "returns (master_stop_service i pids batches s (m\<lparr>master_head := remove1 s (master_head m)\<rparr>)) (\<lambda>m'. conf_ok m' \<and> conf_map m' = conf_map m
      \<and> master_head m' = removeAll s (master_head m) \<and> (\<forall>t. t \<noteq> s \<longrightarrow> conf_of (services m' t) = conf_of (services m t)))"
      using Cons.prems True waits by (intro delete_one) simp_all
    then obtain m1 where stop: "master_stop_service i pids batches s (m\<lparr>master_head := remove1 s (master_head m)\<rparr>) = Ret m1"
      and m1: "conf_ok m1" "conf_map m1 = conf_map m" "master_head m1 = removeAll s (master_head m)"
        "\<And>t. t \<noteq> s \<Longrightarrow> conf_of (services m1 t) = conf_of (services m t)"
      by (auto simp: returns_def)
    have "returns (delete_marked i ws ss m1) (\<lambda>m'. conf_ok m' \<and> conf_map m' = conf_map m1 \<and> set (master_head m') \<subseteq> set (master_head m1)
       \<and> (\<forall>t \<in> set (master_head m'). conf_of (services m' t) = conf_of (services m1 t)
           \<and> (t \<in> set ss \<longrightarrow> \<not> MASTER_MARKED_FOR_DELETION (services m' t))))"
      using Cons.prems m1 True waits stop by (intro Cons.IH) auto
    moreover have "\<forall>t \<in> set (master_head m1). conf_of (services m1 t) = conf_of (services m t)" using m1(3,4) by auto
    ultimately have "returns (delete_marked i ws ss m1) (\<lambda>m'. conf_ok m' \<and> conf_map m' = conf_map m1 \<and> set (master_head m') \<subseteq> set (master_head m1)
       \<and> (\<forall>t \<in> set (master_head m'). conf_of (services m' t) = conf_of (services m t)
           \<and> (t \<in> set ss \<longrightarrow> \<not> MASTER_MARKED_FOR_DELETION (services m' t))))"
      by (elim returns_mono) (metis subsetD)
    then show ?thesis using True waits stop m1(2,3) by (auto elim!: returns_mono)
  qed
qed simp

lemma mark_fold:
  "services (fold (\<lambda>s. upd_serv s (set_flag MASTER_FLAG_MARK)) ss m) t =
     (if t \<in> set ss then set_flag MASTER_FLAG_MARK (services m t) else services m t)"
  "master_child_table (fold (\<lambda>s. upd_serv s (set_flag MASTER_FLAG_MARK)) ss m) = master_child_table m"
  "master_head (fold (\<lambda>s. upd_serv s (set_flag MASTER_FLAG_MARK)) ss m) = master_head m"
  "master_timers (fold (\<lambda>s. upd_serv s (set_flag MASTER_FLAG_MARK)) ss m) = master_timers m"
  "master_readers (fold (\<lambda>s. upd_serv s (set_flag MASTER_FLAG_MARK)) ss m) = master_readers m"
  "next_serv (fold (\<lambda>s. upd_serv s (set_flag MASTER_FLAG_MARK)) ss m) = next_serv m"
  by (induction ss arbitrary: m) (auto simp: set_flag_def or.assoc)

lemmas mark_services_simps [simp] = mark_fold [of "master_head m" m for m, folded mark_services_def]

lemma mark_services_ok: "conf_ok m \<Longrightarrow> conf_ok (mark_services m) \<and> conf_map (mark_services m) = Map.empty"
proof -
  assume ok: "conf_ok m"
  have st: "status_fds (services (mark_services m) t) = status_fds (services m t)" for t by (simp add: status_fds_def)
  have ep: "endpoint (services (mark_services m) t) = endpoint (services m t)" for t by (simp add: endpoint_def)
  have "wants_listen (services (mark_services m) t) = wants_listen (services m t)" for t by (rule wants_listen_cong) simp_all
  then have att: "attended (services (mark_services m) t) = attended (services m t)" for t by (simp add: attended_def)
  let ?L = "set (master_head m)"
  have "base_ok ?L m" using ok by (simp add: conf_ok_def serv_good_def)
  then have "base_ok ?L (mark_services m)"
    unfolding base_ok_def tally_ok_def throttles_ok_def readers_ok_def fds_ok_def st by simp
  moreover have "\<forall>t \<in> ?L. attended (services (mark_services m) t)" using ok unfolding att by (simp add: conf_ok_def serv_good_def)
  moreover have "head_ok (mark_services m)" using ok unfolding conf_ok_def head_ok_def ep by simp
  moreover have "filter (\<lambda>s. \<not> MASTER_MARKED_FOR_DELETION (services (mark_services m) s)) (master_head m) = []"
    by (simp add: filter_empty_conv)
  ultimately show ?thesis by (simp add: conf_ok_def serv_good_def conf_map_def del: mark_services_simps(1))
qed

text \<open>The invariant of the process manager between events.\<close>

definition master_ok :: "master \<Rightarrow> bool" where
  "master_ok m \<longleftrightarrow> conf_ok m \<and> (\<forall>s \<in> set (master_head m). \<not> MASTER_MARKED_FOR_DELETION (services m s))"

definition refresh_fresh :: "bool \<Rightarrow> conf_entry list \<Rightarrow> (int list \<times> (int \<times> wait_status) list list) list \<Rightarrow> master \<Rightarrow> bool" where
  "refresh_fresh i es waits m \<longleftrightarrow> entries_fresh es (mark_services m)
     \<and> (case master_config es (mark_services m) of Ret m' \<Rightarrow> deletes_legal i waits (master_head m') m' | _ \<Rightarrow> True)"

definition refresh_legal :: "bool \<Rightarrow> conf_entry list \<Rightarrow> (int list \<times> (int \<times> wait_status) list list) list \<Rightarrow> master \<Rightarrow> bool" where
  "refresh_legal i es waits m \<longleftrightarrow> list_all (\<lambda>e. new_serv (ce_serv e)) es \<and> refresh_fresh i es waits m"

lemmas refresh_defs = refresh_legal_def refresh_fresh_def entries_legal_def

lemma refresh_ok:
  assumes ok: "master_ok m" and legal: "refresh_legal i es waits m"
  shows "returns (master_refresh i es waits m) (\<lambda>m'. master_ok m' \<and> conf_map m' = configured es Map.empty)"
proof -
  have "returns (master_config es (mark_services m)) (\<lambda>m'. conf_ok m' \<and> conf_map m' = configured es (conf_map (mark_services m)))"
    using ok legal by (intro config_ok) (simp_all add: mark_services_ok master_ok_def refresh_defs)
  then obtain m' where m': "master_config es (mark_services m) = Ret m'" "conf_ok m'" "conf_map m' = configured es Map.empty"
    using mark_services_ok [of m] ok by (auto simp: returns_def master_ok_def)
  have "returns (delete_marked i waits (master_head m') m') (\<lambda>m''. conf_ok m'' \<and> conf_map m'' = conf_map m' \<and> set (master_head m'') \<subseteq> set (master_head m')
       \<and> (\<forall>t \<in> set (master_head m''). conf_of (services m'' t) = conf_of (services m' t)
           \<and> (t \<in> set (master_head m') \<longrightarrow> \<not> MASTER_MARKED_FOR_DELETION (services m'' t))))"
    using m' legal by (intro delete_marked_ok) (auto simp: refresh_defs conf_ok_def head_ok_distinct)
  then show ?thesis
    using m' by (auto simp: master_refresh_def master_ok_def elim!: returns_mono)
qed

section \<open>Events\<close>

text \<open>
  What can happen to the process manager. A request to connect comes with the status pipe and the process that the
  kernel makes for it, if any. The event manager removes a timer request before it calls the handler.
\<close>

datatype master_event =
    Me_clock int
  | Me_connect int "int \<times> int" "int option"
  | Me_status int status_read
  | Me_unthrottle serv_id
  | Me_wakeup serv_id
  | Me_reap "(int \<times> wait_status) list"
  | Me_refresh "conf_entry list" "(int list \<times> (int \<times> wait_status) list list) list"

fun master_handle :: "bool \<Rightarrow> master_event \<Rightarrow> master \<Rightarrow> master outcome" where
  "master_handle i (Me_clock now) m = Ret (m\<lparr>master_time := now\<rparr>)"
| "master_handle i (Me_connect fd pipe fork) m =
     (case master_readers m fd of Some (Rd_avail s) \<Rightarrow> master_avail_event pipe fork s m | _ \<Rightarrow> Ret m)"
| "master_handle i (Me_status fd st) m =
     (case master_readers m fd of Some (Rd_status s) \<Rightarrow> master_status_event s st m | _ \<Rightarrow> Ret m)"
| "master_handle i (Me_unthrottle s) m = Ret (master_unthrottle s (cancel_timer (Tm_unthrottle s) m))"
| "master_handle i (Me_wakeup s) m = master_wakeup_timer_event s (cancel_timer (Tm_wakeup s) m)"
| "master_handle i (Me_reap ws) m = master_reap_child i ws m"
| "master_handle i (Me_refresh es waits) m = master_refresh i es waits m"

text \<open>
  When they can happen. The process manager keeps the other end of the status pipes open, so that they have no end of
  file, and a process reports on the pipe of its own service.
\<close>

fun report_ok :: "serv_id \<Rightarrow> status_read \<Rightarrow> master \<Rightarrow> bool" where
  "report_ok s (St_report pid gen avail) m \<longleftrightarrow>
     (case master_child_table m pid of None \<Rightarrow> True | Some p \<Rightarrow> pr_gen p \<noteq> gen \<or> pr_serv p = s)"
| "report_ok s St_eof m \<longleftrightarrow> False"
| "report_ok s st m \<longleftrightarrow> True"

fun master_enabled :: "bool \<Rightarrow> master_event \<Rightarrow> master \<Rightarrow> bool" where
  "master_enabled i (Me_clock now) m \<longleftrightarrow> True"
| "master_enabled i (Me_connect fd pipe fork) m \<longleftrightarrow>
     (case master_readers m fd of Some (Rd_avail s) \<Rightarrow> fresh_fd (set (master_head m)) m (fst pipe) \<and> fork_ok fork m | _ \<Rightarrow> False)"
| "master_enabled i (Me_status fd st) m \<longleftrightarrow> (case master_readers m fd of Some (Rd_status s) \<Rightarrow> report_ok s st m | _ \<Rightarrow> False)"
| "master_enabled i (Me_unthrottle s) m \<longleftrightarrow> master_timers m (Tm_unthrottle s) \<noteq> None"
| "master_enabled i (Me_wakeup s) m \<longleftrightarrow> master_timers m (Tm_wakeup s) \<noteq> None"
| "master_enabled i (Me_reap ws) m \<longleftrightarrow> waits_legal i ws (master_child_table m)"
| "master_enabled i (Me_refresh es waits) m \<longleftrightarrow> refresh_legal i es waits m"

inductive master_step :: "bool \<Rightarrow> master \<Rightarrow> master \<Rightarrow> bool" for i where
  step: "master_enabled i ev m \<Longrightarrow> master_handle i ev m = Ret m' \<Longrightarrow> master_step i m m'"

inductive_cases master_stepE: "master_step i m m'"

definition master_init :: "master \<Rightarrow> bool" where
  "master_init m \<longleftrightarrow> master_head m = [] \<and> master_child_table m = Map.empty \<and> master_timers m = Map.empty \<and> master_readers m = Map.empty"

lemma master_okI: "master_ok m \<Longrightarrow> serv_good (set (master_head m)) m' \<Longrightarrow> conf_same m m' \<Longrightarrow> master_ok m'"
  using head_ok_cong [of m m'] by (auto simp: master_ok_def conf_ok_def conf_same_def conf_of_def)

lemma master_ok_parts:
  assumes "master_ok m"
  shows "serv_good (set (master_head m)) m" "base_ok (set (master_head m)) m" "readers_ok (set (master_head m)) (master_readers m) (services m)"
    "throttles_ok (set (master_head m)) (master_timers m) (services m)" "tally_ok (set (master_head m)) (master_child_table m) (services m)"
  using assms by (simp_all add: master_ok_def conf_ok_def serv_good_def base_ok_def)

lemma master_ok_service:
  assumes "master_ok m" and "s \<in> set (master_head m)"
  shows "sv_status_fd (services m s) \<noteq> None" "attended (services m s)" "near_ok s (set (master_head m)) m"
  using assms by (auto simp: master_ok_def conf_ok_def head_ok_def serv_good_def near_ok_def)

lemma connect_ok:
  assumes ok: "master_ok m" and rd: "master_readers m fd = Some (Rd_avail s)" and fresh: "fresh_fd (set (master_head m)) m (fst pipe)" and fork: "fork_ok fork m"
  shows "returns (master_avail_event pipe fork s m) (\<lambda>m'. master_ok m' \<and> master_head m' = master_head m
    \<and> s \<in> set (master_head m) \<and> wants_listen (services m s) \<and> sv_max_proc (services m' s) = sv_max_proc (services m s)
    \<and> (sv_total_proc (services m' s) = sv_total_proc (services m s) + 1 \<or> sv_total_proc (services m' s) = sv_total_proc (services m s) \<and> MASTER_THROTTLED (services m' s)))"
proof -
  have s: "s \<in> set (master_head m)" and listen: "MASTER_LISTENING (services m s)"
    using master_ok_parts(3) [OF ok] rd by (auto simp: readers_ok_def)
  have want: "wants_listen (services m s)" using master_ok_service(2) [OF ok s] listen by (simp add: attended_def)
  have head: "head_ok m" "\<forall>t \<in> set (master_head m). \<not> MASTER_MARKED_FOR_DELETION (services m t)" using ok by (simp_all add: master_ok_def conf_ok_def)
  show ?thesis
  proof (rule returns_mono [OF avail_event_ok [OF master_ok_parts(1) [OF ok] s listen master_ok_service(1) [OF ok s] fresh fork]], goal_cases)
    case (1 m')
    then have hd: "master_head m' = master_head m" "next_serv m' = next_serv m" and others: "t \<noteq> s \<Longrightarrow> services m' t = services m t" for t
      by (simp_all add: serv_frame_def)
    have conf: "endpoint (services m' s) = endpoint (services m s)" "sv_max_proc (services m' s) = sv_max_proc (services m s)"
      "sv_status_fd (services m' s) \<noteq> None" "\<not> MASTER_MARKED_FOR_DELETION (services m' s)"
      using 1 master_ok_service(1) [OF ok s] head s by (auto simp: conf_defs endpoint_def)
    have ep: "endpoint (services m' t) = endpoint (services m t)" for t using conf(1) others by (cases "t = s") auto
    have "t < next_serv m' \<and> sv_status_fd (services m' t) \<noteq> None \<and> 0 \<le> sv_max_proc (services m' t) \<and> \<not> MASTER_MARKED_FOR_DELETION (services m' t)"
      if "t \<in> set (master_head m)" for t
      using that head s conf others [of t] hd by (cases "t = s") (auto simp: head_ok_def)
    then have "head_ok m'" "\<forall>t \<in> set (master_head m'). \<not> MASTER_MARKED_FOR_DELETION (services m' t)"
      using head unfolding head_ok_def hd ep by blast+
    then have "master_ok m'" using 1 hd by (simp add: master_ok_def conf_ok_def)
    then show ?case using 1 hd s want conf by simp
  qed
qed

lemma status_event_ok:
  assumes ok: "master_ok m" and rd: "master_readers m fd = Some (Rd_status s)" and rep: "report_ok s st m"
  shows "returns (master_status_event s st m) master_ok"
proof (cases st)
  case (St_report pid gen avail)
  have s: "s \<in> set (master_head m)" using master_ok_parts(3) [OF ok] rd by (auto simp: readers_ok_def)
  note near = master_ok_service(3) [OF ok s]
  have keep: "returns x (\<lambda>m'. serv_good (set (master_head m)) m' \<and> serv_frame s m m' \<and> conf_same m m' \<and> sv_total_proc (services m' s) = sv_total_proc (services m s))
      \<Longrightarrow> returns x master_ok" for x
    by (erule returns_mono) (use master_okI [OF ok] in blast)
  show ?thesis
  proof (cases "master_child_table m pid")
    case (Some p)
    have two: "pr_avail p \<in> {MASTER_STAT_TAKEN, MASTER_STAT_AVAIL}" using master_ok_parts(5) [OF ok] Some by (auto simp: tally_ok_def)
    consider "pr_gen p \<noteq> gen" | "pr_avail p = avail" "pr_gen p = gen" | "avail \<notin> {MASTER_STAT_AVAIL, MASTER_STAT_TAKEN}"
      | "pr_avail p \<noteq> MASTER_STAT_AVAIL" "avail = MASTER_STAT_AVAIL" "pr_gen p = gen"
      | "pr_avail p = MASTER_STAT_AVAIL" "avail = MASTER_STAT_TAKEN" "pr_gen p = gen" using two by blast
    then show ?thesis
    proof cases
      case 4
      then show ?thesis using keep [OF avail_more_good [OF near Some]] rep Some St_report by (simp add: master_status_event_def)
    next
      case 5
      then show ?thesis using keep [OF avail_less_good [OF near Some]] rep Some St_report
        by (simp add: master_status_event_def MASTER_STAT_AVAIL_def MASTER_STAT_TAKEN_def)
    qed (use ok rep Some St_report in \<open>auto simp: master_status_event_def\<close>)
  qed (use ok St_report in \<open>simp add: master_status_event_def\<close>)
qed (use ok rep in \<open>simp_all add: master_status_event_def\<close>)

lemma timer_ok:
  assumes ok: "master_ok m"
  shows "master_timers m (Tm_unthrottle s) \<noteq> None \<Longrightarrow> master_ok (master_unthrottle s (cancel_timer (Tm_unthrottle s) m))"
    and "master_timers m (Tm_wakeup s) \<noteq> None \<Longrightarrow> returns (master_wakeup_timer_event s (cancel_timer (Tm_wakeup s) m)) master_ok"
proof -
  let ?L = "set (master_head m)"
  have inL: "s \<in> ?L" if "master_timers m (Tm_unthrottle s) \<noteq> None \<or> master_timers m (Tm_wakeup s) \<noteq> None"
    using master_ok_parts(4) [OF ok] that by (auto simp: throttles_ok_def)
  show "master_ok (master_unthrottle s (cancel_timer (Tm_unthrottle s) m))" if tm: "master_timers m (Tm_unthrottle s) \<noteq> None"
  proof -
    have s: "s \<in> ?L" using inL tm by blast
    have "MASTER_THROTTLED (services m s)" using master_ok_parts(4) [OF ok] s tm by (simp add: throttles_ok_def)
    then have "master_unthrottle s (cancel_timer (Tm_unthrottle s) m) = master_unthrottle s m"
      by (simp add: master_unthrottle_def cancel_timer_def upd_serv_def)
    then show ?thesis
      using unthrottle_good [OF master_ok_service(3) [OF ok s] master_ok_service(2) [OF ok s]] by (auto intro: master_okI [OF ok])
  qed
  show "returns (master_wakeup_timer_event s (cancel_timer (Tm_wakeup s) m)) master_ok" if tm: "master_timers m (Tm_wakeup s) \<noteq> None"
  proof -
    have s: "s \<in> ?L" using inL tm by blast
    have "base_ok ?L (master_wakeup_cleanup s m)" by (rule wakeup_cleanup_ok [OF master_ok_parts(2) [OF ok] s])
    then have base: "base_ok ?L (cancel_timer (Tm_wakeup s) m)" by (simp add: master_wakeup_cleanup_def)
    show ?thesis
      by (rule returns_mono [OF wakeup_event_ok [OF base s]])
        (use master_ok_parts(1) [OF ok] in \<open>auto intro!: master_okI [OF ok] simp: serv_good_def conf_same_def\<close>)
  qed
qed

lemma master_handle_ok:
  assumes ok: "master_ok m" and en: "master_enabled i ev m"
  shows "returns (master_handle i ev m) master_ok"
proof (cases ev)
  case (Me_clock now)
  have "serv_good (set (master_head m)) (m\<lparr>master_time := now\<rparr>)" using master_ok_parts(1) [OF ok] by (simp add: serv_good_def base_ok_def)
  then show ?thesis using Me_clock by (auto intro!: master_okI [OF ok] simp: conf_same_def)
next
  case (Me_connect fd pipe fork)
  then show ?thesis using en by (auto split: option.splits reader.splits elim!: returns_mono [OF connect_ok [OF ok]])
next
  case (Me_status fd st)
  then show ?thesis using en status_event_ok [OF ok] by (auto split: option.splits reader.splits)
next
  case (Me_reap ws)
  then have "returns (master_reap_child i ws m) (reaped (set (master_head m)) m (fold reap_tab ws (master_child_table m)))"
    using en by (intro reap_child_good [OF master_ok_parts(1) [OF ok]]) simp
  then show ?thesis using Me_reap by (auto elim!: returns_mono intro: master_okI [OF ok] simp: reaped_def)
next
  case (Me_refresh es waits)
  then show ?thesis using en refresh_ok [OF ok, of i es waits] by (auto elim: returns_mono)
qed (use en timer_ok [OF ok] in auto)

lemma master_init_ok: "master_init m \<Longrightarrow> master_ok m"
  by (simp add: master_init_def master_ok_def conf_ok_def head_ok_def serv_good_def base_ok_def tally_ok_def throttles_ok_def readers_ok_def fds_ok_def)

interpretation mm: transition_system master_init "master_step i" master_ok for i
proof unfold_locales
  fix m m' assume "master_ok m" and "master_step i m m'"
  then show "master_ok m'" by (elim master_stepE) (use master_handle_ok in \<open>fastforce simp: returns_def\<close>)
qed (rule master_init_ok)

lemma reachable_master_ok: "master_init m \<Longrightarrow> (master_step i)\<^sup>*\<^sup>* m m' \<Longrightarrow> master_ok m'"
  by (rule mm.inv_reachable)

section \<open>Properties\<close>



text \<open>
  C12: No service is forgotten: in every reachable state the process manager watches the sockets of a service exactly when
  the service is not throttled, none of its processes is available to accept the connection, and another process is within the limit; and
  a throttled service has the timer pending that ends this.
\<close>

theorem services_attended:
  assumes "master_init m0" and "(master_step i)\<^sup>*\<^sup>* m0 m" and "s \<in> set (master_head m)" and "fd \<in> set (sv_listen_fd (services m s))"
  shows "(master_readers m fd = Some (Rd_avail s) \<longleftrightarrow> \<not> MASTER_THROTTLED (services m s) \<and> avails (master_child_table m) s = {}
      \<and> MASTER_LIMIT_OK (sv_max_proc (services m s)) (int (card (procs (master_child_table m) s))))
    \<and> (MASTER_THROTTLED (services m s) \<longleftrightarrow> master_timers m (Tm_unthrottle s) \<noteq> None)"
proof -
  have ok: "master_ok m" by (rule reachable_master_ok [OF assms(1,2)])
  have cnt: "finite (dom (master_child_table m))" "sv_total_proc (services m s) = int (card (procs (master_child_table m) s))"
    "sv_avail_proc (services m s) = int (card (avails (master_child_table m) s))"
    using master_ok_parts(5) [OF ok] assms(3) by (simp_all add: tally_ok_def)
  have "master_readers m fd = Some (Rd_avail s) \<longleftrightarrow> MASTER_LISTENING (services m s)"
    using master_ok_parts(3) [OF ok] assms(3,4) by (simp add: readers_ok_def)
  also have "\<dots> \<longleftrightarrow> wants_listen (services m s)" using master_ok_service(2) [OF ok assms(3)] by (simp add: attended_def)
  also have "\<dots> \<longleftrightarrow> \<not> MASTER_THROTTLED (services m s) \<and> avails (master_child_table m) s = {}
      \<and> MASTER_LIMIT_OK (sv_max_proc (services m s)) (int (card (procs (master_child_table m) s)))"
    using cnt by (auto simp: wants_listen_def card_gt_0_iff)
  finally show ?thesis using master_ok_parts(4) [OF ok] assms(3) by (auto simp: throttles_ok_def)
qed


text \<open>
  C16: Stopping a service ends: when its processes end after the signal, whatever other processes end meanwhile, the wait
  of \<^verbatim>\<open>master_delete_children()\<close> is over, and no process of the service is left.
\<close>

theorem delete_children_ends:
  assumes "master_init m0" and "(master_step i)\<^sup>*\<^sup>* m0 m" and "s \<in> set (master_head m)"
    and "waits_legal i (concat batches) (master_child_table m)" and "procs (fold reap_tab (concat batches) (master_child_table m)) s = {}"
  shows "\<exists>m'. master_delete_children i pids batches s m = Ret m' \<and> procs (master_child_table m') s = {} \<and> sv_total_proc (services m' s) = 0
    \<and> \<not> MASTER_THROTTLED (services m' s)"
proof -
  have ok: "master_ok m" by (rule reachable_master_ok [OF assms(1,2)])
  have "ends_legal i s batches (master_child_table m)" using assms(4,5) by (simp add: ends_legal_def)
  from delete_children_good [OF master_ok_parts(1) [OF ok] assms(3) this, of pids]
  obtain m' where "master_delete_children i pids batches s m = Ret m'" "serv_good (set (master_head m)) m'"
      "procs (master_child_table m') s = {}" "\<not> MASTER_THROTTLED (services m' s)"
    by (auto simp: returns_def)
  then show ?thesis using assms(3) by (auto simp: serv_good_def base_ok_def tally_ok_def)
qed

section \<open>A run\<close>

text \<open>The process manager starts a service with at most two processes, and runs one process for it.\<close>

definition demo_service :: service where
  "demo_service = \<lparr>sv_flags = 0, sv_ext_name = ''smtp'', sv_name = ''25'', sv_type = MASTER_SERV_TYPE_INET, sv_busy_warn_time = 0,
     sv_wakeup_time = 0, sv_listen_fd = [], sv_max_proc = 2, sv_path = ''smtpd'', sv_args = [], sv_stress = True, sv_stress_expire_time = 0,
     sv_avail_proc = 0, sv_total_proc = 0, sv_throttle_delay = 60, sv_status_fd = None\<rparr>"

definition demo_smtp :: conf_entry where
  "demo_smtp = \<lparr>ce_serv = demo_service, ce_fds = [6], ce_pipe = (7, 8)\<rparr>"

definition demo_pickup :: conf_entry where
  "demo_pickup = \<lparr>ce_serv = demo_service\<lparr>sv_ext_name := ''pickup'', sv_name := ''public/pickup'', sv_type := MASTER_SERV_TYPE_FIFO, sv_wakeup_time := 60,
     sv_max_proc := 1, sv_path := ''pickup'', sv_stress := False\<rparr>, ce_fds = [11], ce_pipe = (12, 13)\<rparr>"

definition demo_init :: master where
  "demo_init = \<lparr>services = (\<lambda>_. demo_service), master_head = [], master_child_table = Map.empty, master_generation = 0,
     master_timers = Map.empty, master_readers = Map.empty, master_time = 1000, wakeups = [], killed = [], next_serv = 0\<rparr>"

definition demo_up :: master where
  "demo_up = ret_of (master_handle False (Me_refresh [demo_smtp] []) demo_init) demo_init"

definition demo_serving :: master where
  "demo_serving = ret_of (master_handle False (Me_connect 6 (9, 10) (Some 100)) demo_up) demo_up"

lemma master_run:
  assumes "master_init m0" and "(master_step i)\<^sup>*\<^sup>* m0 m" and "master_enabled i ev m"
  shows "(master_step i)\<^sup>*\<^sup>* m0 (ret_of (master_handle i ev m) x)"
proof -
  obtain m' where "master_handle i ev m = Ret m'"
    using master_handle_ok [OF reachable_master_ok [OF assms(1,2)] assms(3)] by (auto simp: returns_def)
  then show ?thesis using assms(2,3) by (simp add: ret_of_def) (rule rtranclp.rtrancl_into_rtrancl, assumption, rule master_step.step)
qed

lemma demo_init: "master_init demo_init"
  by (simp add: demo_init_def master_init_def)

lemma deletes_none: "list_all (\<lambda>s. \<not> MASTER_MARKED_FOR_DELETION (services m s)) ss \<Longrightarrow> deletes_legal i waits ss m"
  by (induction ss) auto

lemma demo_up: "(master_step False)\<^sup>*\<^sup>* demo_init demo_up"
proof -
  have "entries_legal [demo_smtp] (mark_services demo_init)" by code_simp
  moreover have "case master_config [demo_smtp] (mark_services demo_init) of
      Ret m \<Rightarrow> list_all (\<lambda>s. \<not> MASTER_MARKED_FOR_DELETION (services m s)) (master_head m) | _ \<Rightarrow> True" by code_simp
  ultimately have "master_enabled False (Me_refresh [demo_smtp] []) demo_init"
    by (auto simp: refresh_defs deletes_none split: outcome.splits)
  then show ?thesis unfolding demo_up_def by (rule master_run [OF demo_init rtranclp.rtrancl_refl])
qed

lemma demo_up_state: "master_head demo_up = [0]" "sv_listen_fd (services demo_up 0) = [6]" "master_readers demo_up 6 = Some (Rd_avail 0)"
  "fresh_fd (set (master_head demo_up)) demo_up 9" "fork_ok (Some 100) demo_up"
  by code_simp+

lemma demo_connect: "master_enabled False (Me_connect 6 (9, 10) (Some 100)) demo_up"
  using demo_up_state by simp

lemma demo_serving: "(master_step False)\<^sup>*\<^sup>* demo_init demo_serving"
  unfolding demo_serving_def by (rule master_run [OF demo_init demo_up demo_connect])

lemma demo_serving_state: "master_head demo_serving = [0]" "map_option pr_serv (master_child_table demo_serving 100) = Some 0" "sv_total_proc (services demo_serving 0) = 1"
  by code_simp+

lemma single_process:
  assumes "tally_ok L T sv" and "s \<in> L" and "sv_total_proc (sv s) = 1" and "map_option pr_serv (T pid) = Some s"
  shows "procs T s = {pid}"
proof -
  have "card (procs T s) = 1" "pid \<in> procs T s" using assms by (auto simp: tally_ok_def)
  then show ?thesis by (auto simp: card_1_singleton_iff simp del: in_procs)
qed



theorem services_attended_witness:
  "(master_readers demo_up 6 = Some (Rd_avail 0) \<longleftrightarrow> \<not> MASTER_THROTTLED (services demo_up 0) \<and> avails (master_child_table demo_up) 0 = {}
      \<and> MASTER_LIMIT_OK (sv_max_proc (services demo_up 0)) (int (card (procs (master_child_table demo_up) 0))))
    \<and> (MASTER_THROTTLED (services demo_up 0) \<longleftrightarrow> master_timers demo_up (Tm_unthrottle 0) \<noteq> None)"
  by (rule services_attended [OF demo_init demo_up]) (simp_all add: demo_up_state)

text \<open>A reload with another service in the place of the first one.\<close>

lemma demo_reload: "master_enabled False (Me_refresh [demo_pickup] [([], [])]) demo_up"
proof -
  have ok: "conf_ok (mark_services demo_up)"
    using mark_services_ok [of demo_up] reachable_master_ok [OF demo_init demo_up] by (simp add: master_ok_def)
  have legal: "entries_legal [demo_pickup] (mark_services demo_up)" by code_simp
  from config_ok [OF ok legal] obtain m where m: "master_config [demo_pickup] (mark_services demo_up) = Ret m" "conf_ok m" by (auto simp: returns_def)
  have "case master_config [demo_pickup] (mark_services demo_up) of Ret m \<Rightarrow> master_head m = [1, 0] \<and> \<not> MASTER_MARKED_FOR_DELETION (services m 1)
      \<and> MASTER_MARKED_FOR_DELETION (services m 0) \<and> sv_total_proc (services m 0) = 0 | _ \<Rightarrow> False" by code_simp
  then have st: "master_head m = [1, 0]" "\<not> MASTER_MARKED_FOR_DELETION (services m 1)" "sv_total_proc (services m 0) = 0" using m by simp_all
  have "procs (master_child_table m) 0 = {}" using total_zero [of "set (master_head m)" m 0] m(2) st by (simp add: conf_ok_def serv_good_def)
  then show ?thesis using legal m st by (simp add: refresh_defs ends_legal_def split: outcome.split)
qed


theorem delete_children_ends_witness:
  "\<exists>m'. master_delete_children False [100] [[(100, W_normal)]] 0 demo_serving = Ret m' \<and> procs (master_child_table m') 0 = {}
    \<and> sv_total_proc (services m' 0) = 0 \<and> \<not> MASTER_THROTTLED (services m' 0)"
proof (rule delete_children_ends [OF demo_init demo_serving])
  have "procs (master_child_table demo_serving) 0 = {100}"
    using demo_serving_state by (intro single_process [OF master_ok_parts(5) [OF reachable_master_ok [OF demo_init demo_serving]]]) simp_all
  then show "procs (fold reap_tab (concat [[(100, W_normal)]]) (master_child_table demo_serving)) 0 = {}" by (simp add: reap_tab_def)
qed (use demo_serving_state in auto)

end
