(* ===== verification/Master_Ent.thy ===== *)
theory Master_Ent
  imports Master_Machine C_Lib
begin

unbundle bit_operations_syntax

text \<open>
  The reader of \<^verbatim>\<open>master.cf\<close>: \<^verbatim>\<open>src/src/master/master_ent.c\<close>, with the functions that it calls,
  \<^verbatim>\<open>src/src/util/readlline.c\<close>, \<^verbatim>\<open>mystrtok.c\<close>, \<^verbatim>\<open>balpar.c\<close>, \<^verbatim>\<open>extpar.c\<close>, \<^verbatim>\<open>host_port.c\<close>, and \<^verbatim>\<open>src/src/global/match_service.c\<close>.
  The text of the file is a string. Line numbers, which only go into messages, are left out. The syntax of host names, and
  network addresses and ports of services, are parameters. A fatal error is \<open>Panic\<close>.
\<close>

section \<open>Logical lines\<close>

text \<open>One physical line, whether the end of the file was reached, and the rest.\<close>

fun get_line :: "string \<Rightarrow> string \<times> bool \<times> string" where
  "get_line [] = ([], True, [])"
| "get_line (ch # fp) = (if ch = CHR 0x0A then ([], False, fp) else (let (line, eof, rest) = get_line fp in (ch # line, eof, rest)))"

lemma get_line_shorter: "get_line fp = (line, eof, rest) \<Longrightarrow> length line + length rest \<le> length fp \<and> (\<not> eof \<longrightarrow> length line + length rest < length fp)"
  by (induction fp arbitrary: line eof rest) (auto split: if_splits prod.splits)

text \<open>Comment lines and blank lines are skipped, lines that start with white space continue the line before.\<close>

definition add_line :: "string \<Rightarrow> string \<Rightarrow> string" where
  "add_line buf line = (let cp = dropWhile isspace line in if cp = [] \<or> hd cp = CHR ''#'' then buf else buf @ line)"

function readll_loop :: "string \<Rightarrow> string \<Rightarrow> string \<times> string" where
  "readll_loop buf fp =
     (case get_line fp of
        (line, eof, rest) \<Rightarrow>
          if eof then (add_line buf line, rest)
          else if add_line buf line \<noteq> [] \<and> (rest = [] \<or> hd rest \<noteq> CHR ''#'' \<and> \<not> isspace (hd rest)) then (add_line buf line, rest)
          else readll_loop (add_line buf line) rest)"
  by pat_completeness auto
termination
proof (relation "measure (\<lambda>(buf, fp). length fp)", goal_cases)
  case (2 buf fp line y eof rest)
  then have "get_line fp = (line, eof, rest)" by simp
  from get_line_shorter [OF this] show ?case using 2 by simp
qed simp

declare readll_loop.simps [simp del]

lemma readll_loop_shorter: "readll_loop buf fp = (buf', rest) \<Longrightarrow> length buf' + length rest \<le> length buf + length fp"
proof (induction buf fp arbitrary: buf' rest rule: readll_loop.induct)
  case (1 buf fp)
  obtain line eof r where g: "get_line fp = (line, eof, r)" by (cases "get_line fp") auto
  have len: "length (add_line buf line) + length r \<le> length buf + length fp"
    using get_line_shorter [OF g] by (auto simp: add_line_def Let_def)
  show ?case
  proof (cases "eof \<or> (add_line buf line \<noteq> [] \<and> (r = [] \<or> hd r \<noteq> CHR ''#'' \<and> \<not> isspace (hd r)))")
    case True
    then have "buf' = add_line buf line \<and> rest = r" using 1(2) by (subst (asm) readll_loop.simps) (auto simp: g split: if_splits)
    then show ?thesis using len by simp
  next
    case False
    then have "readll_loop (add_line buf line) r = (buf', rest)" using 1(2) by (subst (asm) readll_loop.simps) (auto simp: g split: if_splits)
    then show ?thesis using 1(1) [OF g [symmetric] refl, of buf' rest] False len by simp
  qed
qed

text \<open>Continuation text with nothing before it is skipped.\<close>

function readllines :: "string \<Rightarrow> (string \<times> string) option" where
  "readllines fp =
     (case readll_loop [] fp of
        (buf, rest) \<Rightarrow>
          if buf \<noteq> [] \<and> isspace (hd buf) then readllines rest
          else if buf \<noteq> [] then Some (buf, rest) else None)"
  by pat_completeness auto
termination
proof (relation "measure length", goal_cases)
  case (2 fp buf rest)
  then have "length buf + length rest \<le> length fp" using readll_loop_shorter [of "[]" fp buf rest] by simp
  then show ?case using 2 by (cases buf) auto
qed simp

declare readllines.simps [simp del]

lemma readllines_shorter: "readllines fp = Some (buf, rest) \<Longrightarrow> length rest < length fp"
proof (induction fp arbitrary: buf rest rule: readllines.induct)
  case (1 fp)
  obtain b r where l: "readll_loop [] fp = (b, r)" by (cases "readll_loop [] fp") auto
  then have len: "length b + length r \<le> length fp" using readll_loop_shorter by fastforce
  show ?case
  proof (cases "b \<noteq> [] \<and> isspace (hd b)")
    case True
    then have "length rest < length r" using 1(1) [OF l [symmetric] True] 1(2) by (subst (asm) readllines.simps) (simp add: l)
    then show ?thesis using len by simp
  next
    case False
    then have "b \<noteq> [] \<and> rest = r" using 1(2) by (subst (asm) readllines.simps) (auto simp: l split: if_splits)
    then show ?thesis using len by (cases b) auto
  qed
qed

section \<open>Words\<close>

definition CHARS_SPACE :: string where "CHARS_SPACE = [CHR '' '', CHR 0x09, CHR 0x0D, CHR 0x0A]"
definition CHARS_COMMA_SP :: string where "CHARS_COMMA_SP = CHR '','' # [CHR '' '', CHR 0x09, CHR 0x0D, CHR 0x0A]"

text \<open>
  A pointer into a buffer: the characters before it, the nearest one first, and those from there on. The delimiter after
  a word is overwritten with a null character.
\<close>

type_synonym cursor = "string \<times> string"

definition mystrtok :: "string \<Rightarrow> cursor \<Rightarrow> string option \<times> cursor" where
  "mystrtok sep src =
     (let before = rev (takeWhile (\<lambda>c. c \<in> set sep) (snd src)) @ fst src;
          start = dropWhile (\<lambda>c. c \<in> set sep) (snd src)
      in if start = [] then (None, (before, []))
         else let word = takeWhile (\<lambda>c. c \<notin> set sep) start;
                  end' = dropWhile (\<lambda>c. c \<notin> set sep) start
              in (Some word, if end' = [] then (rev word @ before, []) else (CHR 0x00 # rev word @ before, tl end')))"

text \<open>\<^verbatim>\<open>bufp[*bufp ? -2 : -1]\<close>\<close>

definition last_of_word :: "cursor \<Rightarrow> char option" where
  "last_of_word bufp = (if snd bufp = [] then (case fst bufp of c # _ \<Rightarrow> Some c | _ \<Rightarrow> None)
     else (case fst bufp of _ # c # _ \<Rightarrow> Some c | _ \<Rightarrow> None))"

text \<open>Words in which text between braces may have blanks.\<close>

fun tokq_scan :: "string \<Rightarrow> char \<times> char \<Rightarrow> nat \<Rightarrow> string \<Rightarrow> string \<times> string" where
  "tokq_scan sep parens level [] = ([], [])"
| "tokq_scan sep parens level (ch # cp) =
     (if ch \<noteq> fst parens \<and> \<not> (level > 0 \<and> ch = snd parens) \<and> level = 0 \<and> ch \<in> set sep then ([], cp)
      else let (word, rest) = tokq_scan sep parens
                 (if ch = fst parens then level + 1 else if level > 0 \<and> ch = snd parens then level - 1 else level) cp
           in (ch # word, rest))"

definition mystrtokq :: "string \<Rightarrow> char \<times> char \<Rightarrow> string \<Rightarrow> (string \<times> string) option" where
  "mystrtokq sep parens src =
     (let start = dropWhile (\<lambda>c. c \<in> set sep) src in if start = [] then None else Some (tokq_scan sep parens 0 start))"

lemma tokq_scan_shorter: "tokq_scan sep parens level s = (word, rest) \<Longrightarrow> length rest \<le> length s"
  by (induction sep parens level s arbitrary: word rest rule: tokq_scan.induct) (force split: if_splits prod.splits simp: Let_def)+

lemma mystrtokq_shorter: "mystrtokq sep parens s = Some (word, rest) \<Longrightarrow> length rest < length s"
proof -
  assume a: "mystrtokq sep parens s = Some (word, rest)"
  let ?t = "dropWhile (\<lambda>c. c \<in> set sep) s"
  obtain c cs where t: "?t = c # cs" and c: "c \<notin> set sep" using a by (cases ?t) (auto simp: mystrtokq_def Let_def dropWhile_eq_Cons_conv split: if_splits)
  have "length ?t \<le> length s" by (rule length_dropWhile_le)
  moreover have "length rest \<le> length cs"
    using a t c tokq_scan_shorter by (fastforce simp: mystrtokq_def Let_def split: prod.splits)
  ultimately show ?thesis using t by simp
qed

text \<open>The length of text between balanced braces, or 0.\<close>

fun balpar_scan :: "char \<times> char \<Rightarrow> nat \<Rightarrow> nat \<Rightarrow> string \<Rightarrow> nat" where
  "balpar_scan parens level len [] = 0"
| "balpar_scan parens level len (ch # cp) =
     (if ch = snd parens then (if level = 1 then len + 1 else balpar_scan parens (level - 1) (len + 1) cp)
      else balpar_scan parens (if ch = fst parens then level + 1 else level) (len + 1) cp)"

definition balpar :: "string \<Rightarrow> char \<times> char \<Rightarrow> nat" where
  "balpar s parens = (case s of ch # cp \<Rightarrow> if ch = fst parens then balpar_scan parens 1 1 cp else 0 | [] \<Rightarrow> 0)"

definition trimblanks :: "string \<Rightarrow> string" where
  "trimblanks s = rev (dropWhile isspace (rev s))"

text \<open>Text between braces, without the blanks around it; no result when there is a syntax error.\<close>

definition extpar :: "string \<Rightarrow> char \<times> char \<Rightarrow> string option outcome" where
  "extpar cp parens =
     (if cp = [] \<or> hd cp \<noteq> fst parens then Panic ''extpar''
      else let len = balpar cp parens
           in if len = 0 \<or> drop len cp \<noteq> [] then Ret None
              else Ret (Some (dropWhile isspace (trimblanks (take (len - 2) (tl cp))))))"

section \<open>Hosts and ports\<close>

datatype host_port_error = HP_missing_bracket | HP_garbage_after_bracket | HP_malformed_ipv6 | HP_missing_host | HP_missing_service
  | HP_invalid_host | HP_garbage_after_service

definition split_at :: "char \<Rightarrow> string \<Rightarrow> (string \<times> string) option" where
  "split_at delimiter s = (if delimiter \<in> set s then Some (takeWhile (\<lambda>c. c \<noteq> delimiter) s, tl (dropWhile (\<lambda>c. c \<noteq> delimiter) s)) else None)"

definition split_at_right :: "char \<Rightarrow> string \<Rightarrow> (string \<times> string) option" where
  "split_at_right delimiter s = map_option (\<lambda>(r, l). (rev l, rev r)) (split_at delimiter (rev s))"

definition HAS_IPV6_COL :: "string \<Rightarrow> bool" where
  "HAS_IPV6_COL s \<longleftrightarrow> map tolower (take 5 s) = ''ipv6:''"

text \<open>The host and the port, each with a flag that says that it is the default.\<close>

definition host_port_split :: "(string \<Rightarrow> bool) \<Rightarrow> string option \<Rightarrow> string option \<Rightarrow> string
    \<Rightarrow> host_port_error + (bool \<times> string) option \<times> (bool \<times> string) option" where
  "host_port_split valid_ipv6 def_host def_service buf =
     (if buf \<noteq> [] \<and> hd buf = CHR ''['' then
        let cp = tl buf; ipv6 = HAS_IPV6_COL cp; cp = (if ipv6 then drop 5 cp else cp)
        in case split_at (CHR '']'') cp of
             None \<Rightarrow> Inl HP_missing_bracket
           | Some (host, cp) \<Rightarrow>
               if cp \<noteq> [] \<and> hd cp \<noteq> CHR '':'' then Inl HP_garbage_after_bracket
               else if ipv6 \<and> \<not> valid_ipv6 host then Inl HP_malformed_ipv6
               else Inr (Some (False, host), if tl cp \<noteq> [] then Some (False, tl cp) else map_option (Pair True) def_service)
      else case split_at_right (CHR '':'') buf of
             Some (host, cp) \<Rightarrow>
               Inr (if host \<noteq> [] then Some (False, host) else map_option (Pair True) def_host,
                    if cp \<noteq> [] then Some (False, cp) else map_option (Pair True) def_service)
           | None \<Rightarrow>
               Inr (case def_host of Some h \<Rightarrow> Some (True, h) | None \<Rightarrow> if buf \<noteq> [] then Some (False, buf) else None,
                    case def_service of Some p \<Rightarrow> Some (True, p) | None \<Rightarrow> if buf \<noteq> [] then Some (False, buf) else None))"

definition host_port :: "(string \<Rightarrow> bool) \<Rightarrow> (string \<Rightarrow> bool) \<Rightarrow> string option \<Rightarrow> string option \<Rightarrow> string \<Rightarrow> host_port_error + string \<times> string" where
  "host_port valid_host valid_ipv6 def_host def_service buf =
     (case host_port_split valid_ipv6 def_host def_service buf of
        Inl err \<Rightarrow> Inl err
      | Inr (None, _) \<Rightarrow> Inl HP_missing_host
      | Inr (Some _, None) \<Rightarrow> Inl HP_missing_service
      | Inr (Some (host_def, host), Some (port_def, port)) \<Rightarrow>
          if \<not> host_def \<and> \<not> valid_host host then Inl HP_invalid_host
          else if \<not> port_def \<and> port \<noteq> [] \<and> isdigit (hd port) \<and> \<not> list_all isdigit port then Inl HP_garbage_after_service
          else Inr (host, port))"

section \<open>Patterns of disabled services\<close>

definition match_service_compat :: "string \<Rightarrow> string" where
  "match_service_compat p = (if CHR ''/'' \<in> set p then p
     else case split_at_right (CHR ''.'') p of None \<Rightarrow> p | Some (l, r) \<Rightarrow> l @ CHR ''/'' # r)"

function split_words :: "string \<Rightarrow> string \<Rightarrow> string list" where
  "split_words sep s = (case mystrtok sep ([], s) of (None, _) \<Rightarrow> [] | (Some item, bp) \<Rightarrow> item # split_words sep (snd bp))"
  by pat_completeness auto
termination
proof (relation "measure (\<lambda>(sep, s). length s)", goal_cases)
  case (2 sep s x bp item)
  let ?t = "dropWhile (\<lambda>c. c \<in> set sep) s"
  obtain c cs where t: "?t = c # cs" "c \<notin> set sep"
    using 2 by (cases ?t) (auto simp: mystrtok_def Let_def dropWhile_eq_Cons_conv split: if_splits)
  have "length ?t \<le> length s" by (rule length_dropWhile_le)
  moreover have "length (snd bp) \<le> length cs"
    using 2 t length_dropWhile_le [of "\<lambda>c. c \<notin> set sep" cs] by (auto simp: mystrtok_def Let_def split: if_splits)
  ultimately show ?case using t by simp
qed simp

declare split_words.simps [simp del]

definition match_service_init :: "string \<Rightarrow> string list" where
  "match_service_init patterns = map match_service_compat (split_words CHARS_COMMA_SP patterns)"

fun strip_not :: "bool \<Rightarrow> string \<Rightarrow> bool \<times> string" where
  "strip_not match [] = (match, [])"
| "strip_not match (c # cs) = (if c = CHR ''!'' then strip_not (\<not> match) cs else (match, c # cs))"

fun match_patterns :: "string list \<Rightarrow> string \<Rightarrow> string \<Rightarrow> bool" where
  "match_patterns [] name_type ty = False"
| "match_patterns (p # ps) name_type ty =
     (let (match, pattern) = strip_not True p
      in if map tolower (if CHR ''/'' \<in> set pattern then name_type else ty) = map tolower pattern then match
         else match_patterns ps name_type ty)"

definition match_service_match :: "string list \<Rightarrow> string \<Rightarrow> bool outcome" where
  "match_service_match patterns name_type =
     (if patterns = [] then Ret False
      else case split_at_right (CHR ''/'') name_type of
             None \<Rightarrow> Panic ''match_service_match''
           | Some (_, ty) \<Rightarrow> if ty = [] then Panic ''match_service_match'' else Ret (match_patterns patterns name_type ty))"

section \<open>Fields\<close>

definition get_str_ent :: "cursor \<Rightarrow> string option \<Rightarrow> (string \<times> cursor) outcome" where
  "get_str_ent bufp def_val =
     (case mystrtok CHARS_SPACE bufp of
        (None, _) \<Rightarrow> Panic ''missing field''
      | (Some value', bufp) \<Rightarrow>
          if value' = ''-'' then (case def_val of None \<Rightarrow> Panic ''field has no default value'' | Some d \<Rightarrow> Ret (d, bufp))
          else Ret (value', bufp))"

definition get_bool_ent :: "cursor \<Rightarrow> string \<Rightarrow> (bool \<times> cursor) outcome" where
  "get_bool_ent bufp def_val =
     obind (get_str_ent bufp (Some def_val)) (\<lambda>(value', bufp).
       if value' = ''y'' then Ret (True, bufp) else if value' = ''n'' then Ret (False, bufp) else Panic ''bad value'')"

definition atoi :: "string \<Rightarrow> int" where
  "atoi s = to_int (fst (strtol s))"

definition get_int_ent :: "cursor \<Rightarrow> string \<Rightarrow> int \<Rightarrow> (int \<times> cursor) outcome" where
  "get_int_ent bufp def_val min_val =
     obind (get_str_ent bufp (Some def_val)) (\<lambda>(value', bufp).
       if value' = [] \<or> \<not> isdigit (hd value') \<or> atoi value' < min_val then Panic ''bad value'' else Ret (atoi value', bufp))"

section \<open>Entries\<close>

definition MASTER_FLAG_INETHOST :: "32 word" where "MASTER_FLAG_INETHOST = 8"
definition MASTER_FLAG_LOCAL_ONLY :: "32 word" where "MASTER_FLAG_LOCAL_ONLY = 16"

definition MASTER_XPORT_NAME_UNIX :: string where "MASTER_XPORT_NAME_UNIX = ''unix''"
definition MASTER_XPORT_NAME_FIFO :: string where "MASTER_XPORT_NAME_FIFO = ''fifo''"
definition MASTER_XPORT_NAME_INET :: string where "MASTER_XPORT_NAME_INET = ''inet''"
definition MASTER_XPORT_NAME_PASS :: string where "MASTER_XPORT_NAME_PASS = ''pass''"
definition MASTER_XPORT_NAME_UXDG :: string where "MASTER_XPORT_NAME_UXDG = ''unix-dgram''"

lemmas xport_defs = MASTER_XPORT_NAME_UNIX_def MASTER_XPORT_NAME_FIFO_def MASTER_XPORT_NAME_INET_def MASTER_XPORT_NAME_PASS_def
  MASTER_XPORT_NAME_UXDG_def

text \<open>
  Configuration parameters, and the network: the addresses of a host, or of the machine itself, as flags that tell which ones are
  loopback addresses; and the text of a host and port as the library canonicalizes them.
\<close>

record ent_env =
  var_proc_limit :: int
  var_daemon_dir :: string
  var_throttle_time :: int
  var_compat_level :: int
  master_detach :: bool
  msg_verbose :: bool
  inet_addrs :: "string option \<Rightarrow> bool list"
  hostaddr_to_sockaddr :: "string option \<Rightarrow> string \<Rightarrow> (string \<times> string) option"
  valid_host :: "string \<Rightarrow> bool"
  valid_ipv6 :: "string \<Rightarrow> bool"

text \<open>What the transport field says: the type, the flags, the number of sockets, and host and port of an Internet service.\<close>

record xport =
  xp_type :: int
  xp_flags :: "32 word"
  xp_count :: nat
  xp_host :: "string option"
  xp_port :: string

definition inet_xport :: "ent_env \<Rightarrow> string \<Rightarrow> xport outcome" where
  "inet_xport env name =
     (case host_port (valid_host env) (valid_ipv6 env) (Some []) None name of
        Inl err \<Rightarrow> Panic ''host_port''
      | Inr (host, port) \<Rightarrow>
          let h = (if host \<noteq> [] then Some host else None);
              addrs = inet_addrs env h
          in if host \<noteq> [] \<and> addrs = [] then Panic ''bad hostname or network address''
             else Ret \<lparr>xp_type = MASTER_SERV_TYPE_INET,
                       xp_flags = (if host \<noteq> [] then MASTER_FLAG_INETHOST else 0)
                                  OR (if list_all (\<lambda>loopback. loopback) addrs then MASTER_FLAG_LOCAL_ONLY else 0),
                       xp_count = length addrs, xp_host = h, xp_port = port\<rparr>)"

definition parse_xport :: "ent_env \<Rightarrow> string \<Rightarrow> string \<Rightarrow> xport outcome" where
  "parse_xport env name transport =
     (let local = (\<lambda>ty flags. Ret \<lparr>xp_type = ty, xp_flags = flags, xp_count = 1, xp_host = None, xp_port = []\<rparr>)
      in if transport = MASTER_XPORT_NAME_INET then inet_xport env name
         else if transport = MASTER_XPORT_NAME_UNIX then local MASTER_SERV_TYPE_UNIX MASTER_FLAG_LOCAL_ONLY
         else if transport = MASTER_XPORT_NAME_UXDG then local MASTER_SERV_TYPE_UXDG MASTER_FLAG_LOCAL_ONLY
         else if transport = MASTER_XPORT_NAME_FIFO then local MASTER_SERV_TYPE_FIFO MASTER_FLAG_LOCAL_ONLY
         else if transport = MASTER_XPORT_NAME_PASS then local MASTER_SERV_TYPE_PASS 0
         else Panic ''bad transport type'')"

definition mail_pathname :: "string \<Rightarrow> string \<Rightarrow> string" where
  "mail_pathname service_class service_name = service_class @ ''/'' @ service_name"

definition inet_name :: "ent_env \<Rightarrow> string \<Rightarrow> string option \<Rightarrow> string \<Rightarrow> string" where
  "inet_name env name host port =
     (case hostaddr_to_sockaddr env host port of
        Some (host_addr, serv_port) \<Rightarrow> (case host of Some _ \<Rightarrow> ''['' @ host_addr @ '']:'' @ serv_port | None \<Rightarrow> serv_port)
      | None \<Rightarrow>
          (case hostaddr_to_sockaddr env None port of
             Some (_, serv_port) \<Rightarrow> (case host of Some h \<Rightarrow> ''['' @ h @ '']:'' @ serv_port | None \<Rightarrow> serv_port)
           | None \<Rightarrow> name))"

definition service_name :: "ent_env \<Rightarrow> string \<Rightarrow> bool \<Rightarrow> xport \<Rightarrow> string outcome" where
  "service_name env name private xp =
     (if xp_type xp = MASTER_SERV_TYPE_INET
      then if private then Panic ''inet service cannot be private'' else Ret (inet_name env name (xp_host xp) (xp_port xp))
      else Ret (mail_pathname (if private then ''private'' else ''public'') name))"

definition basename :: "string \<Rightarrow> string" where
  "basename path = (case split_at_right (CHR ''/'') path of None \<Rightarrow> path | Some (_, r) \<Rightarrow> r)"

text \<open>The arguments at the end of the line; text between braces may have blanks.\<close>

definition braces :: "char \<times> char" where "braces = (CHR ''{'', CHR ''}'')"

function get_args :: "string \<Rightarrow> string list outcome" where
  "get_args bufp =
     (case mystrtokq CHARS_SPACE braces bufp of
        None \<Rightarrow> Ret []
      | Some (cp, bufp) \<Rightarrow>
          obind (if hd cp = fst braces then extpar cp braces else Ret (Some cp)) (\<lambda>arg.
            case arg of None \<Rightarrow> Panic ''syntax error'' | Some a \<Rightarrow> obind (get_args bufp) (\<lambda>args. Ret (a # args))))"
  by pat_completeness auto
termination by (relation "measure length") (auto dest: mystrtokq_shorter)

declare get_args.simps [simp del]

definition first_args :: "ent_env \<Rightarrow> string \<Rightarrow> string \<Rightarrow> string \<Rightarrow> int \<Rightarrow> bool \<Rightarrow> bool \<Rightarrow> xport \<Rightarrow> string list" where
  "first_args env name transport command max_proc unprivileged chroot xp =
     [command] @ (if max_proc = 1 then [''-l''] else []) @ (if max_proc = 0 then [''-z''] else [])
     @ (if basename command \<noteq> name then [''-n'', name] else []) @ [''-t'', transport]
     @ (if \<not> master_detach env then [''-d''] else []) @ (if msg_verbose env then [''-v''] else [])
     @ (if unprivileged then [''-u''] else []) @ (if chroot then [''-c''] else [])
     @ (if xp_flags xp AND MASTER_FLAG_LOCAL_ONLY = 0 \<and> max_proc > 1 then [''-o'', ''stress=''] else [])
     @ (if xp_count xp > 1 then [''-s'', sprintf_d (int (xp_count xp))] else [])"

text \<open>One logical line, after the name and the transport.\<close>

definition parse_ent :: "ent_env \<Rightarrow> string \<Rightarrow> string \<Rightarrow> cursor \<Rightarrow> service outcome" where
  "parse_ent env name transport bufp =
     obind (parse_xport env name transport) (\<lambda>xp.
     obind (get_bool_ent bufp ''y'') (\<lambda>(private, bufp).
     obind (service_name env name private xp) (\<lambda>sname.
     if xp_count xp = 0 then Panic ''no valid IP address found''
     else
     obind (get_bool_ent bufp ''y'') (\<lambda>(unprivileged, bufp).
     obind (get_bool_ent bufp (if var_compat_level env < 1 then ''y'' else ''n'')) (\<lambda>(chroot, bufp).
     obind (get_int_ent bufp ''0'' 0) (\<lambda>(wakeup_time, bufp).
     let condwake = (if wakeup_time > 0 \<and> last_of_word bufp = Some (CHR ''?'') then MASTER_FLAG_CONDWAKE else 0) in
     obind (get_int_ent bufp (sprintf_d (var_proc_limit env)) 0) (\<lambda>(max_proc, bufp).
     obind (get_str_ent bufp None) (\<lambda>(command, bufp).
     obind (get_args (snd bufp)) (\<lambda>args.
       Ret \<lparr>sv_flags = xp_flags xp OR condwake, sv_ext_name = name, sv_name = sname, sv_type = xp_type xp, sv_busy_warn_time = 0,
            sv_wakeup_time = wakeup_time, sv_listen_fd = replicate (xp_count xp) (-1), sv_max_proc = max_proc,
            sv_path = var_daemon_dir env @ ''/'' @ command,
            sv_args = first_args env name transport command max_proc unprivileged chroot xp @ args,
            sv_stress = (xp_flags xp AND MASTER_FLAG_LOCAL_ONLY = 0 \<and> max_proc > 1), sv_stress_expire_time = 0,
            sv_avail_proc = 0, sv_total_proc = 0, sv_throttle_delay = var_throttle_time env, sv_status_fd = None\<rparr>)))))))))"

text \<open>The next entry that is not disabled, and the rest of the file.\<close>

function get_master_ent :: "ent_env \<Rightarrow> string list \<Rightarrow> string \<Rightarrow> (service \<times> string) option outcome" where
  "get_master_ent env disable fp =
     (case readllines fp of
        None \<Rightarrow> Ret None
      | Some (buf, rest) \<Rightarrow>
          (case mystrtok CHARS_SPACE ([], takeWhile (\<lambda>c. c \<noteq> CHR 0x00) buf) of
             (None, _) \<Rightarrow> get_master_ent env disable rest
           | (Some name, bufp) \<Rightarrow>
               obind (get_str_ent bufp None) (\<lambda>(transport, bufp).
               obind (match_service_match disable (name @ ''/'' @ transport)) (\<lambda>match.
                 if match then get_master_ent env disable rest
                 else obind (parse_ent env name transport bufp) (\<lambda>serv. Ret (Some (serv, rest)))))))"
  by pat_completeness auto
termination by (relation "measure (\<lambda>(env, disable, fp). length fp)") (auto dest: readllines_shorter)

declare get_master_ent.simps [simp del]

lemma get_master_ent_parsed:
  "get_master_ent env disable fp = Ret (Some (serv, rest)) \<Longrightarrow>
     length rest < length fp \<and> (\<exists>name transport bufp. parse_ent env name transport bufp = Ret serv)"
proof (induction "length fp" arbitrary: fp serv rest rule: less_induct)
  case less
  show ?case
  proof (cases "readllines fp")
    case None
    then show ?thesis using less.prems by (subst (asm) get_master_ent.simps) simp
  next
    case (Some p)
    obtain buf r where p: "p = (buf, r)" by (cases p) auto
    note len = readllines_shorter [OF Some [unfolded p]]
    have "get_master_ent env disable r = Ret (Some (serv, rest)) \<or> rest = r \<and> (\<exists>name transport bufp. parse_ent env name transport bufp = Ret serv)"
      using less.prems by (subst (asm) get_master_ent.simps) (auto simp: Some p split: option.splits if_splits prod.splits)
    then show ?thesis using less.hyps [OF len] len by fastforce
  qed
qed

text \<open>All entries of the file, as the loop in \<^verbatim>\<open>master_config()\<close> gets them.\<close>

function read_entries :: "ent_env \<Rightarrow> string list \<Rightarrow> string \<Rightarrow> service list outcome" where
  "read_entries env disable fp =
     (case get_master_ent env disable fp of
        Ret None \<Rightarrow> Ret []
      | Ret (Some (serv, rest)) \<Rightarrow> obind (read_entries env disable rest) (\<lambda>servs. Ret (serv # servs))
      | Panic e \<Rightarrow> Panic e
      | Diverge \<Rightarrow> Diverge)"
  by pat_completeness auto
termination by (relation "measure (\<lambda>(env, disable, fp). length fp)") (auto dest: get_master_ent_parsed)

declare read_entries.simps [simp del]

section \<open>What is read\<close>

lemma xport_type:
  "parse_xport env name transport = Ret xp \<Longrightarrow> known_type (xp_type xp)
     \<and> (\<forall>fl \<in> {MASTER_FLAG_THROTTLE, MASTER_FLAG_MARK, MASTER_FLAG_LISTEN}. xp_flags xp AND fl = 0)"
  by (auto simp: parse_xport_def inet_xport_def known_type_def Let_def master_flag_defs MASTER_FLAG_INETHOST_def MASTER_FLAG_LOCAL_ONLY_def
    split: if_splits sum.splits prod.splits)

lemma get_int_ent_bounds: "get_int_ent bufp def_val min_val = Ret (n, bufp') \<Longrightarrow> min_val \<le> n \<and> fits_int n"
  using sint_ge [where 'a = 32] sint_lt [where 'a = 32]
  by (auto simp: get_int_ent_def atoi_def to_int_def fits_int_def INT_MIN_def INT_MAX_def split: if_splits) (smt (verit, best))+

lemma parse_ent_new:
  assumes "parse_ent env name transport bufp = Ret serv"
  shows "new_serv serv \<and> sv_listen_fd serv \<noteq> [] \<and> 0 \<le> sv_wakeup_time serv \<and> fits_int (sv_wakeup_time serv) \<and> fits_int (sv_max_proc serv)"
proof -
  obtain xp n1 c1 c2 n2 c3 c4 where xp: "parse_xport env name transport = Ret xp" "0 < xp_count xp"
    and int: "get_int_ent c1 ''0'' 0 = Ret (n1, c2)" "get_int_ent c3 (sprintf_d (var_proc_limit env)) 0 = Ret (n2, c4)"
    and serv: "sv_type serv = xp_type xp" "sv_listen_fd serv = replicate (xp_count xp) (-1)" "sv_wakeup_time serv = n1" "sv_max_proc serv = n2"
      "sv_total_proc serv = 0" "sv_avail_proc serv = 0" "sv_status_fd serv = None"
      "sv_flags serv = xp_flags xp \<or> sv_flags serv = xp_flags xp OR MASTER_FLAG_CONDWAKE"
    using assms by (auto simp: parse_ent_def Let_def split: prod.splits if_splits)
  have "sv_flags serv AND fl = 0" if "fl \<in> {MASTER_FLAG_THROTTLE, MASTER_FLAG_MARK, MASTER_FLAG_LISTEN}" for fl
    using xport_type [OF xp(1)] serv(8) that by (auto simp: bit.conj_disj_distrib2)
  then show ?thesis
    using xport_type [OF xp(1)] serv xp(2) get_int_ent_bounds [OF int(1)] get_int_ent_bounds [OF int(2)] by (auto simp: new_serv_def)
qed

lemma read_entries_new:
  "read_entries env disable fp = Ret servs \<Longrightarrow> list_all new_serv servs"
proof (induction env disable fp arbitrary: servs rule: read_entries.induct)
  case (1 env disable fp)
  show ?case
  proof (cases "get_master_ent env disable fp")
    case (Ret e)
    show ?thesis
    proof (cases e)
      case None
      then show ?thesis using 1(2) Ret by (subst (asm) read_entries.simps) simp
    next
      case (Some p)
      obtain serv rest where p: "p = (serv, rest)" by (cases p) auto
      obtain servs' where s: "read_entries env disable rest = Ret servs'" "servs = serv # servs'"
        using 1(2) Ret Some p by (subst (asm) read_entries.simps) auto
      have "new_serv serv" using get_master_ent_parsed [of env disable fp serv rest] parse_ent_new Ret Some p by blast
      then show ?thesis using s 1(1) [OF Ret Some p [symmetric]] by simp
    qed
  qed (use 1(2) in \<open>subst (asm) read_entries.simps, simp\<close>)+
qed

section \<open>Reading back a line\<close>

text \<open>Words without blanks, and lines of them.\<close>

definition word_ok :: "string \<Rightarrow> bool" where
  "word_ok w \<longleftrightarrow> w \<noteq> [] \<and> w \<noteq> ''-'' \<and> list_all (\<lambda>c. \<not> isspace c \<and> c \<noteq> CHR 0x00) w"

fun unwords :: "string list \<Rightarrow> string" where
  "unwords [] = []"
| "unwords [w] = w"
| "unwords (w # ws) = w @ CHR '' '' # unwords ws"

lemma space_chars: "c \<in> set CHARS_SPACE \<Longrightarrow> isspace c"
  by (auto simp: CHARS_SPACE_def isspace_def)

lemma word_chars:
  assumes "word_ok w" and "c \<in> set w"
  shows "c \<notin> set CHARS_SPACE" "c \<noteq> CHR 0x00" "c \<noteq> CHR 0x0A" "\<not> isspace c"
proof -
  have c: "\<not> isspace c" "c \<noteq> CHR 0x00" using assms by (auto simp: word_ok_def list_all_iff)
  moreover have "isspace (CHR 0x0A)" by (simp add: isspace_def)
  ultimately show "c \<notin> set CHARS_SPACE" "c \<noteq> CHR 0x00" "c \<noteq> CHR 0x0A" "\<not> isspace c" using space_chars [of c] by auto
qed

lemma blank_in_space: "CHR '' '' \<in> set CHARS_SPACE"
  by (simp add: CHARS_SPACE_def)

lemma mystrtok_unwords:
  assumes "word_ok w"
  shows "mystrtok CHARS_SPACE (b, unwords (w # ws)) = (Some w, (if ws = [] then rev w @ b else CHR 0x00 # rev w @ b, unwords ws))"
proof -
  obtain c cs where w: "w = c # cs" "c \<notin> set CHARS_SPACE" using assms word_chars [OF assms] by (cases w) (auto simp: word_ok_def)
  have all: "\<And>c. c \<in> set w \<Longrightarrow> c \<notin> set CHARS_SPACE" using word_chars(1) [OF assms] .
  show ?thesis
  proof (cases ws)
    case Nil
    have "takeWhile (\<lambda>c. c \<notin> set CHARS_SPACE) w = w" "dropWhile (\<lambda>c. c \<notin> set CHARS_SPACE) w = []"
      using all by (auto simp: takeWhile_eq_all_conv)
    then show ?thesis using w Nil by (simp add: mystrtok_def Let_def)
  next
    case (Cons v vs)
    let ?r = "CHR '' '' # unwords ws"
    have "takeWhile (\<lambda>c. c \<notin> set CHARS_SPACE) (w @ ?r) = w" "dropWhile (\<lambda>c. c \<notin> set CHARS_SPACE) (w @ ?r) = ?r"
      using all blank_in_space by (simp_all add: takeWhile_append dropWhile_append)
    then show ?thesis using w Cons by (simp add: mystrtok_def Let_def)
  qed
qed

lemma get_str_word: "word_ok w \<Longrightarrow> get_str_ent (b, unwords (w # ws)) d = Ret (w, (if ws = [] then rev w @ b else CHR 0x00 # rev w @ b, unwords ws))"
  by (simp add: get_str_ent_def mystrtok_unwords word_ok_def)

definition bool_word :: "bool \<Rightarrow> string" where
  "bool_word b = (if b then ''y'' else ''n'')"

lemma bool_word_ok: "word_ok (bool_word b)"
  by (simp add: word_ok_def bool_word_def isspace_def)

lemma get_bool_word: "get_bool_ent (b, unwords (bool_word x # ws)) d = Ret (x, (if ws = [] then rev (bool_word x) @ b else CHR 0x00 # rev (bool_word x) @ b, unwords ws))"
  unfolding get_bool_ent_def get_str_word [OF bool_word_ok] by (simp add: bool_word_def)

lemma digit_not_space: "isdigit c \<Longrightarrow> \<not> isspace c \<and> c \<noteq> CHR 0x00 \<and> c \<noteq> CHR ''-''"
proof -
  assume "isdigit c"
  moreover have "\<not> isdigit (CHR 0x00)" by (simp add: isdigit_def)
  ultimately show ?thesis using not_space_digit [of c] by auto
qed

lemma int_word:
  assumes "0 \<le> n" and "fits_int n" and "q \<in> {[], ''?''}"
  shows "word_ok (sprintf_d n @ q)" "isdigit (hd (sprintf_d n @ q))" "atoi (sprintf_d n @ q) = n" "isdigit (last (sprintf_d n))"
proof -
  have d: "sprintf_d n \<noteq> []" "\<forall>c \<in> set (sprintf_d n). isdigit c" using nat_digits_props [of "nat n"] assms(1) by (auto simp: sprintf_d_def)
  show hd: "isdigit (hd (sprintf_d n @ q))" using d by (cases "sprintf_d n") auto
  show "isdigit (last (sprintf_d n))" using d last_in_set by blast
  have "\<not> isspace (CHR ''?'')" by (simp add: isspace_def)
  then show "word_ok (sprintf_d n @ q)"
    using d hd assms(3) digit_not_space by (cases "sprintf_d n") (auto simp: word_ok_def list_all_iff)
  have "q = [] \<or> \<not> isdigit (hd q)" using assms(3) by (auto simp: isdigit_def)
  from strtol_sprintf_d [OF assms(2) this] show "atoi (sprintf_d n @ q) = n" using to_int_eq_iff [of n] assms(2) by (simp add: atoi_def)
qed

lemma get_int_word:
  assumes "0 \<le> n" and "fits_int n" and "q \<in> {[], ''?''}"
  shows "get_int_ent (b, unwords ((sprintf_d n @ q) # ws)) d 0
    = Ret (n, (if ws = [] then rev (sprintf_d n @ q) @ b else CHR 0x00 # rev (sprintf_d n @ q) @ b, unwords ws))"
  unfolding get_int_ent_def get_str_word [OF int_word(1) [OF assms]] using int_word [OF assms] assms(1)
  by (auto simp: word_ok_def simp del: hd_append)

definition arg_ok :: "string \<Rightarrow> bool" where
  "arg_ok w \<longleftrightarrow> w \<noteq> [] \<and> list_all (\<lambda>c. \<not> isspace c \<and> c \<noteq> CHR 0x00 \<and> c \<noteq> CHR ''{'') w"

lemma tokq_word:
  assumes "list_all (\<lambda>c. \<not> isspace c \<and> c \<noteq> CHR ''{'') w"
  shows "tokq_scan CHARS_SPACE braces 0 w = (w, [])" "tokq_scan CHARS_SPACE braces 0 (w @ CHR '' '' # r) = (w, r)"
  using assms by (induction w) (auto simp: braces_def blank_in_space dest: space_chars)

lemma mystrtokq_unwords:
  assumes "arg_ok a"
  shows "mystrtokq CHARS_SPACE braces (unwords (a # as)) = Some (a, unwords as)"
proof -
  obtain c cs where a: "a = c # cs" "\<not> isspace c" using assms by (cases a) (auto simp: arg_ok_def)
  then have "c \<notin> set CHARS_SPACE" using space_chars by blast
  moreover have "list_all (\<lambda>c. \<not> isspace c \<and> c \<noteq> CHR ''{'') a" using assms by (auto simp: arg_ok_def list_all_iff)
  ultimately show ?thesis using a tokq_word [of a] by (cases as) (simp_all add: mystrtokq_def Let_def)
qed

lemma get_args_unwords: "list_all arg_ok as \<Longrightarrow> get_args (unwords as) = Ret as"
proof (induction as)
  case Nil
  show ?case by (subst get_args.simps) (simp add: mystrtokq_def)
next
  case (Cons a as)
  then have "hd a \<noteq> fst braces" by (cases a) (auto simp: arg_ok_def braces_def)
  then show ?case using Cons by (subst get_args.simps) (simp add: mystrtokq_unwords)
qed

lemma get_line_text: "CHR 0x0A \<notin> set l \<Longrightarrow> get_line (l @ CHR 0x0A # rest) = (l, False, rest)"
  by (induction l) auto

lemma readllines_text:
  assumes "l \<noteq> []" and "\<not> isspace (hd l)" and "hd l \<noteq> CHR ''#''" and "CHR 0x0A \<notin> set l"
    and "rest = [] \<or> hd rest \<noteq> CHR ''#'' \<and> \<not> isspace (hd rest)"
  shows "readllines (l @ CHR 0x0A # rest) = Some (l, rest)"
proof -
  have "dropWhile isspace l = l" using assms(1,2) by (cases l) auto
  then have "add_line [] l = l" using assms(1,3) by (simp add: add_line_def)
  then have "readll_loop [] (l @ CHR 0x0A # rest) = (l, rest)"
    using assms(1,5) by (subst readll_loop.simps) (simp add: get_line_text [OF assms(4)])
  then show ?thesis using assms(1,2) by (subst readllines.simps) simp
qed

text \<open>An entry for a service on the machine itself, as it is written in \<^verbatim>\<open>master.cf\<close>, and the service that it stands for.\<close>

record conf_line =
  cl_name :: string
  cl_type :: int
  cl_private :: bool
  cl_unprivileged :: bool
  cl_chroot :: bool
  cl_wakeup :: int
  cl_condwake :: bool
  cl_limit :: int
  cl_command :: string
  cl_args :: "string list"

definition xport_word :: "int \<Rightarrow> string" where
  "xport_word ty = (if ty = MASTER_SERV_TYPE_UNIX then MASTER_XPORT_NAME_UNIX else if ty = MASTER_SERV_TYPE_FIFO then MASTER_XPORT_NAME_FIFO
     else if ty = MASTER_SERV_TYPE_PASS then MASTER_XPORT_NAME_PASS else MASTER_XPORT_NAME_UXDG)"

definition line_words :: "conf_line \<Rightarrow> string list" where
  "line_words cl = [cl_name cl, xport_word (cl_type cl), bool_word (cl_private cl), bool_word (cl_unprivileged cl), bool_word (cl_chroot cl),
     sprintf_d (cl_wakeup cl) @ (if cl_condwake cl then ''?'' else []), sprintf_d (cl_limit cl) @ [], cl_command cl] @ cl_args cl"

definition line_text :: "conf_line \<Rightarrow> string" where
  "line_text cl = unwords (line_words cl) @ [CHR 0x0A]"

definition line_ok :: "conf_line \<Rightarrow> bool" where
  "line_ok cl \<longleftrightarrow> word_ok (cl_name cl) \<and> hd (cl_name cl) \<noteq> CHR ''#'' \<and> word_ok (cl_command cl) \<and> list_all arg_ok (cl_args cl)
     \<and> cl_type cl \<in> {MASTER_SERV_TYPE_UNIX, MASTER_SERV_TYPE_FIFO, MASTER_SERV_TYPE_PASS, MASTER_SERV_TYPE_UXDG}
     \<and> 0 \<le> cl_wakeup cl \<and> fits_int (cl_wakeup cl) \<and> 0 \<le> cl_limit cl \<and> fits_int (cl_limit cl)"

definition line_service :: "ent_env \<Rightarrow> conf_line \<Rightarrow> service" where
  "line_service env cl =
     (let flags = (if cl_type cl = MASTER_SERV_TYPE_PASS then 0 else MASTER_FLAG_LOCAL_ONLY);
          xp = \<lparr>xp_type = cl_type cl, xp_flags = flags, xp_count = 1, xp_host = None, xp_port = []\<rparr>
      in \<lparr>sv_flags = flags OR (if 0 < cl_wakeup cl \<and> cl_condwake cl then MASTER_FLAG_CONDWAKE else 0),
          sv_ext_name = cl_name cl, sv_name = (if cl_private cl then ''private/'' else ''public/'') @ cl_name cl, sv_type = cl_type cl,
          sv_busy_warn_time = 0, sv_wakeup_time = cl_wakeup cl, sv_listen_fd = [-1], sv_max_proc = cl_limit cl,
          sv_path = var_daemon_dir env @ ''/'' @ cl_command cl,
          sv_args = first_args env (cl_name cl) (xport_word (cl_type cl)) (cl_command cl) (cl_limit cl) (cl_unprivileged cl) (cl_chroot cl) xp @ cl_args cl,
          sv_stress = (cl_type cl = MASTER_SERV_TYPE_PASS \<and> 1 < cl_limit cl), sv_stress_expire_time = 0,
          sv_avail_proc = 0, sv_total_proc = 0, sv_throttle_delay = var_throttle_time env, sv_status_fd = None\<rparr>)"

lemma xport_word_ok: "word_ok (xport_word ty)"
  by (simp add: xport_word_def xport_defs word_ok_def isspace_def)

lemma parse_xport_word:
  assumes "ty \<in> {MASTER_SERV_TYPE_UNIX, MASTER_SERV_TYPE_FIFO, MASTER_SERV_TYPE_PASS, MASTER_SERV_TYPE_UXDG}"
  shows "parse_xport env name (xport_word ty) = Ret \<lparr>xp_type = ty, xp_flags = (if ty = MASTER_SERV_TYPE_PASS then 0 else MASTER_FLAG_LOCAL_ONLY),
    xp_count = 1, xp_host = None, xp_port = []\<rparr>"
  using assms by (auto simp: parse_xport_def xport_word_def xport_defs master_type_defs Let_def)

lemma last_of_word_rev: "w \<noteq> [] \<Longrightarrow> v \<noteq> [] \<Longrightarrow> last_of_word (CHR 0x00 # rev w @ b, v) = Some (last w)"
  by (cases w rule: rev_cases) (simp_all add: last_of_word_def)

lemma condwake_mark:
  assumes "0 \<le> n" and "fits_int n" and "v \<noteq> []"
  shows "last_of_word (CHR 0x00 # rev (sprintf_d n @ (if c then ''?'' else [])) @ b, v) = Some (CHR ''?'') \<longleftrightarrow> c"
proof -
  have d: "isdigit (last (sprintf_d n))" "sprintf_d n \<noteq> []"
    using int_word(4) [OF assms(1,2), of "[]"] nat_digits_props [of "nat n"] assms(1) by (auto simp: sprintf_d_def)
  have "\<not> isdigit (CHR ''?'')" by (simp add: isdigit_def)
  then have "last (sprintf_d n @ (if c then ''?'' else [])) = CHR ''?'' \<longleftrightarrow> c" using d by auto
  then show ?thesis using last_of_word_rev [OF _ assms(3), of "sprintf_d n @ (if c then ''?'' else [])" b] d(2) by simp
qed

lemma unwords_nonempty: "word_ok w \<Longrightarrow> unwords (w # ws) \<noteq> []"
  by (cases ws) (auto simp: word_ok_def)

lemma parse_line:
  assumes ok: "line_ok cl"
  shows "parse_ent env (cl_name cl) (xport_word (cl_type cl)) (b, unwords (drop 2 (line_words cl))) = Ret (line_service env cl)"
proof -
  have fld: "word_ok (cl_command cl)" "list_all arg_ok (cl_args cl)" "0 \<le> cl_wakeup cl" "fits_int (cl_wakeup cl)" "0 \<le> cl_limit cl" "fits_int (cl_limit cl)"
    and ty: "cl_type cl \<in> {MASTER_SERV_TYPE_UNIX, MASTER_SERV_TYPE_FIFO, MASTER_SERV_TYPE_PASS, MASTER_SERV_TYPE_UXDG}"
    using ok by (auto simp: line_ok_def)
  note wake = get_int_word [OF fld(3,4), of "if cl_condwake cl then ''?'' else []"]
  note limit = get_int_word [OF fld(5,6), of "[]"]
  have mark: "last_of_word (CHR 0x00 # rev (sprintf_d (cl_wakeup cl) @ (if cl_condwake cl then ''?'' else [])) @ b, unwords ((sprintf_d (cl_limit cl) @ []) # ws))
      = Some (CHR ''?'') \<longleftrightarrow> cl_condwake cl" for b ws
    using condwake_mark [OF fld(3,4)] unwords_nonempty [OF int_word(1) [OF fld(5,6), of "[]"]] by blast
  have inet: "cl_type cl \<noteq> MASTER_SERV_TYPE_INET" using ty by (auto simp: master_type_defs)
  have local: "(if cl_type cl = MASTER_SERV_TYPE_PASS then 0 else MASTER_FLAG_LOCAL_ONLY) AND MASTER_FLAG_LOCAL_ONLY = 0 \<longleftrightarrow> cl_type cl = MASTER_SERV_TYPE_PASS"
    by (simp add: MASTER_FLAG_LOCAL_ONLY_def)
  show ?thesis
    unfolding parse_ent_def line_words_def line_service_def
    by (simp add: parse_xport_word [OF ty] get_bool_word service_name_def inet mail_pathname_def wake limit mark get_str_word [OF fld(1)] get_args_unwords [OF fld(2)]
        local Let_def del: unwords.simps append_Nil2 rev_append)
qed

lemma unwords_chars: "c \<in> set (unwords ws) \<Longrightarrow> c = CHR '' '' \<or> (\<exists>w \<in> set ws. c \<in> set w)"
  by (induction ws rule: unwords.induct) auto

lemma line_chars:
  assumes ok: "line_ok cl" and c: "c \<in> set (unwords (line_words cl))"
  shows "c \<noteq> CHR 0x0A" "c \<noteq> CHR 0x00"
proof -
  have nl: "isspace (CHR 0x0A)" by (simp add: isspace_def)
  have "w \<in> set (line_words cl) \<Longrightarrow> word_ok w \<or> arg_ok w" for w
    using ok xport_word_ok bool_word_ok int_word(1) [of "cl_wakeup cl" "if cl_condwake cl then ''?'' else []"] int_word(1) [of "cl_limit cl" "[]"]
    by (auto simp: line_ok_def line_words_def list_all_iff)
  then have "c = CHR '' '' \<or> \<not> isspace c \<and> c \<noteq> CHR 0x00" using unwords_chars [OF c] by (auto simp: word_ok_def arg_ok_def list_all_iff)
  then show "c \<noteq> CHR 0x0A" "c \<noteq> CHR 0x00" using nl by auto
qed

lemma unwords_start: "word_ok w \<Longrightarrow> hd (unwords (w # ws)) = hd w"
  by (cases ws) (auto simp: word_ok_def)

lemma line_start:
  assumes "line_ok cl"
  shows "unwords (line_words cl) \<noteq> []" "hd (unwords (line_words cl)) \<noteq> CHR ''#''" "\<not> isspace (hd (unwords (line_words cl)))"
proof -
  have w: "word_ok (cl_name cl)" "hd (cl_name cl) \<noteq> CHR ''#''" using assms by (auto simp: line_ok_def)
  then have "\<not> isspace (hd (cl_name cl))" by (cases "cl_name cl") (auto simp: word_ok_def)
  then show "unwords (line_words cl) \<noteq> []" "hd (unwords (line_words cl)) \<noteq> CHR ''#''" "\<not> isspace (hd (unwords (line_words cl)))"
    using w unwords_nonempty [OF w(1)] unwords_start [OF w(1)] by (auto simp: line_words_def simp del: unwords.simps)
qed

lemma get_master_ent_line:
  assumes ok: "line_ok cl" and rest: "rest = [] \<or> hd rest \<noteq> CHR ''#'' \<and> \<not> isspace (hd rest)"
  shows "get_master_ent env [] (line_text cl @ rest) = Ret (Some (line_service env cl, rest))"
proof -
  let ?l = "unwords (line_words cl)"
  have "readllines (line_text cl @ rest) = Some (?l, rest)"
    using readllines_text [OF line_start(1,3,2) [OF ok] _ rest] line_chars(1) [OF ok] by (auto simp: line_text_def)
  moreover have "takeWhile (\<lambda>c. c \<noteq> CHR 0x00) ?l = ?l" using line_chars(2) [OF ok] by (auto simp: takeWhile_eq_all_conv)
  moreover have "mystrtok CHARS_SPACE ([], ?l) = (Some (cl_name cl), (CHR 0x00 # rev (cl_name cl), unwords (xport_word (cl_type cl) # drop 2 (line_words cl))))"
  proof -
    have "line_words cl = cl_name cl # xport_word (cl_type cl) # drop 2 (line_words cl)" by (simp add: line_words_def)
    moreover have "word_ok (cl_name cl)" using ok by (simp add: line_ok_def)
    ultimately show ?thesis using mystrtok_unwords [of "cl_name cl" "[]" "xport_word (cl_type cl) # drop 2 (line_words cl)"] by simp
  qed
  ultimately have "get_master_ent env [] (line_text cl @ rest) = obind (get_str_ent (CHR 0x00 # rev (cl_name cl), unwords (xport_word (cl_type cl) # drop 2 (line_words cl))) None) (\<lambda>(transport, bufp).
      obind (match_service_match [] (cl_name cl @ ''/'' @ transport)) (\<lambda>match.
        if match then get_master_ent env [] rest else obind (parse_ent env (cl_name cl) transport bufp) (\<lambda>serv. Ret (Some (serv, rest)))))"
    by (subst get_master_ent.simps) (simp only: option.case prod.case)
  then show ?thesis by (simp add: get_str_word [OF xport_word_ok] match_service_match_def parse_line [OF ok] del: unwords.simps)
qed

text \<open>
  C15: What is written in \<^verbatim>\<open>master.cf\<close> is what is configured: a file of entries for services of the machine, with any names, options,
  wakeup times, process limits, commands and arguments, is read as exactly the services that the
  entries stand for, in this order; the question mark after a wakeup time that makes it conditional is seen too.
\<close>

theorem master_cf_roundtrip:
  assumes "list_all line_ok cls"
  shows "read_entries env [] (concat (map line_text cls)) = Ret (map (line_service env) cls)"
  using assms
proof (induction cls)
  case Nil
  have "readllines [] = None" by (subst readllines.simps, subst readll_loop.simps) (simp add: add_line_def)
  then show ?case by (subst read_entries.simps, subst get_master_ent.simps) simp
next
  case (Cons cl cls)
  let ?rest = "concat (map line_text cls)"
  have "?rest = [] \<or> hd ?rest \<noteq> CHR ''#'' \<and> \<not> isspace (hd ?rest)"
    using Cons.prems line_start by (cases cls) (auto simp: line_text_def)
  then have "get_master_ent env [] (line_text cl @ ?rest) = Ret (Some (line_service env cl, ?rest))"
    using Cons.prems by (intro get_master_ent_line) simp_all
  then show ?case using Cons by (subst read_entries.simps) simp
qed


text \<open>Numbers are converted without a check for overflow: a process limit that is too large can stand for no limit at all.\<close>

lemma atoi_wraps: "atoi ''4294967296'' = 0"
  by (simp add: atoi_def strtol_def ctype_defs digits_val_def digit_val_def clamp_long_def LONG_MAX_def LONG_MIN_def to_int_def)

section \<open>A configuration file\<close>

definition demo_ent_env :: ent_env where
  "demo_ent_env = \<lparr>var_proc_limit = 100, var_daemon_dir = ''/usr/libexec/postfix'', var_throttle_time = 60, var_compat_level = 2,
     master_detach = True, msg_verbose = False, inet_addrs = (\<lambda>_. [False]), hostaddr_to_sockaddr = (\<lambda>host port. map_option (\<lambda>h. (h, port)) host),
     valid_host = (\<lambda>_. True), valid_ipv6 = (\<lambda>_. True)\<rparr>"

definition demo_pickup_line :: conf_line where
  "demo_pickup_line = \<lparr>cl_name = ''pickup'', cl_type = MASTER_SERV_TYPE_UNIX, cl_private = False, cl_unprivileged = True, cl_chroot = False, cl_wakeup = 60,
     cl_condwake = False, cl_limit = 1, cl_command = ''pickup'', cl_args = []\<rparr>"

definition demo_flush_line :: conf_line where
  "demo_flush_line = \<lparr>cl_name = ''flush'', cl_type = MASTER_SERV_TYPE_UNIX, cl_private = False, cl_unprivileged = True, cl_chroot = False, cl_wakeup = 1000,
     cl_condwake = True, cl_limit = 0, cl_command = ''flush'', cl_args = [''-v'']\<rparr>"

lemma demo_text: "concat (map line_text [demo_pickup_line, demo_flush_line])
    = ''pickup unix n y n 60 1 pickup'' @ [CHR 0x0A] @ ''flush unix n y n 1000? 0 flush -v'' @ [CHR 0x0A]"
  by code_simp

lemma demo_lines_ok: "list_all line_ok [demo_pickup_line, demo_flush_line]"
  by code_simp

theorem master_cf_roundtrip_witness:
  "read_entries demo_ent_env [] (concat (map line_text [demo_pickup_line, demo_flush_line]))
     = Ret (map (line_service demo_ent_env) [demo_pickup_line, demo_flush_line])"
  by (rule master_cf_roundtrip [OF demo_lines_ok])

definition demo_entries :: "conf_entry list" where
  "demo_entries = [\<lparr>ce_serv = line_service demo_ent_env demo_pickup_line, ce_fds = [6], ce_pipe = (7, 8)\<rparr>,
     \<lparr>ce_serv = line_service demo_ent_env demo_flush_line, ce_fds = [9], ce_pipe = (10, 11)\<rparr>]"

lemma demo_entries_fresh: "refresh_fresh False demo_entries [] demo_init"
proof -
  have "entries_fresh demo_entries (mark_services demo_init)" by code_simp
  moreover have "case master_config demo_entries (mark_services demo_init) of
      Ret m \<Rightarrow> list_all (\<lambda>s. \<not> MASTER_MARKED_FOR_DELETION (services m s)) (master_head m) | _ \<Rightarrow> True" by code_simp
  ultimately show ?thesis by (auto simp: refresh_fresh_def deletes_none split: outcome.splits)
qed

lemma demo_entries_read: "read_entries demo_ent_env [] (concat (map line_text [demo_pickup_line, demo_flush_line])) = Ret (map ce_serv demo_entries)"
proof -
  have "get_master_ent demo_ent_env [] (line_text demo_pickup_line @ line_text demo_flush_line)
      = Ret (Some (line_service demo_ent_env demo_pickup_line, line_text demo_flush_line))"
    using demo_lines_ok line_start [of demo_flush_line] by (intro get_master_ent_line) (simp_all add: line_text_def)
  moreover have "get_master_ent demo_ent_env [] (line_text demo_flush_line) = Ret (Some (line_service demo_ent_env demo_flush_line, []))"
    using get_master_ent_line [of demo_flush_line "[]" demo_ent_env] demo_lines_ok by simp
  moreover have "read_entries demo_ent_env [] [] = Ret []"
    by (subst read_entries.simps, subst get_master_ent.simps, subst readllines.simps, subst readll_loop.simps) (simp add: add_line_def)
  ultimately show ?thesis by (simp add: demo_entries_def) (subst read_entries.simps, simp, subst read_entries.simps, simp)
qed


end
