(* ===== verification/Codec.thy ===== *)
theory Codec
  imports Postfix_Prelude "HOL-Library.Word"
begin

text \<open>
  Encodings of binary data as text: \<^verbatim>\<open>src/src/util/hex_code.c\<close>,
  \<^verbatim>\<open>base64_code.c\<close>, \<^verbatim>\<open>base32_code.c\<close> and \<^verbatim>\<open>hex_quote.c\<close>, and the
  xtext encoding of \<^verbatim>\<open>src/src/global/xtext.c\<close>. Data are lists of 8-bit words; a C string
  is a list without a null byte. The contract between an encoder and its decoder is a locale.
\<close>

unbundle bit_operations_syntax

type_synonym byte = "8 word"

abbreviation ascii :: "char \<Rightarrow> byte" where "ascii c \<equiv> of_char c"

section \<open>The contract of an encoding\<close>

locale codec =
  fixes enc :: "'a \<Rightarrow> 'b" and dec :: "'b \<Rightarrow> 'a option" and ok :: "'a \<Rightarrow> bool"
  assumes dec_enc: "ok x \<Longrightarrow> dec (enc x) = Some x"
begin

lemma enc_inject: "ok x \<Longrightarrow> ok y \<Longrightarrow> enc x = enc y \<longleftrightarrow> x = y"
  by (metis dec_enc option.inject)

lemma enc_inj_on: "inj_on enc {x. ok x}"
  using enc_inject by (auto simp: inj_on_def)

end

section \<open>Bits of bytes\<close>

lemma high_bit [simp]: "8 \<le> n \<Longrightarrow> \<not> bit (b :: byte) n"
  using bit_imp_le_length [of b n] by auto

lemma byte_eqI:
  assumes "bit a 0 = bit b 0" "bit a 1 = bit b 1" "bit a 2 = bit b 2" "bit a 3 = bit b 3"
    "bit a 4 = bit b 4" "bit a 5 = bit b 5" "bit a 6 = bit b 6" "bit a 7 = bit b 7"
  shows "a = (b :: byte)"
proof (rule bit_word_eqI)
  fix n
  assume "n < LENGTH(8)"
  then have "n = 0 \<or> n = 1 \<or> n = 2 \<or> n = 3 \<or> n = 4 \<or> n = 5 \<or> n = 6 \<or> n = 7"
    unfolding len_num1 len_bit0 by arith
  then show "bit a n = bit b n" using assms by (elim disjE) simp_all
qed

lemma byte_masks:
  "x AND 1 = take_bit 1 x" "x AND 3 = take_bit 2 x" "x AND 7 = take_bit 3 x" "x AND 15 = take_bit 4 x"
  "x AND 31 = take_bit 5 x" "x AND 63 = take_bit 6 x" "x AND 127 = take_bit 7 x" for x :: byte
  by (simp_all add: take_bit_eq_mask mask_eq_exp_minus_1)

lemma bit_push_byte: "bit (push_bit k x) n \<longleftrightarrow> k \<le> n \<and> n < 8 \<and> bit x (n - k)" for x :: byte
  by (auto simp: bit_push_bit_iff)

lemma unat_bound: "take_bit n x = x \<Longrightarrow> unat (x :: byte) < 2 ^ n"
  by (metis take_bit_nat_less_exp unsigned_take_bit_eq)

lemmas byte_bits = bit_or_iff bit_and_iff bit_push_byte bit_drop_bit_eq bit_take_bit_iff o_apply bit_0_eq bot_apply

section \<open>Hexadecimal code\<close>

definition hex_chars :: "byte list" where
  "hex_chars = map of_char ''0123456789ABCDEF''"

definition hex_encode :: "byte list \<Rightarrow> byte list" where
  "hex_encode input = concat (map (\<lambda>ch. [hex_chars ! unat (drop_bit 4 ch AND 0xf), hex_chars ! unat (ch AND 0xf)]) input)"

text \<open>The value of a hexadecimal digit, in upper or lower case.\<close>

definition hex_digit :: "byte \<Rightarrow> byte option" where
  "hex_digit hex =
     (if hex \<ge> ascii CHR ''0'' \<and> hex \<le> ascii CHR ''9'' then Some (hex - ascii CHR ''0'')
      else if hex \<ge> ascii CHR ''A'' \<and> hex \<le> ascii CHR ''F'' then Some (hex - ascii CHR ''A'' + 10)
      else if hex \<ge> ascii CHR ''a'' \<and> hex \<le> ascii CHR ''f'' then Some (hex - ascii CHR ''a'' + 10)
      else None)"

text \<open>Two digits make a byte.\<close>

definition hex_pair :: "byte \<Rightarrow> byte \<Rightarrow> byte option" where
  "hex_pair c0 c1 =
     (case hex_digit c0 of None \<Rightarrow> None
      | Some hi \<Rightarrow> (case hex_digit c1 of None \<Rightarrow> None | Some lo \<Rightarrow> Some (push_bit 4 hi OR lo)))"

fun hex_decode :: "byte list \<Rightarrow> byte list option" where
  "hex_decode [] = Some []"
| "hex_decode [c0] = None"
| "hex_decode (c0 # c1 # cp) =
     (case hex_pair c0 c1 of None \<Rightarrow> None
      | Some bin \<Rightarrow> (case hex_decode cp of None \<Rightarrow> None | Some result \<Rightarrow> Some (bin # result)))"

lemma hex_digit_table: "list_all (\<lambda>n. hex_digit (hex_chars ! n) = Some (of_nat n)) [0..<16]"
  by code_simp

lemma hex_digit_chars: "n < 16 \<Longrightarrow> hex_digit (hex_chars ! n) = Some (of_nat n)"
  using hex_digit_table by (simp add: list_all_iff)

lemma nibble_bound: "unat (x AND 15 :: byte) < 16"
proof -
  have "take_bit 4 (x AND 15) = x AND 15" unfolding byte_masks by (rule byte_eqI; simp only: byte_bits; simp)
  from unat_bound [OF this] show ?thesis by simp
qed

lemma hex_pair_chars:
  "hex_pair (hex_chars ! unat (drop_bit 4 ch AND 15)) (hex_chars ! unat (ch AND 15)) = Some ch"
proof -
  have "push_bit 4 (drop_bit 4 ch AND 15) OR (ch AND 15) = ch" unfolding byte_masks by (rule byte_eqI; simp only: byte_bits; simp)
  then show ?thesis by (simp add: hex_pair_def hex_digit_chars nibble_bound)
qed

lemma hex_decode_encode: "hex_decode (hex_encode x) = Some x"
  by (induction x) (simp_all add: hex_encode_def hex_pair_chars)

interpretation hex: codec hex_encode hex_decode "\<lambda>_. True"
  by unfold_locales (rule hex_decode_encode)

section \<open>Escape codes\<close>

text \<open>
  \<^verbatim>\<open>hex_quote()\<close> and \<^verbatim>\<open>xtext_quote()\<close> replace the bytes that are not \<open>plain\<close>
  by an escape character and two upper-case hexadecimal digits (\<^verbatim>\<open>%02X\<close>).
\<close>

definition sprintf_02X :: "byte \<Rightarrow> byte list" where
  "sprintf_02X ch = [hex_chars ! unat (drop_bit 4 ch AND 0xf), hex_chars ! unat (ch AND 0xf)]"

definition quote_bytes :: "byte \<Rightarrow> (byte \<Rightarrow> bool) \<Rightarrow> byte list \<Rightarrow> byte list" where
  "quote_bytes esc plain raw = concat (map (\<lambda>ch. if plain ch then [ch] else esc # sprintf_02X ch) raw)"

text \<open>The decoder reads at most up to the terminating null byte: two more bytes must follow.\<close>

fun unquote_bytes :: "byte \<Rightarrow> byte list \<Rightarrow> byte list option" where
  "unquote_bytes esc [] = Some []"
| "unquote_bytes esc (ch # cp) =
     (if ch = esc then
        (case cp of
           c1 # c2 # cp' \<Rightarrow>
             (case hex_pair c1 c2 of None \<Rightarrow> None
              | Some b \<Rightarrow> (case unquote_bytes esc cp' of None \<Rightarrow> None | Some raw \<Rightarrow> Some (b # raw)))
         | _ \<Rightarrow> None)
      else (case unquote_bytes esc cp of None \<Rightarrow> None | Some raw \<Rightarrow> Some (ch # raw)))"

lemma map_option_append_Nil [simp]: "map_option ((@) []) x = x"
  by (cases x) simp_all

lemma hex_chars_mem: "n < 16 \<Longrightarrow> hex_chars ! n \<in> set hex_chars"
  by (rule nth_mem) (simp add: hex_chars_def)

locale escape_code =
  fixes esc :: byte and plain :: "byte \<Rightarrow> bool"
  assumes esc_not_plain: "\<not> plain esc"
begin

lemma unquote_quote_append: "unquote_bytes esc (quote_bytes esc plain raw @ rest)
    = map_option (\<lambda>r. raw @ r) (unquote_bytes esc rest)"
  using esc_not_plain
  by (induction raw)
    (auto simp: quote_bytes_def sprintf_02X_def hex_pair_chars option.map_comp comp_def split: option.splits)

lemma unquote_quote: "unquote_bytes esc (quote_bytes esc plain raw) = Some raw"
  using unquote_quote_append [of raw "[]"] by simp

lemma quote_chars:
  "c \<in> set (quote_bytes esc plain raw) \<Longrightarrow> plain c \<or> c = esc \<or> c \<in> set hex_chars"
  by (auto simp: quote_bytes_def sprintf_02X_def nibble_bound hex_chars_mem split: if_splits)

end

text \<open>\<^verbatim>\<open>hex_quote.c\<close>.\<close>

definition ISSPACE :: "byte \<Rightarrow> bool" where
  "ISSPACE ch \<longleftrightarrow> ch = 32 \<or> (9 \<le> ch \<and> ch \<le> 13)"

definition ISPRINT :: "byte \<Rightarrow> bool" where
  "ISPRINT ch \<longleftrightarrow> 32 \<le> ch \<and> ch \<le> 126"

definition hex_plain :: "byte \<Rightarrow> bool" where
  "hex_plain ch \<longleftrightarrow> ch \<noteq> ascii CHR ''%'' \<and> \<not> ISSPACE ch \<and> ISPRINT ch"

definition hex_quote :: "byte list \<Rightarrow> byte list" where
  "hex_quote raw = quote_bytes (ascii CHR ''%'') hex_plain raw"

definition hex_unquote :: "byte list \<Rightarrow> byte list option" where
  "hex_unquote hex = unquote_bytes (ascii CHR ''%'') hex"

interpretation hexq: escape_code "ascii CHR ''%''" hex_plain
  by unfold_locales (simp add: hex_plain_def)

text \<open>\<^verbatim>\<open>xtext.c\<close>; the \<open>special\<close> characters are quoted in addition to the mandatory ones.\<close>

definition xtext_plain :: "byte list \<Rightarrow> byte \<Rightarrow> bool" where
  "xtext_plain special ch \<longleftrightarrow> ch \<noteq> ascii CHR ''+'' \<and> ch > 32 \<and> ch < 127 \<and> ch \<notin> set special"

definition xtext_quote_append :: "byte list \<Rightarrow> byte list \<Rightarrow> byte list \<Rightarrow> byte list" where
  "xtext_quote_append quoted unquoted special = quoted @ quote_bytes (ascii CHR ''+'') (xtext_plain special) unquoted"

definition xtext_quote :: "byte list \<Rightarrow> byte list \<Rightarrow> byte list" where
  "xtext_quote unquoted special = xtext_quote_append [] unquoted special"

definition xtext_unquote_append :: "byte list \<Rightarrow> byte list \<Rightarrow> byte list option" where
  "xtext_unquote_append unquoted quoted = map_option (\<lambda>r. unquoted @ r) (unquote_bytes (ascii CHR ''+'') quoted)"

definition xtext_unquote :: "byte list \<Rightarrow> byte list option" where
  "xtext_unquote quoted = xtext_unquote_append [] quoted"

interpretation xtext: escape_code "ascii CHR ''+''" "xtext_plain special" for special
  by unfold_locales (simp add: xtext_plain_def)

section \<open>Base 64\<close>

definition to_b64 :: "byte list" where
  "to_b64 = map of_char ''ABCDEFGHIJKLMNOPQRSTUVWXYZabcdefghijklmnopqrstuvwxyz0123456789+/''"

definition INVALID :: byte where "INVALID = 0xff"

text \<open>The decoding table: the position of a character in the encoding table.\<close>

definition un_table :: "byte list \<Rightarrow> byte \<Rightarrow> byte" where
  "un_table table c = (case map_of (zip table [0..<length table]) c of None \<Rightarrow> INVALID | Some i \<Rightarrow> of_nat i)"

definition un_b64 :: "byte \<Rightarrow> byte" where
  "un_b64 = un_table to_b64"

fun b64_encode_loop :: "byte list \<Rightarrow> byte list" where
  "b64_encode_loop [] = []"
| "b64_encode_loop [c0] =
     [to_b64 ! unat (drop_bit 2 c0), to_b64 ! unat (push_bit 4 (c0 AND 0x3)), ascii CHR ''='', ascii CHR ''='']"
| "b64_encode_loop [c0, c1] =
     [to_b64 ! unat (drop_bit 2 c0), to_b64 ! unat (push_bit 4 (c0 AND 0x3) OR drop_bit 4 c1),
      to_b64 ! unat (push_bit 2 (c1 AND 0xf)), ascii CHR ''='']"
| "b64_encode_loop (c0 # c1 # c2 # cp) =
     to_b64 ! unat (drop_bit 2 c0) # to_b64 ! unat (push_bit 4 (c0 AND 0x3) OR drop_bit 4 c1)
       # to_b64 ! unat (push_bit 2 (c1 AND 0xf) OR drop_bit 6 c2) # to_b64 ! unat (c2 AND 0x3f) # b64_encode_loop cp"

text \<open>With \<^verbatim>\<open>BASE64_FLAG_APPEND\<close> the text is added to what is in the result buffer.\<close>

definition base64_encode_opt :: "bool \<Rightarrow> byte list \<Rightarrow> byte list \<Rightarrow> byte list" where
  "base64_encode_opt flag_append result input = (if flag_append then result else []) @ b64_encode_loop input"

definition base64_encode :: "byte list \<Rightarrow> byte list" where
  "base64_encode input = base64_encode_opt False [] input"

text \<open>The loop stops at a padding character, and does not look at what comes after it.\<close>

fun b64_decode_loop :: "byte list \<Rightarrow> byte list option" where
  "b64_decode_loop (c0 # c1 # c2 # c3 # cp) =
     (let ch0 = un_b64 c0; ch1 = un_b64 c1
      in if ch0 = INVALID \<or> ch1 = INVALID then None
         else map_option (\<lambda>r. (push_bit 2 ch0 OR drop_bit 4 ch1) # r)
           (if c2 = ascii CHR ''='' then Some []
            else let ch2 = un_b64 c2
                 in if ch2 = INVALID then None
                    else map_option (\<lambda>r. (push_bit 4 ch1 OR drop_bit 2 ch2) # r)
                      (if c3 = ascii CHR ''='' then Some []
                       else let ch3 = un_b64 c3
                            in if ch3 = INVALID then None
                               else map_option (\<lambda>r. (push_bit 6 ch2 OR ch3) # r) (b64_decode_loop cp))))"
| "b64_decode_loop _ = Some []"

definition base64_decode_opt :: "bool \<Rightarrow> byte list \<Rightarrow> byte list \<Rightarrow> byte list option" where
  "base64_decode_opt flag_append result input =
     (if length input mod 4 \<noteq> 0 then None
      else map_option (\<lambda>r. (if flag_append then result else []) @ r) (b64_decode_loop input))"

definition base64_decode :: "byte list \<Rightarrow> byte list option" where
  "base64_decode input = base64_decode_opt False [] input"

lemma un_table_nth:
  "distinct table \<Longrightarrow> n < length table \<Longrightarrow> un_table table (table ! n) = of_nat n"
  by (simp add: un_table_def map_of_zip_nth)

lemma to_b64_props: "length to_b64 = 64" "distinct to_b64" "ascii CHR ''='' \<notin> set to_b64"
  by (simp_all add: to_b64_def)

lemma un_b64_char:
  assumes "take_bit 6 x = x"
  shows "un_b64 (to_b64 ! unat x) = x" "to_b64 ! unat x \<noteq> ascii CHR ''=''" "x \<noteq> INVALID"
proof -
  have n: "unat x < length to_b64" using unat_bound [OF assms] by (simp add: to_b64_props)
  then show "un_b64 (to_b64 ! unat x) = x" by (simp add: un_b64_def un_table_nth to_b64_props)
  show "to_b64 ! unat x \<noteq> ascii CHR ''=''" using nth_mem [OF n] to_b64_props(3) by metis
  show "x \<noteq> INVALID" using n by (auto simp: INVALID_def to_b64_props)
qed

lemma b64_six_bits:
  "take_bit 6 (drop_bit 2 a) = drop_bit 2 a"
  "take_bit 6 (push_bit 4 (a AND 3)) = push_bit 4 (a AND 3)"
  "take_bit 6 (push_bit 4 (a AND 3) OR drop_bit 4 b) = push_bit 4 (a AND 3) OR drop_bit 4 b"
  "take_bit 6 (push_bit 2 (b AND 15)) = push_bit 2 (b AND 15)"
  "take_bit 6 (push_bit 2 (b AND 15) OR drop_bit 6 c) = push_bit 2 (b AND 15) OR drop_bit 6 c"
  "take_bit 6 (c AND 63) = c AND 63" for a b c :: byte
  unfolding byte_masks by (rule byte_eqI; simp only: byte_bits; simp add: numeral_eq_Suc)+

lemma b64_join:
  "push_bit 2 (drop_bit 2 a) OR drop_bit 4 (push_bit 4 (a AND 3)) = a"
  "push_bit 2 (drop_bit 2 a) OR drop_bit 4 (push_bit 4 (a AND 3) OR drop_bit 4 b) = a"
  "push_bit 4 (push_bit 4 (a AND 3) OR drop_bit 4 b) OR drop_bit 2 (push_bit 2 (b AND 15)) = b"
  "push_bit 4 (push_bit 4 (a AND 3) OR drop_bit 4 b) OR drop_bit 2 (push_bit 2 (b AND 15) OR drop_bit 6 c) = b"
  "push_bit 6 (push_bit 2 (b AND 15) OR drop_bit 6 c) OR (c AND 63) = c" for a b c :: byte
  unfolding byte_masks by (rule byte_eqI; simp only: byte_bits; simp add: numeral_eq_Suc)+

lemma b64_decode_encode_loop: "b64_decode_loop (b64_encode_loop x) = Some x"
  by (induction x rule: b64_encode_loop.induct)
    (simp_all only: b64_encode_loop.simps b64_decode_loop.simps un_b64_char [OF b64_six_bits(1)] un_b64_char [OF b64_six_bits(2)]
      un_b64_char [OF b64_six_bits(3)] un_b64_char [OF b64_six_bits(4)] un_b64_char [OF b64_six_bits(5)]
      un_b64_char [OF b64_six_bits(6)] b64_join Let_def, simp_all)

lemma b64_encode_length: "length (b64_encode_loop x) = 4 * ((length x + 2) div 3)"
  by (induction x rule: b64_encode_loop.induct) (simp_all, presburger)

lemma base64_decode_encode: "base64_decode (base64_encode x) = Some x"
  by (simp add: base64_decode_def base64_encode_def base64_decode_opt_def base64_encode_opt_def
      b64_encode_length b64_decode_encode_loop)

interpretation base64: codec base64_encode base64_decode "\<lambda>_. True"
  by unfold_locales (rule base64_decode_encode)

section \<open>Base 32\<close>

definition to_b32 :: "byte list" where
  "to_b32 = map of_char ''ABCDEFGHIJKLMNOPQRSTUVWXYZ234567''"

definition un_b32 :: "byte \<Rightarrow> byte" where
  "un_b32 = un_table to_b32"

definition pads :: "nat \<Rightarrow> byte list" where
  "pads n = replicate n (ascii CHR ''='')"

abbreviation b32 :: "byte \<Rightarrow> byte" where "b32 x \<equiv> to_b32 ! unat x"

fun b32_encode_loop :: "byte list \<Rightarrow> byte list" where
  "b32_encode_loop [] = []"
| "b32_encode_loop [c0] = [b32 (drop_bit 3 c0), b32 (push_bit 2 (c0 AND 0x7))] @ pads 6"
| "b32_encode_loop [c0, c1] =
     [b32 (drop_bit 3 c0), b32 (push_bit 2 (c0 AND 0x7) OR drop_bit 6 c1), b32 (drop_bit 1 (c1 AND 0x3f)),
      b32 (push_bit 4 (c1 AND 0x1))] @ pads 4"
| "b32_encode_loop [c0, c1, c2] =
     [b32 (drop_bit 3 c0), b32 (push_bit 2 (c0 AND 0x7) OR drop_bit 6 c1), b32 (drop_bit 1 (c1 AND 0x3f)),
      b32 (push_bit 4 (c1 AND 0x1) OR drop_bit 4 c2), b32 (push_bit 1 (c2 AND 0xf))] @ pads 3"
| "b32_encode_loop [c0, c1, c2, c3] =
     [b32 (drop_bit 3 c0), b32 (push_bit 2 (c0 AND 0x7) OR drop_bit 6 c1), b32 (drop_bit 1 (c1 AND 0x3f)),
      b32 (push_bit 4 (c1 AND 0x1) OR drop_bit 4 c2), b32 (push_bit 1 (c2 AND 0xf) OR drop_bit 7 c3),
      b32 (drop_bit 2 (c3 AND 0x7f)), b32 (push_bit 3 (c3 AND 0x3))] @ pads 1"
| "b32_encode_loop (c0 # c1 # c2 # c3 # c4 # cp) =
     [b32 (drop_bit 3 c0), b32 (push_bit 2 (c0 AND 0x7) OR drop_bit 6 c1), b32 (drop_bit 1 (c1 AND 0x3f)),
      b32 (push_bit 4 (c1 AND 0x1) OR drop_bit 4 c2), b32 (push_bit 1 (c2 AND 0xf) OR drop_bit 7 c3),
      b32 (drop_bit 2 (c3 AND 0x7f)), b32 (push_bit 3 (c3 AND 0x3) OR drop_bit 5 c4), b32 (c4 AND 0x1f)]
     @ b32_encode_loop cp"

definition base32_encode :: "byte list \<Rightarrow> byte list" where
  "base32_encode input = b32_encode_loop input"

text \<open>\<^verbatim>\<open>strcmp()\<close> with a text of padding characters; the input is followed by a null byte.\<close>

definition only_pads :: "byte list \<Rightarrow> nat \<Rightarrow> bool" where
  "only_pads cp n \<longleftrightarrow> takeWhile (\<lambda>c. c \<noteq> 0) cp = pads n"

text \<open>One block of eight characters: the bytes it stands for, and whether it was the last one.\<close>

definition b32_block :: "byte \<Rightarrow> byte \<Rightarrow> byte \<Rightarrow> byte \<Rightarrow> byte \<Rightarrow> byte \<Rightarrow> byte \<Rightarrow> byte \<Rightarrow> byte list
    \<Rightarrow> (byte list \<times> bool) option" where
  "b32_block c0 c1 c2 c3 c4 c5 c6 c7 cp =
     (let ch0 = un_b32 c0; ch1 = un_b32 c1; ch2 = un_b32 c2; ch3 = un_b32 c3;
          ch4 = un_b32 c4; ch5 = un_b32 c5; ch6 = un_b32 c6; ch7 = un_b32 c7;
          o0 = push_bit 3 ch0 OR drop_bit 2 ch1;
          o1 = push_bit 6 ch1 OR push_bit 1 ch2 OR drop_bit 4 ch3;
          o2 = push_bit 4 ch3 OR drop_bit 1 ch4;
          o3 = push_bit 7 ch4 OR push_bit 2 ch5 OR drop_bit 3 ch6
      in if ch0 = INVALID \<or> ch1 = INVALID then None
         else if c2 = ascii CHR ''='' \<and> only_pads (c3 # c4 # c5 # c6 # c7 # cp) 5 \<and> ch1 AND 0x3 = 0
         then Some ([o0], True)
         else if ch2 = INVALID \<or> ch3 = INVALID then None
         else if c4 = ascii CHR ''='' \<and> only_pads (c5 # c6 # c7 # cp) 3 \<and> ch3 AND 0xf = 0
         then Some ([o0, o1], True)
         else if ch4 = INVALID then None
         else if c5 = ascii CHR ''='' \<and> only_pads (c6 # c7 # cp) 2 \<and> ch4 AND 0x1 = 0
         then Some ([o0, o1, o2], True)
         else if ch5 = INVALID \<or> ch6 = INVALID then None
         else if c7 = ascii CHR ''='' \<and> ch6 AND 0x7 = 0
         then Some ([o0, o1, o2, o3], True)
         else if ch7 = INVALID then None
         else Some ([o0, o1, o2, o3, push_bit 5 ch6 OR ch7], False))"

fun b32_decode_loop :: "byte list \<Rightarrow> byte list option" where
  "b32_decode_loop input =
     (case input of
        c0 # c1 # c2 # c3 # c4 # c5 # c6 # c7 # cp \<Rightarrow>
          (case b32_block c0 c1 c2 c3 c4 c5 c6 c7 cp of
             None \<Rightarrow> None
           | Some (out, final) \<Rightarrow> if final then Some out else map_option ((@) out) (b32_decode_loop cp))
      | _ \<Rightarrow> Some [])"

declare b32_decode_loop.simps [simp del]

lemma b32_decode_loop_block:
  "b32_decode_loop (c0 # c1 # c2 # c3 # c4 # c5 # c6 # c7 # cp) =
     (case b32_block c0 c1 c2 c3 c4 c5 c6 c7 cp of
        None \<Rightarrow> None
      | Some (out, final) \<Rightarrow> if final then Some out else map_option ((@) out) (b32_decode_loop cp))"
  by (subst b32_decode_loop.simps) simp

lemma b32_decode_loop_Nil: "b32_decode_loop [] = Some []"
  by (subst b32_decode_loop.simps) simp

definition base32_decode :: "byte list \<Rightarrow> byte list option" where
  "base32_decode input = (if length input mod 8 \<noteq> 0 then None else b32_decode_loop input)"

lemma to_b32_props: "length to_b32 = 32" "distinct to_b32" "ascii CHR ''='' \<notin> set to_b32"
  by (simp_all add: to_b32_def)

lemma un_b32_char:
  assumes "take_bit 5 x = x"
  shows "un_b32 (b32 x) = x" "b32 x \<noteq> ascii CHR ''=''" "x \<noteq> INVALID"
proof -
  have n: "unat x < length to_b32" using unat_bound [OF assms] by (simp add: to_b32_props)
  then show "un_b32 (b32 x) = x" by (simp add: un_b32_def un_table_nth to_b32_props)
  show "b32 x \<noteq> ascii CHR ''=''" using nth_mem [OF n] to_b32_props(3) by metis
  show "x \<noteq> INVALID" using n by (auto simp: INVALID_def to_b32_props)
qed

lemma b32_five_bits:
  "take_bit 5 (drop_bit 3 a) = drop_bit 3 a"
  "take_bit 5 (push_bit 2 (a AND 7)) = push_bit 2 (a AND 7)"
  "take_bit 5 (push_bit 2 (a AND 7) OR drop_bit 6 b) = push_bit 2 (a AND 7) OR drop_bit 6 b"
  "take_bit 5 (drop_bit 1 (b AND 63)) = drop_bit 1 (b AND 63)"
  "take_bit 5 (push_bit 4 (b AND 1)) = push_bit 4 (b AND 1)"
  "take_bit 5 (push_bit 4 (b AND 1) OR drop_bit 4 c) = push_bit 4 (b AND 1) OR drop_bit 4 c"
  "take_bit 5 (push_bit 1 (c AND 15)) = push_bit 1 (c AND 15)"
  "take_bit 5 (push_bit 1 (c AND 15) OR drop_bit 7 d) = push_bit 1 (c AND 15) OR drop_bit 7 d"
  "take_bit 5 (drop_bit 2 (d AND 127)) = drop_bit 2 (d AND 127)"
  "take_bit 5 (push_bit 3 (d AND 3)) = push_bit 3 (d AND 3)"
  "take_bit 5 (push_bit 3 (d AND 3) OR drop_bit 5 e) = push_bit 3 (d AND 3) OR drop_bit 5 e"
  "take_bit 5 (e AND 31) = e AND 31" for a b c d e :: byte
  unfolding byte_masks by (rule byte_eqI; simp only: byte_bits; simp add: numeral_eq_Suc)+

lemma b32_join:
  "push_bit 3 (drop_bit 3 a) OR drop_bit 2 (push_bit 2 (a AND 7)) = a"
  "push_bit 3 (drop_bit 3 a) OR drop_bit 2 (push_bit 2 (a AND 7) OR drop_bit 6 b) = a"
  "push_bit 6 (push_bit 2 (a AND 7) OR drop_bit 6 b) OR push_bit 1 (drop_bit 1 (b AND 63)) OR drop_bit 4 (push_bit 4 (b AND 1)) = b"
  "push_bit 6 (push_bit 2 (a AND 7) OR drop_bit 6 b) OR push_bit 1 (drop_bit 1 (b AND 63)) OR drop_bit 4 (push_bit 4 (b AND 1) OR drop_bit 4 c) = b"
  "push_bit 4 (push_bit 4 (b AND 1) OR drop_bit 4 c) OR drop_bit 1 (push_bit 1 (c AND 15)) = c"
  "push_bit 4 (push_bit 4 (b AND 1) OR drop_bit 4 c) OR drop_bit 1 (push_bit 1 (c AND 15) OR drop_bit 7 d) = c"
  "push_bit 7 (push_bit 1 (c AND 15) OR drop_bit 7 d) OR push_bit 2 (drop_bit 2 (d AND 127)) OR drop_bit 3 (push_bit 3 (d AND 3)) = d"
  "push_bit 7 (push_bit 1 (c AND 15) OR drop_bit 7 d) OR push_bit 2 (drop_bit 2 (d AND 127)) OR drop_bit 3 (push_bit 3 (d AND 3) OR drop_bit 5 e) = d"
  "push_bit 5 (push_bit 3 (d AND 3) OR drop_bit 5 e) OR (e AND 31) = e" for a b c d e :: byte
  unfolding byte_masks by (rule byte_eqI; simp only: byte_bits; simp add: numeral_eq_Suc)+

lemma b32_null_bits:
  "push_bit 2 (a AND 7) AND 3 = 0" "push_bit 4 (a AND 1) AND 15 = 0" "push_bit 1 (a AND 15) AND 1 = 0"
  "push_bit 3 (a AND 3) AND 7 = 0" for a :: byte
  unfolding byte_masks by (rule byte_eqI; simp only: byte_bits; simp add: numeral_eq_Suc)+

lemma only_pads_self [simp]: "only_pads (pads n) n"
  by (simp add: only_pads_def pads_def)

lemma pads_unfold: "pads 6 = ascii CHR ''='' # pads 5" "pads 4 = ascii CHR ''='' # pads 3"
  "pads 3 = ascii CHR ''='' # pads 2" "pads 1 = [ascii CHR ''='']"
  "pads 5 = [ascii CHR ''='', ascii CHR ''='', ascii CHR ''='', ascii CHR ''='', ascii CHR ''='']"
  "pads 2 = [ascii CHR ''='', ascii CHR ''='']"
  by (simp_all add: pads_def numeral_eq_Suc)

lemma only_pads_rest:
  "only_pads [ascii CHR ''='', ascii CHR ''='', ascii CHR ''='', ascii CHR ''='', ascii CHR ''=''] 5"
  "only_pads [ascii CHR ''='', ascii CHR ''='', ascii CHR ''=''] 3"
  "only_pads [ascii CHR ''='', ascii CHR ''=''] 2"
  by (simp_all add: only_pads_def pads_unfold)

lemmas un_b32_chars = un_b32_char [OF b32_five_bits(1)] un_b32_char [OF b32_five_bits(2)] un_b32_char [OF b32_five_bits(3)]
  un_b32_char [OF b32_five_bits(4)] un_b32_char [OF b32_five_bits(5)] un_b32_char [OF b32_five_bits(6)]
  un_b32_char [OF b32_five_bits(7)] un_b32_char [OF b32_five_bits(8)] un_b32_char [OF b32_five_bits(9)]
  un_b32_char [OF b32_five_bits(10)] un_b32_char [OF b32_five_bits(11)] un_b32_char [OF b32_five_bits(12)]

lemma b32_block_full:
  "b32_block (b32 (drop_bit 3 c0)) (b32 (push_bit 2 (c0 AND 7) OR drop_bit 6 c1)) (b32 (drop_bit 1 (c1 AND 63)))
     (b32 (push_bit 4 (c1 AND 1) OR drop_bit 4 c2)) (b32 (push_bit 1 (c2 AND 15) OR drop_bit 7 c3))
     (b32 (drop_bit 2 (c3 AND 127))) (b32 (push_bit 3 (c3 AND 3) OR drop_bit 5 c4)) (b32 (c4 AND 31)) cp
   = Some ([c0, c1, c2, c3, c4], False)"
  by (simp only: b32_block_def un_b32_chars b32_join Let_def, simp)

lemma b32_decode_encode_loop: "b32_decode_loop (b32_encode_loop x) = Some x"
proof (induction x rule: b32_encode_loop.induct)
  case (6 c0 c1 c2 c3 c4 cp)
  then show ?case by (simp only: b32_encode_loop.simps b32_decode_loop_block append_Cons append_Nil b32_block_full, simp)
qed (simp_all only: b32_encode_loop.simps b32_decode_loop_block b32_decode_loop_Nil append_Cons append_Nil pads_unfold
    b32_block_def un_b32_chars b32_join b32_null_bits only_pads_rest Let_def, simp_all)

lemma b32_encode_length: "length (b32_encode_loop x) mod 8 = 0"
  by (induction x rule: b32_encode_loop.induct) (simp_all add: pads_def)

lemma base32_decode_encode: "base32_decode (base32_encode x) = Some x"
  by (simp add: base32_decode_def base32_encode_def b32_encode_length b32_decode_encode_loop)

interpretation base32: codec base32_encode base32_decode "\<lambda>_. True"
  by unfold_locales (rule base32_decode_encode)

section \<open>Properties\<close>

lemma b64_encode_chars: "set (b64_encode_loop x) \<subseteq> insert (ascii CHR ''='') (set to_b64)"
proof (induction x rule: b64_encode_loop.induct)
  have m: "to_b64 ! unat y \<in> set to_b64" if "take_bit 6 y = y" for y :: byte
    using unat_bound [OF that] by (simp add: to_b64_props)
  note b = b64_six_bits [THEN m]
  { case 2 show ?case by (simp only: b64_encode_loop.simps list.set insert_subset insert_iff b simp_thms empty_subsetI)
  next case 3 show ?case by (simp only: b64_encode_loop.simps list.set insert_subset insert_iff b simp_thms empty_subsetI)
  next case 4 then show ?case by (simp only: b64_encode_loop.simps list.set insert_subset insert_iff b simp_thms) }
qed simp

text \<open>
  C27: Base 64 text decodes to the bytes it was made from; it has four characters for every three bytes begun,
  all of them from the base 64 alphabet or padding.
\<close>

theorem base64_roundtrip:
  "base64_decode (base64_encode x) = Some x
   \<and> length (base64_encode x) = 4 * ((length x + 2) div 3)
   \<and> set (base64_encode x) \<subseteq> insert (ascii CHR ''='') (set to_b64)"
  using base64_decode_encode [of x] b64_encode_chars [of x]
  by (simp add: base64_encode_def base64_encode_opt_def b64_encode_length)

text \<open>
  Base 32 text decodes to the bytes it was made from, and distinct data have distinct texts.
\<close>

theorem base32_roundtrip:
  "base32_decode (base32_encode x) = Some x \<and> inj base32_encode"
  using base32_decode_encode base32.enc_inj_on by simp

text \<open>
  Padding is not strictly enforced in base 32: after a block with one padding character any
  further blocks are ignored, although a longer padding must end the text.
\<close>

theorem base32_ignores_text_after_pad:
  "base32_decode (map of_char ''AAAAAAA=?!?!?!?!'') = Some [0, 0, 0, 0]
   \<and> base32_decode (map of_char ''AAAAA===?!?!?!?!'') = None"
  by (simp add: base32_decode_def b32_decode_loop_block b32_block_def un_b32_def un_table_def to_b32_def INVALID_def only_pads_def pads_unfold)

text \<open>
  Hexadecimal text decodes to the bytes it was made from, also when it comes quoted with \<open>%\<close>.
\<close>

theorem hex_roundtrip:
  "hex_decode (hex_encode x) = Some x \<and> hex_unquote (hex_quote x) = Some x"
  using hexq.unquote_quote [of x] by (simp add: hex_decode_encode hex_quote_def hex_unquote_def)

text \<open>
  C28: The xtext encoding of any bytes decodes to them, whatever further characters are to be quoted; it
  holds plain characters, the escape character and hexadecimal digits only.
\<close>

theorem xtext_roundtrip:
  "xtext_unquote (xtext_quote raw special) = Some raw
   \<and> set (xtext_quote raw special) \<subseteq> {c. xtext_plain special c} \<union> {ascii CHR ''+''} \<union> set hex_chars"
  using xtext.quote_chars [of _ special raw] xtext.unquote_quote [of special raw]
  by (auto simp: xtext_quote_def xtext_quote_append_def xtext_unquote_def xtext_unquote_append_def)

end
