(* ===== verification/Htable.thy ===== *)
theory Htable
  imports Postfix_Prelude "HOL-Library.Word" "HOL-Library.Multiset"
begin

text \<open>
  Hash tables with chaining and automatic growth (\<^verbatim>\<open>src/src/util/htable.c\<close>), and the duplicate
  filter \<^verbatim>\<open>src/src/global/been_here.c\<close> that is built on them. A table is an array of chains, from
  the newest element to the oldest; the doubly linked chains themselves are lists here. The contract is
  that of a finite map, stated as a locale and interpreted on the operations of \<^verbatim>\<open>htable.c\<close>;
  the other components use maps where the code uses hash tables.
\<close>

unbundle bit_operations_syntax

section \<open>The hash table\<close>

text \<open>An element: a key and a pointer to its value, which may be null.\<close>

record 'v htable_info =
  ht_key :: string
  ht_value :: "'v option"

text \<open>
  The sequence iterator is a private array of elements, ended by a null pointer, and the position of
  the next one to return.
\<close>

record 'v htable =
  ht_size :: nat
  ht_used :: nat
  ht_data :: "'v htable_info list list"
  ht_seq :: "('v htable_info list \<times> nat) option"

definition hash_step :: "64 word \<Rightarrow> char \<Rightarrow> 64 word" where
  "hash_step h c =
     (let h = push_bit 4 h + of_char c; g = h AND 0xf0000000
      in if g \<noteq> 0 then (h XOR drop_bit 24 g) XOR g else h)"

definition htable_hash :: "string \<Rightarrow> nat \<Rightarrow> nat" where
  "htable_hash s sz = unat (foldl hash_step 0 s) mod sz"

definition htable_link :: "'v htable_info \<Rightarrow> 'v htable \<Rightarrow> 'v htable" where
  "htable_link element table =
     (let h = htable_hash (ht_key element) (ht_size table)
      in table\<lparr>ht_data := (ht_data table)[h := element # ht_data table ! h], ht_used := ht_used table + 1\<rparr>)"

definition htable_size :: "nat \<Rightarrow> 'v htable \<Rightarrow> 'v htable" where
  "htable_size sz table =
     (let sz = sz OR 1 in table\<lparr>ht_data := replicate sz [], ht_size := sz, ht_used := 0\<rparr>)"

definition htable_create :: "int \<Rightarrow> 'v htable" where
  "htable_create sz =
     htable_size (nat (if sz < 13 then 13 else sz)) \<lparr>ht_size = 0, ht_used = 0, ht_data = [], ht_seq = None\<rparr>"

definition htable_grow :: "'v htable \<Rightarrow> 'v htable" where
  "htable_grow table = fold htable_link (concat (ht_data table)) (htable_size (2 * ht_size table) table)"

definition htable_enter :: "'v htable \<Rightarrow> string \<Rightarrow> 'v option \<Rightarrow> 'v htable_info \<times> 'v htable" where
  "htable_enter table key value =
     (let table = (if ht_used table \<ge> ht_size table then htable_grow table else table);
          ht = \<lparr>ht_key = key, ht_value = value\<rparr>
      in (ht, htable_link ht table))"

text \<open>The remaining operations accept a null pointer for the table.\<close>

definition htable_locate :: "'v htable option \<Rightarrow> string \<Rightarrow> 'v htable_info option" where
  "htable_locate table key =
     (case table of
        None \<Rightarrow> None
      | Some t \<Rightarrow> List.find (\<lambda>ht. key = ht_key ht) (ht_data t ! htable_hash key (ht_size t)))"

definition htable_find :: "'v htable option \<Rightarrow> string \<Rightarrow> 'v option" where
  "htable_find table key =
     (case table of
        None \<Rightarrow> None
      | Some t \<Rightarrow>
          (case List.find (\<lambda>ht. key = ht_key ht) (ht_data t ! htable_hash key (ht_size t)) of
             None \<Rightarrow> None
           | Some ht \<Rightarrow> ht_value ht))"

text \<open>The first result of deletion is what the optional destructor is called with.\<close>

definition htable_delete :: "'v htable option \<Rightarrow> string \<Rightarrow> ('v option \<times> 'v htable option) outcome" where
  "htable_delete table key =
     (case table of
        None \<Rightarrow> Ret (None, None)
      | Some t \<Rightarrow>
          let h = htable_hash key (ht_size t)
          in case List.extract (\<lambda>ht. key = ht_key ht) (ht_data t ! h) of
               None \<Rightarrow> Panic ''htable_delete''
             | Some (before, ht, behind) \<Rightarrow>
                 Ret (ht_value ht, Some (t\<lparr>ht_data := (ht_data t)[h := before @ behind], ht_used := ht_used t - 1\<rparr>)))"

text \<open>The values that the destructor is called with, in this order.\<close>

definition htable_free :: "'v htable option \<Rightarrow> 'v list" where
  "htable_free table =
     (case table of None \<Rightarrow> [] | Some t \<Rightarrow> List.map_filter ht_value (concat (ht_data t)))"

definition htable_walk :: "'v htable option \<Rightarrow> ('v htable_info \<Rightarrow> 's \<Rightarrow> 's) \<Rightarrow> 's \<Rightarrow> 's" where
  "htable_walk table act ptr =
     (case table of None \<Rightarrow> ptr | Some t \<Rightarrow> fold (\<lambda>chain. fold act chain) (ht_data t) ptr)"

definition htable_list :: "'v htable option \<Rightarrow> 'v htable_info list" where
  "htable_list table = (case table of None \<Rightarrow> [] | Some t \<Rightarrow> concat (ht_data t))"

datatype seq_how = HTABLE_SEQ_FIRST | HTABLE_SEQ_NEXT | HTABLE_SEQ_STOP

text \<open>Reading the array of elements, whose last member is null; beyond it there is no member.\<close>

definition seq_read :: "'v htable_info list \<Rightarrow> nat \<Rightarrow> 'v htable_info option outcome" where
  "seq_read xs n =
     (if n < length xs then Ret (Some (xs ! n))
      else if n = length xs then Ret None
      else Panic ''read beyond the array'')"

definition htable_sequence :: "'v htable \<Rightarrow> seq_how \<Rightarrow> ('v htable_info option \<times> 'v htable) outcome" where
  "htable_sequence table how =
     (let stop = Ret (None, table\<lparr>ht_seq := None\<rparr>)
      in case how of
           HTABLE_SEQ_FIRST \<Rightarrow>
             (let seq = htable_list (Some table)
              in obind (seq_read seq 0) (\<lambda>ht. Ret (ht, table\<lparr>ht_seq := Some (seq, 1)\<rparr>)))
         | HTABLE_SEQ_NEXT \<Rightarrow>
             (case ht_seq table of
                None \<Rightarrow> stop
              | Some (seq, n) \<Rightarrow>
                  obind (seq_read seq n) (\<lambda>ht.
                    case ht of None \<Rightarrow> stop | Some ht \<Rightarrow> Ret (Some ht, table\<lparr>ht_seq := Some (seq, n + 1)\<rparr>)))
         | HTABLE_SEQ_STOP \<Rightarrow> stop)"

section \<open>Representation invariant\<close>

definition chains_ok :: "'v htable \<Rightarrow> bool" where
  "chains_ok t \<longleftrightarrow> odd (ht_size t) \<and> length (ht_data t) = ht_size t \<and> ht_used t = length (concat (ht_data t))
     \<and> (\<forall>i < ht_size t. \<forall>e \<in> set (ht_data t ! i). htable_hash (ht_key e) (ht_size t) = i)"

definition htable_ok :: "'v htable \<Rightarrow> bool" where
  "htable_ok t \<longleftrightarrow> chains_ok t \<and> distinct (map ht_key (concat (ht_data t)))"

definition elements :: "'v htable \<Rightarrow> 'v htable_info multiset" where
  "elements t = mset (concat (ht_data t))"

lemma mset_concat_update:
  "i < length xss \<Longrightarrow> mset (concat (xss[i := ys])) + mset (xss ! i) = mset (concat xss) + mset ys"
proof (induction xss arbitrary: i)
  case (Cons xs xss)
  show ?case
  proof (cases i)
    case 0
    then show ?thesis by (simp add: ac_simps)
  next
    case (Suc n)
    then have "mset (concat (xss[n := ys])) + mset (xss ! n) = mset (concat xss) + mset ys"
      using Cons by simp
    then show ?thesis using Suc by (simp add: add.assoc)
  qed
qed simp

lemma hash_bound: "chains_ok t \<Longrightarrow> htable_hash k (ht_size t) < length (ht_data t)"
  by (auto simp: chains_ok_def htable_hash_def intro!: mod_less_divisor odd_pos)

lemma chains_length: "chains_ok t \<Longrightarrow> ht_used t = size (elements t)"
  by (simp add: chains_ok_def elements_def)

lemma link_elements: "chains_ok t \<Longrightarrow> elements (htable_link e t) = add_mset e (elements t)"
  using mset_concat_update [OF hash_bound, of t "ht_key e" "e # ht_data t ! htable_hash (ht_key e) (ht_size t)"]
  by (simp add: htable_link_def elements_def Let_def)

lemma link_chains: 
  assumes "chains_ok t"
  shows "chains_ok (htable_link e t)"
proof -
  have "length (concat (ht_data (htable_link e t))) = Suc (length (concat (ht_data t)))"
    using arg_cong [OF link_elements [OF assms], of size] by (simp only: elements_def size_mset size_add_mset)
  then show ?thesis
    using assms hash_bound [OF assms, of "ht_key e"]
    by (auto simp: chains_ok_def htable_link_def Let_def nth_list_update split: if_splits)
qed

lemma or_one_odd: "odd (n OR 1)" for n :: nat
  using even_or_iff [of n 1] by simp

lemma size_chains: "chains_ok (htable_size n t)" "elements (htable_size n t) = {#}"
  by (simp_all add: chains_ok_def htable_size_def elements_def Let_def or_one_odd [unfolded One_nat_def])

lemma fold_link:
  "chains_ok t \<Longrightarrow> chains_ok (fold htable_link es t) \<and> elements (fold htable_link es t) = mset es + elements t"
proof (induction es arbitrary: t)
  case (Cons e es)
  then show ?case by (simp add: link_chains link_elements)
qed simp

lemma grow_chains: "chains_ok (htable_grow t)" "elements (htable_grow t) = elements t"
  using fold_link [OF size_chains(1), of "concat (ht_data t)" "2 * ht_size t" t]
  unfolding htable_grow_def size_chains(2) elements_def [of t, symmetric] by simp_all

lemma enter_chains:
  "chains_ok t \<Longrightarrow> chains_ok (snd (htable_enter t k v))"
  "chains_ok t \<Longrightarrow> elements (snd (htable_enter t k v)) = add_mset \<lparr>ht_key = k, ht_value = v\<rparr> (elements t)"
  by (simp_all add: htable_enter_def Let_def link_chains link_elements grow_chains)

section \<open>Keys are unique\<close>

lemma distinct_count_le: "distinct xs \<longleftrightarrow> (\<forall>x. count (mset xs) x \<le> 1)"
  unfolding distinct_count_atmost_1 by (metis count_eq_zero_iff le_refl le_zero_eq less_one linorder_le_cases nat_less_le set_mset_mset zero_le)

lemma info_eta [simp]: "\<lparr>ht_key = ht_key z, ht_value = ht_value z\<rparr> = z"
  by (cases z) simp

lemma htable_ok_iff: "htable_ok t \<longleftrightarrow> chains_ok t \<and> (\<forall>k. count (image_mset ht_key (elements t)) k \<le> 1)"
  by (simp add: htable_ok_def elements_def distinct_count_le flip: mset_map)

lemma htable_ok_keys: 
  "htable_ok t \<Longrightarrow> e \<in># elements t \<Longrightarrow> e' \<in># elements t \<Longrightarrow> ht_key e = ht_key e' \<Longrightarrow> e = e'"
  by (auto simp: htable_ok_def elements_def distinct_map inj_on_def)

lemma in_chain_iff:
  assumes "chains_ok t"
  shows "e \<in># elements t \<longleftrightarrow> e \<in> set (ht_data t ! htable_hash (ht_key e) (ht_size t))"
proof
  assume "e \<in># elements t"
  then obtain xs where "xs \<in> set (ht_data t)" "e \<in> set xs" by (auto simp: elements_def)
  then show "e \<in> set (ht_data t ! htable_hash (ht_key e) (ht_size t))"
    using assms by (auto simp: chains_ok_def in_set_conv_nth [of xs])
next
  assume "e \<in> set (ht_data t ! htable_hash (ht_key e) (ht_size t))"
  then show "e \<in># elements t" using nth_mem [OF hash_bound [OF assms]] by (auto simp: elements_def)
qed

lemma locate_in_chain:
  assumes "htable_ok t" "htable_locate (Some t) k = Some e"
  shows "e \<in># elements t" "ht_key e = k"
proof -
  show k: "ht_key e = k" using assms by (auto simp: htable_locate_def find_Some_iff)
  have "e \<in> set (ht_data t ! htable_hash k (ht_size t))" using assms by (auto simp: htable_locate_def find_Some_iff)
  then show "e \<in># elements t" using assms k by (simp add: htable_ok_def in_chain_iff)
qed

lemma locate_Some:
  assumes "htable_ok t"
  shows "htable_locate (Some t) k = Some e \<longleftrightarrow> e \<in># elements t \<and> ht_key e = k"
proof
  assume e: "e \<in># elements t \<and> ht_key e = k"
  then have "e \<in> set (ht_data t ! htable_hash k (ht_size t))" using assms by (auto simp: htable_ok_def in_chain_iff)
  then obtain e' where "htable_locate (Some t) k = Some e'"
    using e by (cases "htable_locate (Some t) k") (auto simp: htable_locate_def find_None_iff)
  then show "htable_locate (Some t) k = Some e"
    using locate_in_chain [OF assms] htable_ok_keys [OF assms] e by metis
qed (use locate_in_chain [OF assms] in auto)

lemma locate_None:
  assumes "htable_ok t"
  shows "htable_locate (Some t) k = None \<longleftrightarrow> k \<notin># image_mset ht_key (elements t)"
  using locate_Some [OF assms, of k] by (cases "htable_locate (Some t) k") fastforce+

lemma create_ok: "htable_ok (htable_create n)" "elements (htable_create n) = {#}"
  unfolding htable_create_def htable_ok_iff size_chains(2) by (simp_all only: size_chains(1) simp_thms image_mset_empty count_empty zero_le)

lemma enter_ok:
  assumes "htable_ok t" "htable_locate (Some t) k = None"
  shows "htable_ok (snd (htable_enter t k v))"
  using assms locate_None [OF assms(1), of k]
  by (auto simp: htable_ok_iff enter_chains not_in_iff simp del: set_image_mset)

text \<open>The map that a table stands for.\<close>

definition ht_map :: "'v htable \<Rightarrow> string \<rightharpoonup> 'v option" where
  "ht_map t k = map_option ht_value (htable_locate (Some t) k)"

lemma ht_map_Some:
  "htable_ok t \<Longrightarrow> ht_map t k = Some v \<longleftrightarrow> \<lparr>ht_key = k, ht_value = v\<rparr> \<in># elements t"
  by (auto simp: ht_map_def locate_Some intro!: exI [of _ "\<lparr>ht_key = k, ht_value = v\<rparr>"])

lemma ht_map_eqI:
  assumes "\<And>k v. m k = Some v \<longleftrightarrow> m' k = Some v"
  shows "m = m'"
  using assms by (metis ext not_Some_eq)

lemma create_map: "ht_map (htable_create n) = Map.empty"
  by (rule ht_map_eqI) (simp add: ht_map_Some create_ok)

lemma enter_map:
  assumes "htable_ok t" "ht_map t k = None"
  shows "ht_map (snd (htable_enter t k v)) = (ht_map t)(k \<mapsto> v)"
proof (rule ht_map_eqI)
  fix k' v'
  have n: "htable_locate (Some t) k = None" using assms by (simp add: ht_map_def)
  have "\<lparr>ht_key = k, ht_value = v'\<rparr> \<notin># elements t" using assms ht_map_Some [OF assms(1), of k v'] by simp
  then show "(ht_map (snd (htable_enter t k v)) k' = Some v') = (((ht_map t)(k \<mapsto> v)) k' = Some v')"
    using assms enter_ok [OF assms(1) n] enter_chains(2) [of t]
    by (auto simp: ht_map_Some htable_ok_def)
qed

lemma extract_find:
  "List.extract P xs = Some (as, e, bs) \<Longrightarrow> List.find P xs = Some e \<and> xs = as @ e # bs"
  by (induction xs arbitrary: as) (auto simp: extract_Nil_code extract_Cons_code split: if_splits option.splits)

lemma delete_chains:
  assumes "chains_ok t" "htable_locate (Some t) k = Some e"
  obtains t' where "htable_delete (Some t) k = Ret (ht_value e, Some t')" "chains_ok t'"
    "elements t = add_mset e (elements t')" "ht_size t' = ht_size t"
proof -
  let ?h = "htable_hash k (ht_size t)"
  let ?P = "\<lambda>ht. k = ht_key ht"
  have "List.extract ?P (ht_data t ! ?h) \<noteq> None"
    using assms(2) by (auto simp: htable_locate_def extract_None_iff find_Some_iff)
  then obtain as e' bs where x: "List.extract ?P (ht_data t ! ?h) = Some (as, e', bs)" by (metis not_Some_eq prod_cases3)
  then have e: "ht_data t ! ?h = as @ e # bs" "e' = e"
    using extract_find [OF x] assms(2) by (auto simp: htable_locate_def)
  define t' where "t' = t\<lparr>ht_data := (ht_data t)[?h := as @ bs], ht_used := ht_used t - 1\<rparr>"
  have m: "elements t = add_mset e (elements t')"
    using mset_concat_update [OF hash_bound [OF assms(1)], of k "as @ bs"]
    by (simp add: e t'_def elements_def)
  have "chains_ok t'"
    using assms(1) hash_bound [OF assms(1), of k] m chains_length [OF assms(1)]
    by (auto simp: chains_ok_def t'_def nth_list_update e elements_def split: if_splits)
  moreover have "htable_delete (Some t) k = Ret (ht_value e, Some t')" "ht_size t' = ht_size t"
    using x e by (simp_all add: htable_delete_def t'_def Let_def)
  ultimately show thesis using that m by blast
qed

lemma delete_unknown:
  assumes "htable_locate (Some t) k = None"
  shows "htable_delete (Some t) k = Panic ''htable_delete''"
proof -
  have "List.extract (\<lambda>ht. k = ht_key ht) (ht_data t ! htable_hash k (ht_size t)) = None"
    using assms by (auto simp: htable_locate_def find_None_iff extract_None_iff)
  then show ?thesis by (simp add: htable_delete_def Let_def)
qed

lemma delete_map:
  assumes "htable_ok t" "ht_map t k \<noteq> None"
  obtains v t' where "htable_delete (Some t) k = Ret (v, Some t')" "htable_ok t'" "ht_map t' = (ht_map t)(k := None)"
    "ht_map t k = Some v" "ht_used t' < ht_used t" "ht_size t' = ht_size t"
proof -
  obtain e where e: "htable_locate (Some t) k = Some e" using assms by (auto simp: ht_map_def)
  have c: "chains_ok t" using assms by (simp add: htable_ok_def)
  obtain t' where t': "htable_delete (Some t) k = Ret (ht_value e, Some t')" "chains_ok t'"
    "elements t = add_mset e (elements t')" "ht_size t' = ht_size t"
    using delete_chains [OF c e] by blast
  have k: "ht_key e = k" using locate_in_chain [OF assms(1) e] by simp
  have "count (image_mset ht_key (elements t')) k' \<le> count (image_mset ht_key (elements t)) k'" for k'
    by (simp add: t'(3))
  then have ok: "htable_ok t'" using assms(1) t'(2) unfolding htable_ok_iff by (meson le_trans)
  have new: "k \<notin># image_mset ht_key (elements t')"
    using assms(1) t'(3) k by (auto simp: htable_ok_iff not_in_iff simp del: set_image_mset elim!: allE [of _ k])
  have new': "\<lparr>ht_key = k, ht_value = v'\<rparr> \<notin># elements t'" for v'
    using new by (metis htable_info.select_convs(1) image_eqI set_image_mset)
  have "ht_map t' = (ht_map t)(k := None)"
  proof (rule ht_map_eqI)
    fix k' v'
    show "(ht_map t' k' = Some v') = (((ht_map t)(k := None)) k' = Some v')"
      using new' k by (cases "k' = k") (auto simp: ht_map_Some ok assms(1) t'(3))
  qed
  moreover have "ht_map t k = Some (ht_value e)" "ht_used t' < ht_used t"
    using e t' c by (simp_all add: ht_map_def chains_length)
  ultimately show thesis using that t' ok by blast
qed

section \<open>The contract of a table\<close>

text \<open>
  What the clients of a table rely on: it behaves as a map, provided that a key is entered only when it
  is not there. A sequence of operations on the table is then a sequence of operations on the map.
\<close>

datatype 'v table_op = Enter_op string 'v | Delete_op string

fun table_run :: "('t \<Rightarrow> string \<Rightarrow> 'v \<Rightarrow> 't) \<Rightarrow> ('t \<Rightarrow> string \<Rightarrow> 't outcome) \<Rightarrow> 'v table_op list \<Rightarrow> 't \<Rightarrow> 't outcome" where
  "table_run enter delete [] t = Ret t"
| "table_run enter delete (Enter_op k v # ops) t = table_run enter delete ops (enter t k v)"
| "table_run enter delete (Delete_op k # ops) t = obind (delete t k) (table_run enter delete ops)"

fun map_run :: "'v table_op list \<Rightarrow> (string \<rightharpoonup> 'v) \<Rightarrow> (string \<rightharpoonup> 'v) outcome" where
  "map_run [] m = Ret m"
| "map_run (Enter_op k v # ops) m = map_run ops (m(k \<mapsto> v))"
| "map_run (Delete_op k # ops) m = (if m k = None then Panic ''htable_delete'' else map_run ops (m(k := None)))"

fun fresh_enters :: "'v table_op list \<Rightarrow> (string \<rightharpoonup> 'v) \<Rightarrow> bool" where
  "fresh_enters [] m \<longleftrightarrow> True"
| "fresh_enters (Enter_op k v # ops) m \<longleftrightarrow> m k = None \<and> fresh_enters ops (m(k \<mapsto> v))"
| "fresh_enters (Delete_op k # ops) m \<longleftrightarrow> fresh_enters ops (m(k := None))"

locale string_table =
  fixes ok :: "'t \<Rightarrow> bool"
    and lookup :: "'t \<Rightarrow> string \<Rightarrow> 'v option"
    and create :: 't
    and enter :: "'t \<Rightarrow> string \<Rightarrow> 'v \<Rightarrow> 't"
    and delete :: "'t \<Rightarrow> string \<Rightarrow> 't outcome"
  assumes ok_create: "ok create"
    and lookup_create: "lookup create = Map.empty"
    and ok_enter: "ok t \<Longrightarrow> lookup t k = None \<Longrightarrow> ok (enter t k v)"
    and lookup_enter: "ok t \<Longrightarrow> lookup t k = None \<Longrightarrow> lookup (enter t k v) = (lookup t)(k \<mapsto> v)"
    and delete_known: "ok t \<Longrightarrow> lookup t k \<noteq> None \<Longrightarrow>
      returns (delete t k) (\<lambda>t'. ok t' \<and> lookup t' = (lookup t)(k := None))"
    and delete_absent: "ok t \<Longrightarrow> lookup t k = None \<Longrightarrow> delete t k = Panic ''htable_delete''"
begin

lemma run_simulates:
  "ok t \<Longrightarrow> fresh_enters ops (lookup t) \<Longrightarrow>
   rel_outcome (\<lambda>t m. ok t \<and> lookup t = m) (table_run enter delete ops t) (map_run ops (lookup t))"
proof (induction ops arbitrary: t)
  case (Cons oper ops)
  show ?case
  proof (cases oper)
    case (Enter_op k v)
    then have "lookup t k = None" "fresh_enters ops ((lookup t)(k \<mapsto> v))" using Cons.prems by simp_all
    then show ?thesis
      using Cons.IH [of "enter t k v"] ok_enter [of t k v] lookup_enter [of t k v] Cons.prems(1)
      by (simp only: Enter_op table_run.simps map_run.simps)
  next
    case (Delete_op k)
    show ?thesis
    proof (cases "lookup t k")
      case None
      then show ?thesis using Cons.prems Delete_op by (simp add: delete_absent)
    next
      case (Some v)
      then obtain t' where "delete t k = Ret t'" "ok t'" "lookup t' = (lookup t)(k := None)"
        using delete_known [of t k] Cons.prems by (auto simp: returns_def)
      moreover have "fresh_enters ops ((lookup t)(k := None))" using Cons.prems Delete_op by simp
      ultimately show ?thesis
        using Cons.IH [of t'] Some by (simp only: Delete_op table_run.simps map_run.simps obind.simps option.distinct if_False)
    qed
  qed
qed simp

lemma run_from_empty:
  "fresh_enters ops Map.empty \<Longrightarrow>
   rel_outcome (\<lambda>t m. ok t \<and> lookup t = m) (table_run enter delete ops create) (map_run ops Map.empty)"
  using run_simulates [of create ops] by (simp add: ok_create lookup_create)

end

text \<open>The number of elements never exceeds the number of chains.\<close>

definition htable_fit :: "'v htable \<Rightarrow> bool" where
  "htable_fit t \<longleftrightarrow> htable_ok t \<and> ht_used t \<le> ht_size t"

lemma link_size [simp]: "ht_size (htable_link e t) = ht_size t"
  by (simp add: htable_link_def Let_def)

lemma fold_link_size [simp]: "ht_size (fold htable_link es t) = ht_size t"
  by (induction es arbitrary: t) simp_all

lemma grow_size: "ht_size (htable_grow t) \<ge> 2 * ht_size t + 1"
  using or_one_eq [of "2 * ht_size t"]
  by (simp add: htable_grow_def htable_size_def Let_def)

lemma create_fit: "htable_fit (htable_create n)"
  by (simp add: htable_fit_def create_ok) (simp add: htable_create_def htable_size_def Let_def)

lemma fit_enter:
  assumes "htable_fit t" "ht_map t k = None"
  shows "htable_fit (snd (htable_enter t k v))"
proof -
  have ok: "htable_ok (snd (htable_enter t k v))" using assms by (simp add: htable_fit_def enter_ok ht_map_def)
  have "chains_ok t" using assms by (simp add: htable_fit_def htable_ok_def)
  then have "ht_used (snd (htable_enter t k v)) = Suc (ht_used t)"
    using ok enter_chains(2) [of t k v] by (simp add: chains_length htable_ok_def)
  then show ?thesis
    using ok assms grow_size [of t] by (auto simp: htable_fit_def htable_enter_def Let_def)
qed

definition ht_delete :: "'v htable \<Rightarrow> string \<Rightarrow> 'v htable outcome" where
  "ht_delete t k = obind (htable_delete (Some t) k) (\<lambda>(_, t'). case t' of None \<Rightarrow> Ret t | Some t' \<Rightarrow> Ret t')"

definition htable_run :: "'v option table_op list \<Rightarrow> 'v htable \<Rightarrow> 'v htable outcome" where
  "htable_run = table_run (\<lambda>t k v. snd (htable_enter t k v)) ht_delete"

interpretation htab: string_table htable_fit ht_map "htable_create n" "\<lambda>t k v. snd (htable_enter t k v)" ht_delete for n
proof
  show "htable_fit (htable_create n)" by (rule create_fit)
  show "ht_map (htable_create n) = Map.empty" by (rule create_map)
next
  fix t :: "'v htable" and k
  assume t: "htable_fit t" and n: "ht_map t k = None"
  show "htable_fit (snd (htable_enter t k v))" "ht_map (snd (htable_enter t k v)) = (ht_map t)(k \<mapsto> v)" for v
    using fit_enter [OF t n] enter_map [of t k] t n by (simp_all add: htable_fit_def [of t])
  show "ht_delete t k = Panic ''htable_delete''"
    using n delete_unknown [of t k] by (simp add: ht_delete_def ht_map_def)
next
  fix t :: "'v htable" and k
  assume t: "htable_fit t" and k: "ht_map t k \<noteq> None"
  then obtain v t' where "htable_delete (Some t) k = Ret (v, Some t')" "htable_ok t'" "ht_map t' = (ht_map t)(k := None)"
    "ht_used t' < ht_used t" "ht_size t' = ht_size t"
    using delete_map [of t k] unfolding htable_fit_def by blast
  then show "returns (ht_delete t k) (\<lambda>t'. htable_fit t' \<and> ht_map t' = (ht_map t)(k := None))"
    using t by (simp add: ht_delete_def htable_fit_def)
qed

section \<open>Iteration\<close>

text \<open>The usual loop over a table: the first element, then the next ones until there is none.\<close>

fun seq_loop :: "nat \<Rightarrow> seq_how \<Rightarrow> 'v htable \<Rightarrow> 'v htable_info list outcome" where
  "seq_loop 0 how t = Diverge"
| "seq_loop (Suc n) how t =
     obind (htable_sequence t how) (\<lambda>(ht, t).
       case ht of
         None \<Rightarrow> Ret []
       | Some ht \<Rightarrow> obind (seq_loop n HTABLE_SEQ_NEXT t) (\<lambda>hts. Ret (ht # hts)))"

lemma seq_loop_next:
  assumes "ht_seq t = Some (xs, n)" "n \<le> length xs"
  shows "seq_loop (Suc (length xs - n)) HTABLE_SEQ_NEXT t = Ret (drop n xs)"
  using assms
proof (induction "length xs - n" arbitrary: n t)
  case 0
  then show ?case by (simp add: htable_sequence_def seq_read_def Let_def)
next
  case (Suc m)
  then have "Suc (length xs - Suc n) = length xs - n" "n < length xs" "m = length xs - Suc n" by simp_all
  then show ?case
    using Suc.hyps(1) [of "Suc n" "t\<lparr>ht_seq := Some (xs, n + 1)\<rparr>"] Suc.prems
    by (simp add: htable_sequence_def seq_read_def Let_def Cons_nth_drop_Suc)
qed

lemma seq_loop_first:
  "seq_loop (Suc (length (htable_list (Some t)))) HTABLE_SEQ_FIRST t = Ret (htable_list (Some t))"
proof (cases "htable_list (Some t)")
  case Nil
  then show ?thesis by (simp add: htable_sequence_def seq_read_def Let_def)
next
  case (Cons x xs)
  then show ?thesis
    using seq_loop_next [of "t\<lparr>ht_seq := Some (x # xs, 1)\<rparr>" "x # xs" 1]
    by (simp add: htable_sequence_def seq_read_def Let_def)
qed

section \<open>The duplicate filter\<close>

record bh_table =
  bh_limit :: int
  bh_flags :: int
  bh_htable :: "unit htable"

definition BH_FLAG_FOLD :: int where "BH_FLAG_FOLD = 1"

definition been_here_init :: "int \<Rightarrow> int \<Rightarrow> bh_table" where
  "been_here_init limit flags = \<lparr>bh_limit = limit, bh_flags = flags, bh_htable = htable_create 0\<rparr>"

text \<open>\<^verbatim>\<open>casefold()\<close> uses a Unicode library; it is a parameter.\<close>

definition lookup_key :: "(string \<Rightarrow> string) \<Rightarrow> int \<Rightarrow> string \<Rightarrow> string" where
  "lookup_key casefold flags s = (if flags AND BH_FLAG_FOLD \<noteq> 0 then casefold s else s)"

definition been_here_fixed :: "(string \<Rightarrow> string) \<Rightarrow> bh_table \<Rightarrow> string \<Rightarrow> bool \<times> bh_table" where
  "been_here_fixed casefold dup_filter s =
     (let key = lookup_key casefold (bh_flags dup_filter) s; table = bh_htable dup_filter
      in if htable_locate (Some table) key \<noteq> None then (True, dup_filter)
         else (False,
               if bh_limit dup_filter \<le> 0 \<or> bh_limit dup_filter > int (ht_used table)
               then dup_filter\<lparr>bh_htable := snd (htable_enter table key None)\<rparr> else dup_filter))"

definition been_here_check_fixed :: "(string \<Rightarrow> string) \<Rightarrow> bh_table \<Rightarrow> string \<Rightarrow> bool" where
  "been_here_check_fixed casefold dup_filter s \<longleftrightarrow>
     htable_locate (Some (bh_htable dup_filter)) (lookup_key casefold (bh_flags dup_filter) s) \<noteq> None"

text \<open>The answers for a sequence of strings, and the final state.\<close>

fun been_here_all :: "(string \<Rightarrow> string) \<Rightarrow> bh_table \<Rightarrow> string list \<Rightarrow> bool list \<times> bh_table" where
  "been_here_all casefold d [] = ([], d)"
| "been_here_all casefold d (s # ss) =
     (let (status, d) = been_here_fixed casefold d s; (rest, d) = been_here_all casefold d ss in (status # rest, d))"

definition bh_ok :: "bh_table \<Rightarrow> string set \<Rightarrow> bool" where
  "bh_ok d seen \<longleftrightarrow> htable_fit (bh_htable d) \<and> dom (ht_map (bh_htable d)) = seen
     \<and> (bh_limit d > 0 \<longrightarrow> int (ht_used (bh_htable d)) \<le> bh_limit d)"

lemma htable_used_card: "htable_ok t \<Longrightarrow> ht_used t = card (dom (ht_map t))"
proof -
  assume ok: "htable_ok t"
  have "dom (ht_map t) = ht_key ` set (concat (ht_data t))"
    using locate_None [OF ok] by (auto simp: ht_map_def dom_def elements_def)
  then show ?thesis
    using ok distinct_card [of "map ht_key (concat (ht_data t))"] by (simp add: htable_ok_def chains_ok_def)
qed

text \<open>What the filter remembers after one more string.\<close>

definition remember :: "int \<Rightarrow> string \<Rightarrow> string set \<Rightarrow> string set" where
  "remember limit key seen = (if limit \<le> 0 \<or> limit > int (card seen) then insert key seen else seen)"

lemma been_here_step:
  fixes casefold
  assumes "bh_ok d seen"
  defines "key \<equiv> lookup_key casefold (bh_flags d)"
  shows "fst (been_here_fixed casefold d s) \<longleftrightarrow> key s \<in> seen"
    and "bh_ok (snd (been_here_fixed casefold d s)) (if key s \<in> seen then seen else remember (bh_limit d) (key s) seen)"
    and "bh_limit (snd (been_here_fixed casefold d s)) = bh_limit d" "bh_flags (snd (been_here_fixed casefold d s)) = bh_flags d"
proof -
  have ok: "htable_ok (bh_htable d)" and seen: "seen = dom (ht_map (bh_htable d))"
    using assms(1) by (auto simp: bh_ok_def htable_fit_def)
  have loc: "htable_locate (Some (bh_htable d)) k \<noteq> None \<longleftrightarrow> k \<in> seen" for k
    by (auto simp: seen ht_map_def)
  show "fst (been_here_fixed casefold d s) \<longleftrightarrow> key s \<in> seen"
    using loc [of "key s"] by (simp add: been_here_fixed_def Let_def key_def)
  show "bh_limit (snd (been_here_fixed casefold d s)) = bh_limit d" "bh_flags (snd (been_here_fixed casefold d s)) = bh_flags d"
    by (simp_all add: been_here_fixed_def Let_def)
  have new: "htable_fit (snd (htable_enter (bh_htable d) (key s) None))"
    "dom (ht_map (snd (htable_enter (bh_htable d) (key s) None))) = insert (key s) seen"
    "ht_used (snd (htable_enter (bh_htable d) (key s) None)) = Suc (ht_used (bh_htable d))" if "key s \<notin> seen"
  proof -
    have n: "ht_map (bh_htable d) (key s) = None" using that seen by blast
    show f: "htable_fit (snd (htable_enter (bh_htable d) (key s) None))"
      using fit_enter [OF _ n] assms(1) by (simp add: bh_ok_def)
    show "dom (ht_map (snd (htable_enter (bh_htable d) (key s) None))) = insert (key s) seen"
      by (simp add: enter_map [OF ok n] seen)
    show "ht_used (snd (htable_enter (bh_htable d) (key s) None)) = Suc (ht_used (bh_htable d))"
      using f ok enter_chains(2) [of "bh_htable d" "key s" None] by (simp add: chains_length htable_ok_def htable_fit_def)
  qed
  show "bh_ok (snd (been_here_fixed casefold d s)) (if key s \<in> seen then seen else remember (bh_limit d) (key s) seen)"
    using assms(1) loc [of "key s"] new htable_used_card [OF ok]
    by (auto simp: been_here_fixed_def Let_def key_def bh_ok_def remember_def)
qed

lemma been_here_all_spec:
  assumes "bh_ok d seen" "finite seen"
    and "bh_limit d \<le> 0 \<or> int (card (seen \<union> lookup_key casefold (bh_flags d) ` set ss)) \<le> bh_limit d"
  shows "fst (been_here_all casefold d ss) =
    map (\<lambda>i. lookup_key casefold (bh_flags d) (ss ! i)
              \<in> seen \<union> lookup_key casefold (bh_flags d) ` set (take i ss)) [0..<length ss]"
  using assms
proof (induction ss arbitrary: d seen)
  case (Cons s ss)
  let ?key = "lookup_key casefold (bh_flags d)"
  define d' where "d' = snd (been_here_fixed casefold d s)"
  note step = been_here_step [OF Cons.prems(1), of casefold s, folded d'_def]
  have "bh_limit d \<le> 0 \<or> int (card seen) < bh_limit d" if "?key s \<notin> seen"
  proof -
    have "card (insert (?key s) seen) \<le> card (seen \<union> ?key ` set (s # ss))"
      using Cons.prems(2) by (intro card_mono) auto
    then show ?thesis using that Cons.prems(2,3) by auto
  qed
  then have seen': "bh_ok d' (insert (?key s) seen)"
    using step(2) by (auto simp: remember_def insert_absorb split: if_splits)
  have "fst (been_here_all casefold d' ss) =
      map (\<lambda>i. ?key (ss ! i) \<in> insert (?key s) seen \<union> ?key ` set (take i ss)) [0..<length ss]"
    using Cons.IH [OF seen'] Cons.prems(2,3) step(3,4) by simp
  then show ?case
    using step(1) by (simp add: map_upt_Suc case_prod_beta Let_def d'_def disj_ac del: upt_Suc)
qed simp

lemma take_image_iff: "i < length ss \<Longrightarrow> x \<in> f ` set (take i ss) \<longleftrightarrow> (\<exists>j < i. f (ss ! j) = x)"
  unfolding nth_image [OF less_imp_le, symmetric] image_image by (auto simp: image_iff)

lemma bh_ok_init: "bh_ok (been_here_init limit flags) {}"
  by (simp add: bh_ok_def been_here_init_def create_fit create_map) (simp add: htable_create_def htable_size_def Let_def)

section \<open>Properties\<close>

text \<open>
  C34: A hash table implements a finite map: any sequence of operations that enters a key only when it is
  absent has the outcome it has on the map (deleting an unknown key is a panic), and leaves a
  table that has at least as many chains as elements.
\<close>

theorem htable_refines_map:
  assumes "fresh_enters ops Map.empty"
  shows "rel_outcome (\<lambda>t m. htable_fit t \<and> ht_map t = m) (htable_run ops (htable_create n)) (map_run ops Map.empty)"
  unfolding htable_run_def by (rule htab.run_from_empty [OF assms])

theorem htable_refines_map_witness:
  "rel_outcome (\<lambda>t m. htable_fit t \<and> ht_map t = m)
     (htable_run [Enter_op ''a'' (Some (1::nat)), Enter_op ''b'' None, Delete_op ''a''] (htable_create 13))
     (map_run [Enter_op ''a'' (Some 1), Enter_op ''b'' None, Delete_op ''a''] Map.empty)"
  by (rule htable_refines_map) simp

text \<open>
  C35: The duplicate filter reports a string exactly when an earlier one had the same key, as long as the
  number of distinct keys does not exceed its limit.
\<close>

theorem been_here_detects_duplicates:
  assumes "limit \<le> 0 \<or> int (card (lookup_key casefold flags ` set ss)) \<le> limit"
  shows "fst (been_here_all casefold (been_here_init limit flags) ss) =
    map (\<lambda>i. \<exists>j < i. lookup_key casefold flags (ss ! j) = lookup_key casefold flags (ss ! i)) [0..<length ss]"
proof -
  have "fst (been_here_all casefold (been_here_init limit flags) ss) =
      map (\<lambda>i. lookup_key casefold flags (ss ! i) \<in> lookup_key casefold flags ` set (take i ss)) [0..<length ss]"
    using been_here_all_spec [OF bh_ok_init, of limit flags casefold ss] assms by (simp add: been_here_init_def)
  also have "\<dots> = map (\<lambda>i. \<exists>j < i. lookup_key casefold flags (ss ! j) = lookup_key casefold flags (ss ! i)) [0..<length ss]"
    by (intro map_cong) (simp_all add: take_image_iff)
  finally show ?thesis .
qed

theorem been_here_detects_duplicates_witness:
  "fst (been_here_all (\<lambda>_. ''x'') (been_here_init 1 BH_FLAG_FOLD) [''a'', ''A'']) =
    map (\<lambda>i. \<exists>j < i. lookup_key (\<lambda>_. ''x'') BH_FLAG_FOLD ([''a'', ''A''] ! j)
                    = lookup_key (\<lambda>_. ''x'') BH_FLAG_FOLD ([''a'', ''A''] ! i)) [0..<length [''a'', ''A'']]"
  by (rule been_here_detects_duplicates) (simp add: lookup_key_def BH_FLAG_FOLD_def)

text \<open>
  Iterating over a table visits every element once; but asking for the next element after an
  empty table had no first one reads beyond the end of the private array.
\<close>

theorem htable_sequence_visits_all:
  "seq_loop (Suc (length (htable_list (Some t)))) HTABLE_SEQ_FIRST t = Ret (htable_list (Some t))
   \<and> mset (htable_list (Some t)) = elements t
   \<and> obind (htable_sequence (htable_create n) HTABLE_SEQ_FIRST) (\<lambda>(_, t). htable_sequence t HTABLE_SEQ_NEXT)
     = Panic ''read beyond the array''"
  using seq_loop_first [of t]
  by (simp add: htable_list_def elements_def)
     (simp add: htable_sequence_def htable_list_def seq_read_def htable_create_def htable_size_def Let_def)

end
