(* ===== verification/Wire.thy ===== *)
theory Wire
  imports C_Lib
begin

text \<open>
  Decimal numbers with overflow detection (\<^verbatim>\<open>src/src/global/off_cvt.c\<close>) and netstrings
  (\<^verbatim>\<open>src/src/util/netstring.c\<close>). An input stream is the list of characters that are
  still to come and a flag that tells whether its end is a timeout or a disconnect; the non-local exits of
  \<^verbatim>\<open>netstring_except()\<close> are the left summand of the result.
\<close>

section \<open>Decimal digits with overflow detection\<close>

definition SSIZE_T_MAX :: int where "SSIZE_T_MAX = LONG_MAX"
definition OFF_T_MAX :: int where "OFF_T_MAX = LONG_MAX"

text \<open>One digit more, unless the result would exceed \<open>limit\<close>; the test is the one of the code.\<close>

definition add_digit :: "int \<Rightarrow> int \<Rightarrow> char \<Rightarrow> int option" where
  "add_digit limit len ch =
     (let digit = int (digit_val ch)
      in if len > limit div 10 \<or> len * 10 > limit - digit then None else Some (len * 10 + digit))"

lemma add_digit_iff:
  assumes "0 \<le> len"
  shows "add_digit limit len ch = (if len * 10 + int (digit_val ch) \<le> limit then Some (len * 10 + int (digit_val ch)) else None)"
proof -
  have "len > limit div 10 \<Longrightarrow> len * 10 + int (digit_val ch) > limit" by presburger
  then show ?thesis by (auto simp: add_digit_def Let_def)
qed

text \<open>The number that a string of digits adds up to, starting with \<open>len\<close>.\<close>

definition digits_from :: "int \<Rightarrow> string \<Rightarrow> int" where
  "digits_from len ds = foldl (\<lambda>v d. v * 10 + int (digit_val d)) len ds"

lemma digits_from_simps [simp]:
  "digits_from len [] = len"
  "digits_from len (d # ds) = digits_from (len * 10 + int (digit_val d)) ds"
  by (simp_all add: digits_from_def)

lemma digits_from_ge: "0 \<le> len \<Longrightarrow> len \<le> digits_from len ds"
proof (induction ds arbitrary: len)
  case (Cons d ds)
  then have "len * 10 + int (digit_val d) \<le> digits_from (len * 10 + int (digit_val d)) ds" by simp
  then show ?case using Cons.prems by simp
qed simp

lemma digits_from_0: "digits_from 0 ds = int (digits_val ds)"
proof -
  have "digits_from (int v) ds = int (foldl (\<lambda>v d. 10 * v + digit_val d) v ds)" for v
  proof (induction ds arbitrary: v)
    case (Cons d ds)
    then show ?case using Cons.IH [of "10 * v + digit_val d"] by (simp add: ac_simps)
  qed simp
  from this [of 0] show ?thesis by (simp add: digits_val_def)
qed

section \<open>File offsets\<close>

fun off_cvt_loop :: "int \<Rightarrow> string \<Rightarrow> int" where
  "off_cvt_loop result [] = result"
| "off_cvt_loop result (ch # str) =
     (if \<not> isdigit ch then -1
      else case add_digit OFF_T_MAX result ch of None \<Rightarrow> -1 | Some result \<Rightarrow> off_cvt_loop result str)"

definition off_cvt_string :: "string \<Rightarrow> int" where
  "off_cvt_string str = off_cvt_loop 0 str"

text \<open>The digits come out backwards, and are then reversed in place; zero is the empty string.\<close>

fun off_digits :: "nat \<Rightarrow> string" where
  "off_digits n = (if n = 0 then [] else digit_char (n mod 10) # off_digits (n div 10))"

declare off_digits.simps [simp del]

definition off_cvt_number :: "int \<Rightarrow> string outcome" where
  "off_cvt_number offset = (if offset < 0 then Panic ''off_cvt_number'' else Ret (rev (off_digits (nat offset))))"

lemma off_cvt_loop_iff:
  "0 \<le> n \<Longrightarrow> off_cvt_loop n ds = (if list_all isdigit ds \<and> digits_from n ds \<le> OFF_T_MAX then digits_from n ds else -1)"
  if "n \<le> OFF_T_MAX"
  using that
proof (induction ds arbitrary: n)
  case (Cons d ds)
  let ?n = "n * 10 + int (digit_val d)"
  have "?n \<le> digits_from ?n ds" using Cons.prems by (intro digits_from_ge) simp
  then show ?case using Cons by (auto simp: add_digit_iff)
qed simp

lemma off_cvt_string_iff:
  "off_cvt_string ds = (if list_all isdigit ds \<and> int (digits_val ds) \<le> OFF_T_MAX then int (digits_val ds) else -1)"
  by (simp add: off_cvt_string_def off_cvt_loop_iff digits_from_0 OFF_T_MAX_def LONG_MAX_def)

lemma off_digits_props: "list_all isdigit (rev (off_digits n)) \<and> digits_val (rev (off_digits n)) = n"
proof (induction n rule: off_digits.induct)
  case (1 n)
  then show ?case
    by (cases "n = 0") (subst (1 2) off_digits.simps, simp add: digits_val_def)+
qed

section \<open>Netstrings\<close>

datatype netstring_err = NETSTRING_ERR_EOF | NETSTRING_ERR_TIME | NETSTRING_ERR_FORMAT | NETSTRING_ERR_SIZE

definition end_of_input :: "bool \<Rightarrow> netstring_err" where
  "end_of_input ftimeout = (if ftimeout then NETSTRING_ERR_TIME else NETSTRING_ERR_EOF)"

fun get_length_loop :: "bool \<Rightarrow> int \<Rightarrow> string \<Rightarrow> netstring_err + int \<times> string" where
  "get_length_loop ftimeout len [] = Inl (end_of_input ftimeout)"
| "get_length_loop ftimeout len (ch # stream) =
     (if ch = CHR '':'' then Inr (len, stream)
      else if \<not> isdigit ch then Inl NETSTRING_ERR_FORMAT
      else case add_digit SSIZE_T_MAX len ch of
             None \<Rightarrow> Inl NETSTRING_ERR_SIZE
           | Some len \<Rightarrow> get_length_loop ftimeout len stream)"

definition netstring_get_length :: "bool \<Rightarrow> string \<Rightarrow> netstring_err + int \<times> string" where
  "netstring_get_length ftimeout stream = get_length_loop ftimeout 0 stream"

definition netstring_get_terminator :: "string \<Rightarrow> netstring_err + string" where
  "netstring_get_terminator stream =
     (case stream of [] \<Rightarrow> Inl NETSTRING_ERR_FORMAT
      | ch # stream \<Rightarrow> if ch \<noteq> CHR '','' then Inl NETSTRING_ERR_FORMAT else Inr stream)"

definition netstring_get_data :: "bool \<Rightarrow> string \<Rightarrow> int \<Rightarrow> netstring_err + string \<times> string" where
  "netstring_get_data ftimeout stream len =
     (if int (length stream) < len then Inl (end_of_input ftimeout)
      else case netstring_get_terminator (drop (nat len) stream) of
             Inl err \<Rightarrow> Inl err
           | Inr rest \<Rightarrow> Inr (take (nat len) stream, rest))"

definition netstring_get :: "bool \<Rightarrow> string \<Rightarrow> int \<Rightarrow> netstring_err + string \<times> string" where
  "netstring_get ftimeout stream limit =
     (case netstring_get_length ftimeout stream of
        Inl err \<Rightarrow> Inl err
      | Inr (len, stream) \<Rightarrow>
          if limit \<noteq> 0 \<and> len > limit then Inl NETSTRING_ERR_SIZE else netstring_get_data ftimeout stream len)"

definition netstring_put :: "string \<Rightarrow> string" where
  "netstring_put data = sprintf_d (int (length data)) @ '':'' @ data @ '',''"

text \<open>
  Each argument is a buffer and the number of bytes to send from it. The sum of the lengths is
  computed in a 64-bit integer.
\<close>

definition netstring_put_multi :: "(string \<times> int) list \<Rightarrow> string outcome" where
  "netstring_put_multi args =
     (if list_ex (\<lambda>(_, data_len). data_len < 0) args then Panic ''netstring_put_multi''
      else
        let total = sint (word_of_int (sum_list (map snd args)) :: 64 word)
        in if total < 0 then Panic ''netstring_put_multi''
           else Ret (sprintf_d total @ '':'' @ concat (map (\<lambda>(data, data_len). take (nat data_len) data) args) @ '',''))"

definition netstring_memcpy :: "string \<Rightarrow> string" where
  "netstring_memcpy src = sprintf_d (int (length src)) @ '':'' @ src @ '',''"

definition netstring_memcat :: "string \<Rightarrow> string \<Rightarrow> string" where
  "netstring_memcat buf src = buf @ sprintf_d (int (length src)) @ '':'' @ src @ '',''"

lemma get_length_iff:
  assumes "0 \<le> len" "len \<le> SSIZE_T_MAX"
  shows "get_length_loop ftimeout len s = Inr (n, rest) \<longleftrightarrow>
    (\<exists>ds. s = ds @ CHR '':'' # rest \<and> list_all isdigit ds \<and> digits_from len ds = n \<and> n \<le> SSIZE_T_MAX)"
  using assms
proof (induction s arbitrary: len)
  case (Cons ch s)
  have colon: "\<not> isdigit (CHR '':'')" by (simp add: isdigit_def)
  let ?len = "len * 10 + int (digit_val ch)"
  show ?case
  proof (cases "isdigit ch \<and> ?len \<le> SSIZE_T_MAX")
    case True
    then have "ch \<noteq> CHR '':''" using colon by auto
    then show ?thesis using True Cons by (auto simp: add_digit_iff Cons_eq_append_conv)
  next
    case False
    have "?len \<le> digits_from ?len ds" for ds using Cons.prems by (intro digits_from_ge) simp
    then have "\<not> digits_from ?len ds \<le> SSIZE_T_MAX" if "isdigit ch" for ds using False that order_trans by blast
    then show ?thesis
      using False Cons.prems colon by (auto simp: add_digit_iff Cons_eq_append_conv)
  qed
qed simp

lemma get_terminator_iff: "netstring_get_terminator s = Inr rest \<longleftrightarrow> s = CHR '','' # rest"
  by (cases s) (auto simp: netstring_get_terminator_def)

lemma get_data_iff:
  assumes "0 \<le> n"
  shows "netstring_get_data ftimeout s n = Inr (data, rest) \<longleftrightarrow> s = data @ CHR '','' # rest \<and> n = int (length data)"
proof
  assume "netstring_get_data ftimeout s n = Inr (data, rest)"
  then have n: "n \<le> int (length s)" "drop (nat n) s = CHR '','' # rest" "data = take (nat n) s"
    by (auto simp: netstring_get_data_def get_terminator_iff split: if_splits sum.splits)
  then show "s = data @ CHR '','' # rest \<and> n = int (length data)"
    using assms append_take_drop_id [of "nat n" s] by simp
next
  assume "s = data @ CHR '','' # rest \<and> n = int (length data)"
  then show "netstring_get_data ftimeout s n = Inr (data, rest)"
    by (simp add: netstring_get_data_def netstring_get_terminator_def)
qed

lemma netstring_get_eq:
  "netstring_get ftimeout s limit = Inr (data, rest) \<longleftrightarrow>
     (\<exists>ds. s = ds @ CHR '':'' # data @ CHR '','' # rest \<and> list_all isdigit ds \<and> digits_val ds = length data
        \<and> int (length data) \<le> SSIZE_T_MAX \<and> (limit = 0 \<or> int (length data) \<le> limit))"
proof -
  note len = get_length_iff [of 0 ftimeout s, folded netstring_get_length_def, unfolded digits_from_0]
  have ge: "n \<ge> 0" if "netstring_get_length ftimeout s = Inr (n, s')" for n s'
    using that by (auto simp: len SSIZE_T_MAX_def LONG_MAX_def)
  have "netstring_get ftimeout s limit = Inr (data, rest) \<longleftrightarrow>
      (\<exists>n s'. netstring_get_length ftimeout s = Inr (n, s') \<and> (limit = 0 \<or> n \<le> limit)
         \<and> netstring_get_data ftimeout s' n = Inr (data, rest))"
    by (auto simp: netstring_get_def split: sum.splits prod.splits if_splits)
  also have "\<dots> \<longleftrightarrow> (\<exists>n s'. netstring_get_length ftimeout s = Inr (n, s') \<and> (limit = 0 \<or> n \<le> limit)
      \<and> s' = data @ CHR '','' # rest \<and> n = int (length data))"
    using ge by (auto simp: get_data_iff)
  finally show ?thesis by (auto simp: len SSIZE_T_MAX_def LONG_MAX_def)
qed

lemma sprintf_d_digits: "sprintf_d (int n) = nat_digits n"
  by (simp add: sprintf_d_def)

lemma nat_digits_all: "list_all isdigit (nat_digits n)" "digits_val (nat_digits n) = n"
  using nat_digits_props by (simp_all add: list_all_iff)

lemma netstring_get_put:
  assumes "int (length data) \<le> SSIZE_T_MAX" "limit = 0 \<or> int (length data) \<le> limit"
  shows "netstring_get ftimeout (netstring_put data @ rest) limit = Inr (data, rest)"
  unfolding netstring_get_eq netstring_put_def sprintf_d_digits
  using assms nat_digits_all [of "length data"] by (intro exI [of _ "nat_digits (length data)"]) simp

lemma ssize_fits: "0 \<le> n \<Longrightarrow> n \<le> SSIZE_T_MAX \<Longrightarrow> sint (word_of_int n :: 64 word) = n"
  by (simp add: sint_sbintrunc' signed_take_bit_int_eq_self_iff SSIZE_T_MAX_def LONG_MAX_def)

section \<open>Properties\<close>

text \<open>
  C40: The netstring reader accepts exactly a decimal length, a colon, that many bytes and a comma, where
  the length is representable and within the limit. The length may have leading zeros, or no digits at all.
\<close>

theorem netstring_get_iff:
  "netstring_get ftimeout s limit = Inr (data, rest) \<longleftrightarrow>
     (\<exists>ds. s = ds @ CHR '':'' # data @ CHR '','' # rest \<and> list_all isdigit ds \<and> digits_val ds = length data
        \<and> int (length data) \<le> SSIZE_T_MAX \<and> (limit = 0 \<or> int (length data) \<le> limit))"
  by (rule netstring_get_eq)

text \<open>
  What was sent as one netstring, from one buffer or from several ones, is what the reader
  returns, and it stops right behind it.
\<close>

theorem netstring_roundtrip:
  assumes "int (length (concat datas)) \<le> SSIZE_T_MAX" "limit = 0 \<or> int (length (concat datas)) \<le> limit"
  shows "\<exists>msg. netstring_put_multi (map (\<lambda>d. (d, int (length d))) datas) = Ret msg \<and> msg = netstring_put (concat datas)
    \<and> netstring_get ftimeout (msg @ rest) limit = Inr (concat datas, rest)"
proof -
  let ?n = "length (concat datas)"
  have sum: "sum_list (map snd (map (\<lambda>d. (d, int (length d))) datas)) = int ?n"
    by (induction datas) simp_all
  have "sint (word_of_int (int ?n) :: 64 word) = int ?n"
    by (rule ssize_fits) (use assms(1) in simp_all)
  then have "netstring_put_multi (map (\<lambda>d. (d, int (length d))) datas) = Ret (netstring_put (concat datas))"
    unfolding netstring_put_multi_def sum Let_def
    by (simp add: netstring_put_def list_ex_iff comp_def)
  then show ?thesis using netstring_get_put [OF assms] by blast
qed

theorem netstring_roundtrip_witness:
  "\<exists>msg. netstring_put_multi (map (\<lambda>d. (d, int (length d))) [''foo'', '' bar'']) = Ret msg
     \<and> msg = netstring_put (concat [''foo'', '' bar''])
     \<and> netstring_get False (msg @ ''x'') 10 = Inr (concat [''foo'', '' bar''], ''x'')"
  by (rule netstring_roundtrip) (simp_all add: SSIZE_T_MAX_def LONG_MAX_def)

text \<open>
  Reading the text of a file offset gives the offset back; text that is not a number, or that does
  not fit, is refused without an overflow.
\<close>

theorem off_cvt_roundtrip:
  "off_cvt_string ds = (if list_all isdigit ds \<and> int (digits_val ds) \<le> OFF_T_MAX then int (digits_val ds) else -1)
   \<and> (int n \<le> OFF_T_MAX \<longrightarrow> returns (off_cvt_number (int n)) (\<lambda>str. off_cvt_string str = int n))"
  using off_digits_props [of n] by (simp add: off_cvt_string_iff off_cvt_number_def)

theorem off_cvt_roundtrip_witness:
  "off_cvt_string ''12x'' = -1 \<and> returns (off_cvt_number (int 7)) (\<lambda>str. off_cvt_string str = int 7)"
  using off_cvt_roundtrip [of "''12x''" 7] by (simp add: OFF_T_MAX_def LONG_MAX_def isdigit_def)

end
