(* ===== verification/Queue_File.thy ===== *)
theory Queue_File
  imports Wire
begin

text \<open>
  Queue file records (\<^verbatim>\<open>src/src/global/record.c\<close>): a type byte, a length in 7-bit
  portions, and the data. A file is its contents, a read/write position, a size limit, and whether it can
  be repositioned. Reading may follow pointer records; the workaround against pointer loops has static
  state, which is passed explicitly.
\<close>

unbundle bit_operations_syntax

section \<open>Files\<close>

record vfile =
  f_data :: string
  f_pos :: nat
  f_limit :: nat
  f_seekable :: bool
  f_path :: nat

definition vstream_getc :: "vfile \<Rightarrow> char option \<times> vfile" where
  "vstream_getc f = (if f_pos f < length (f_data f) then (Some (f_data f ! f_pos f), f\<lparr>f_pos := f_pos f + 1\<rparr>) else (None, f))"

text \<open>Up to \<open>len\<close> bytes.\<close>

definition vstream_fread :: "nat \<Rightarrow> vfile \<Rightarrow> string \<times> vfile" where
  "vstream_fread len f =
     (let data = take len (drop (f_pos f) (f_data f)) in (data, f\<lparr>f_pos := f_pos f + length data\<rparr>))"

text \<open>Writing replaces bytes, or extends the file, with null bytes in a gap; it fails at the size limit.\<close>

definition vstream_putc :: "char \<Rightarrow> vfile \<Rightarrow> bool \<times> vfile" where
  "vstream_putc c f =
     (if f_limit f \<le> f_pos f then (False, f)
      else let p = f_pos f; gap = replicate (p - length (f_data f)) (CHR 0x00)
           in (True, f\<lparr>f_data := take p (f_data f) @ gap @ c # drop (p + 1) (f_data f), f_pos := p + 1\<rparr>))"

fun vstream_fwrite :: "string \<Rightarrow> vfile \<Rightarrow> bool \<times> vfile" where
  "vstream_fwrite [] f = (True, f)"
| "vstream_fwrite (c # cs) f = (case vstream_putc c f of (False, f) \<Rightarrow> (False, f) | (True, f) \<Rightarrow> vstream_fwrite cs f)"

definition vstream_fseek :: "int \<Rightarrow> vfile \<Rightarrow> bool \<times> vfile" where
  "vstream_fseek offset f = (if f_seekable f \<and> 0 \<le> offset then (True, f\<lparr>f_pos := nat offset\<rparr>) else (False, f))"

section \<open>Record types and flags\<close>

definition REC_TYPE_EOF :: int where "REC_TYPE_EOF = -1"
definition REC_TYPE_ERROR :: int where "REC_TYPE_ERROR = -2"
definition REC_TYPE_PTR :: int where "REC_TYPE_PTR = 112"
definition REC_TYPE_DTXT :: int where "REC_TYPE_DTXT = 119"
definition REC_TYPE_END :: int where "REC_TYPE_END = 69"

definition REC_FLAG_FOLLOW_PTR :: int where "REC_FLAG_FOLLOW_PTR = 1"
definition REC_FLAG_SKIP_DTXT :: int where "REC_FLAG_SKIP_DTXT = 2"
definition REC_FLAG_SEEK_END :: int where "REC_FLAG_SEEK_END = 4"
definition REC_FLAG_DEFAULT :: int where
  "REC_FLAG_DEFAULT = (REC_FLAG_FOLLOW_PTR OR REC_FLAG_SKIP_DTXT OR REC_FLAG_SEEK_END)"

lemma rec_type_chars:
  "REC_TYPE_PTR = int (char_code CHR ''p'')" "REC_TYPE_DTXT = int (char_code CHR ''w'')"
  "REC_TYPE_END = int (char_code CHR ''E'')"
  by (simp_all add: REC_TYPE_PTR_def REC_TYPE_DTXT_def REC_TYPE_END_def)

section \<open>Writing\<close>

definition rec_put_type :: "int \<Rightarrow> int \<Rightarrow> vfile \<Rightarrow> (int \<times> vfile) outcome" where
  "rec_put_type type offset f =
     (if type < 0 \<or> type > 255 then Panic ''rec_put_type''
      else case vstream_fseek offset f of
             (False, f) \<Rightarrow> Ret (REC_TYPE_ERROR, f)
           | (True, f) \<Rightarrow>
               (case vstream_putc (char_of (nat type)) f of
                  (False, f) \<Rightarrow> Ret (REC_TYPE_ERROR, f)
                | (True, f) \<Rightarrow> Ret (type, f)))"

text \<open>The length bytes: seven bits each, with the eighth bit set when there are more.\<close>

function rec_len_bytes :: "nat \<Rightarrow> string" where
  "rec_len_bytes len_rest =
     (let len_byte = len_rest AND 127; len_rest' = drop_bit 7 len_rest
      in if len_rest' \<noteq> 0 then char_of (len_byte OR 128) # rec_len_bytes len_rest' else [char_of len_byte])"
  by pat_completeness auto
termination
  by (relation "measure id") (auto simp: drop_bit_eq_div)

declare rec_len_bytes.simps [simp del]

definition rec_put :: "int \<Rightarrow> string \<Rightarrow> vfile \<Rightarrow> (int \<times> vfile) outcome" where
  "rec_put type data f =
     (if type < 0 \<or> type > 255 then Panic ''rec_put''
      else case vstream_fwrite (char_of (nat type) # rec_len_bytes (length data)) f of
             (False, f) \<Rightarrow> Ret (REC_TYPE_ERROR, f)
           | (True, f) \<Rightarrow>
               if data = [] then Ret (type, f)
               else case vstream_fwrite data f of
                      (False, f) \<Rightarrow> Ret (REC_TYPE_ERROR, f)
                    | (True, f) \<Rightarrow> Ret (type, f))"

definition rec_fputs :: "int \<Rightarrow> string option \<Rightarrow> vfile \<Rightarrow> (int \<times> vfile) outcome" where
  "rec_fputs type str f = rec_put type (case str of None \<Rightarrow> [] | Some str \<Rightarrow> str) f"

text \<open>A blank-padded number zero, at least one character wide.\<close>

definition rec_pad :: "int \<Rightarrow> int \<Rightarrow> vfile \<Rightarrow> (int \<times> vfile) outcome" where
  "rec_pad type len f =
     (let width = len - 2; width = (if width < 1 then 1 else width)
      in rec_put type (replicate (nat width - 1) (CHR '' '') @ ''0'') f)"

function rec_len_count :: "nat \<Rightarrow> nat" where
  "rec_len_count l = (let l' = drop_bit 7 l in if l' \<noteq> 0 then rec_len_count l' + 1 else 1)"
  by pat_completeness auto
termination
  by (relation "measure id") (auto simp: drop_bit_eq_div)

declare rec_len_count.simps [simp del]

definition REC_SPACE_NEED :: "nat \<Rightarrow> nat" where
  "REC_SPACE_NEED buflen = 1 + rec_len_count buflen + buflen"

section \<open>Reading\<close>

text \<open>
  The length. The shift is an operation on a 32-bit integer, whose result may be negative. At most five
  bytes are read.
\<close>

function rec_get_len :: "nat \<Rightarrow> int \<Rightarrow> vfile \<Rightarrow> int option \<times> vfile" where
  "rec_get_len shift len f =
     (if shift \<ge> 32 then (None, f)
      else case vstream_getc f of
             (None, f) \<Rightarrow> (None, f)
           | (Some c, f) \<Rightarrow>
               let len_byte = int (char_code c); len = len OR to_int (push_bit shift (len_byte AND 127))
               in if len_byte AND 128 = 0 then (Some len, f) else rec_get_len (shift + 7) len f)"
  by pat_completeness auto
termination
  by (relation "measure (\<lambda>(shift, _, _). 32 - shift)") auto

declare rec_get_len.simps [simp del]

text \<open>Type, length and data of one record; the buffer is changed only when data are read.\<close>

definition rec_read_one :: "int \<Rightarrow> string \<Rightarrow> vfile \<Rightarrow> int \<times> string \<times> vfile" where
  "rec_read_one maxsize buf f =
     (case vstream_getc f of
        (None, f) \<Rightarrow> (REC_TYPE_EOF, buf, f)
      | (Some type, f) \<Rightarrow>
          (case rec_get_len 0 0 f of
             (None, f) \<Rightarrow> (REC_TYPE_ERROR, buf, f)
           | (Some len, f) \<Rightarrow>
               if len < 0 \<or> (maxsize > 0 \<and> len > maxsize)
               then (REC_TYPE_ERROR, buf, snd (vstream_fread (nat len) f))
               else let (data, f) = vstream_fread (nat len) f
                    in (if int (length data) \<noteq> len then REC_TYPE_ERROR else int (char_code type), data, f)))"

text \<open>The static variables of \<^verbatim>\<open>rec_goto()\<close>.\<close>

record goto_state =
  saved_path :: "nat option"
  saved_offset :: int
  reverse_count :: int

definition REVERSE_JUMP_LIMIT :: int where "REVERSE_JUMP_LIMIT = 10000"

definition switch_stream :: "vfile \<Rightarrow> goto_state \<Rightarrow> goto_state" where
  "switch_stream f g =
     (if saved_path g \<noteq> Some (f_path f)
      then \<lparr>saved_path = Some (f_path f), saved_offset = 0, reverse_count = 0\<rparr> else g)"

definition rec_goto :: "vfile \<Rightarrow> string \<Rightarrow> goto_state \<Rightarrow> int \<times> vfile \<times> goto_state" where
  "rec_goto f buf g =
     (let g = switch_stream f g;
          offset = off_cvt_string (dropWhile isspace buf)
      in if offset < 0 then (REC_TYPE_ERROR, f, g)
         else if offset = 0 then (0, f, g)
         else
           let reverse = (offset \<le> saved_offset g);
               g = (if reverse then g\<lparr>reverse_count := reverse_count g + 1\<rparr> else g)
           in if reverse \<and> reverse_count g > REVERSE_JUMP_LIMIT then (REC_TYPE_ERROR, f, g)
              else case vstream_fseek offset f of
                     (False, f) \<Rightarrow> (REC_TYPE_ERROR, f, g)
                   | (True, f) \<Rightarrow> (0, f, g\<lparr>saved_offset := offset\<rparr>))"

definition flag_set :: "int \<Rightarrow> int \<Rightarrow> bool" where
  "flag_set flags flag \<longleftrightarrow> flags AND flag \<noteq> 0"

text \<open>The loop that skips records which the caller does not want to see.\<close>

partial_function (option) rec_get_loop ::
  "int \<Rightarrow> int \<Rightarrow> string \<Rightarrow> vfile \<Rightarrow> goto_state \<Rightarrow> (int \<times> string \<times> vfile \<times> goto_state) option" where
  "rec_get_loop maxsize flags buf f g =
     (case rec_read_one maxsize buf f of
        (type, buf, f) \<Rightarrow>
          if type < 0 \<or> flags = 0 then Some (type, buf, f, g)
          else if type = REC_TYPE_PTR \<and> flag_set flags REC_FLAG_FOLLOW_PTR then
            (case rec_goto f buf g of
               (type, f, g) \<Rightarrow>
                 if type \<noteq> REC_TYPE_ERROR then rec_get_loop maxsize flags buf f g else Some (type, buf, f, g))
          else if type = REC_TYPE_DTXT \<and> flag_set flags REC_FLAG_SKIP_DTXT then rec_get_loop maxsize flags buf f g
          else if type = REC_TYPE_END \<and> flag_set flags REC_FLAG_SEEK_END then
            (case vstream_fseek (int (length (f_data f))) f of
               (False, f) \<Rightarrow> Some (REC_TYPE_ERROR, buf, f, g)
             | (True, f) \<Rightarrow> Some (type, buf, f, g))
          else Some (type, buf, f, g))"

definition rec_get_raw :: "int \<Rightarrow> int \<Rightarrow> string \<Rightarrow> vfile \<Rightarrow> goto_state \<Rightarrow> (int \<times> string \<times> vfile \<times> goto_state) outcome" where
  "rec_get_raw maxsize flags buf f g =
     (if maxsize < 0 then Panic ''rec_get''
      else case rec_get_loop maxsize flags buf f g of None \<Rightarrow> Diverge | Some r \<Rightarrow> Ret r)"

definition rec_get :: "int \<Rightarrow> string \<Rightarrow> vfile \<Rightarrow> goto_state \<Rightarrow> (int \<times> string \<times> vfile \<times> goto_state) outcome" where
  "rec_get maxsize buf f g = rec_get_raw maxsize REC_FLAG_DEFAULT buf f g"

section \<open>Reading makes progress\<close>

text \<open>
  A record that is returned, or skipped, brings the end nearer: either the static state is reset for a
  new stream, or one of the backward jumps is used up, or a forward jump goes beyond all earlier
  ones, or the position advances.
\<close>

definition progress :: "((vfile \<times> goto_state) \<times> (vfile \<times> goto_state)) set" where
  "progress = inv_image (less_than <*lex*> less_than <*lex*> less_than <*lex*> less_than)
     (\<lambda>(f, g). (of_bool (saved_path g \<noteq> Some (f_path f)) :: nat, nat (REVERSE_JUMP_LIMIT + 1 - reverse_count g),
                nat (int (length (f_data f)) - saved_offset g), length (f_data f) - f_pos f))"

lemma wf_progress: "wf progress"
  by (auto simp: progress_def)

lemma progress_trans: "(a, b) \<in> progress \<Longrightarrow> (b, c) \<in> progress \<Longrightarrow> (a, c) \<in> progress"
  unfolding progress_def by (rule transD [OF trans_inv_image]) (auto intro: trans_lex_prod)

lemma getc_frame:
  "vstream_getc f = (Some c, f') \<Longrightarrow> f' = f\<lparr>f_pos := f_pos f + 1\<rparr> \<and> f_pos f < length (f_data f)"
  "vstream_getc f = (None, f') \<Longrightarrow> f' = f"
  by (auto simp: vstream_getc_def split: if_splits)

lemma get_len_frame: "rec_get_len shift len f = (r, f') \<Longrightarrow> \<exists>p. f' = f\<lparr>f_pos := p\<rparr> \<and> f_pos f \<le> p"
proof (induction shift len f arbitrary: r f' rule: rec_get_len.induct)
  case (1 shift len f)
  show ?case
  proof (cases "shift \<ge> 32 \<or> fst (vstream_getc f) = None")
    case True
    then have "f' = f" using "1.prems" getc_frame(2) [of f]
      by (subst (asm) rec_get_len.simps) (auto split: prod.splits if_splits option.splits)
    then show ?thesis by (intro exI [of _ "f_pos f"]) simp
  next
    case False
    then obtain c f1 where c: "vstream_getc f = (Some c, f1)" by (cases "vstream_getc f") auto
    then have f1: "f1 = f\<lparr>f_pos := f_pos f + 1\<rparr>" using getc_frame(1) by blast
    show ?thesis
    proof (cases "int (char_code c) AND 128 = 0")
      case True
      then have "f' = f1" using "1.prems" False c by (subst (asm) rec_get_len.simps) (auto simp: Let_def)
      then show ?thesis using f1 by auto
    next
      case more: False
      let ?len = "len OR to_int (push_bit shift (int (char_code c) AND 127))"
      have "rec_get_len (shift + 7) ?len f1 = (r, f')"
        using "1.prems" False c more by (subst (asm) rec_get_len.simps) (simp add: Let_def)
      then obtain p where "f' = f1\<lparr>f_pos := p\<rparr>" "f_pos f1 \<le> p"
        using "1.IH" [of "Some c" f1 c "int (char_code c)" ?len] False c more by auto
      then show ?thesis using f1 by auto
    qed
  qed
qed

lemma fread_frame: "vstream_fread n f = (data, f') \<Longrightarrow> f' = f\<lparr>f_pos := f_pos f + length data\<rparr>"
  by (auto simp: vstream_fread_def Let_def)

lemma read_one_frame:
  assumes "rec_read_one maxsize buf f = (type, buf', f')" "type \<ge> 0"
  obtains p where "f' = f\<lparr>f_pos := p\<rparr>" "f_pos f < p" "f_pos f < length (f_data f)"
proof -
  obtain c f1 where c: "vstream_getc f = (Some c, f1)"
    using assms by (cases "vstream_getc f") (auto simp: rec_read_one_def REC_TYPE_EOF_def split: option.splits)
  obtain r f2 where r: "rec_get_len 0 0 f1 = (r, f2)" by fastforce
  then obtain p where p: "f2 = f1\<lparr>f_pos := p\<rparr>" "f_pos f1 \<le> p" using get_len_frame by blast
  obtain len where len: "r = Some len" "\<not> (len < 0 \<or> maxsize > 0 \<and> len > maxsize)"
    using assms c r by (auto simp: rec_read_one_def REC_TYPE_ERROR_def split: option.splits if_splits)
  obtain data f3 where d: "vstream_fread (nat len) f2 = (data, f3)" by fastforce
  have "f' = f3" using assms c r len d by (auto simp: rec_read_one_def Let_def split: if_splits)
  then show thesis using that [of "p + length data"] fread_frame [OF d] p getc_frame(1) [OF c] by simp
qed

lemma goto_progress:
  assumes "rec_goto (f\<lparr>f_pos := p\<rparr>) buf g = (r, f', g')" "r \<noteq> REC_TYPE_ERROR"
    and "f_pos f < p" "f_pos f < length (f_data f)"
  shows "((f', g'), (f, g)) \<in> progress"
proof (cases "saved_path g = Some (f_path f)")
  case True
  then have g: "switch_stream (f\<lparr>f_pos := p\<rparr>) g = g" by (simp add: switch_stream_def)
  consider (dummy) "f' = f\<lparr>f_pos := p\<rparr>" "g' = g"
    | (backward) n where "f' = f\<lparr>f_pos := n\<rparr>" "g' = g\<lparr>reverse_count := reverse_count g + 1, saved_offset := int n\<rparr>"
        "reverse_count g < REVERSE_JUMP_LIMIT"
    | (forward) n where "f' = f\<lparr>f_pos := n\<rparr>" "g' = g\<lparr>saved_offset := int n\<rparr>" "saved_offset g < int n"
    using assms(1,2) unfolding rec_goto_def Let_def g
    by (cases "off_cvt_string (dropWhile isspace buf) \<le> saved_offset g") (auto simp: vstream_fseek_def split: if_splits)
  then show ?thesis
  proof cases
    case dummy
    then show ?thesis using assms(3,4) True by (auto simp: progress_def)
  next
    case backward
    then show ?thesis using True by (auto simp: progress_def)
  next
    case forward
    then show ?thesis using assms(3,4) True by (auto simp: progress_def)
  qed
next
  case False
  then have "saved_path g' = Some (f_path f)" "f_path f' = f_path f"
    using assms(1) by (auto simp: rec_goto_def Let_def switch_stream_def vstream_fseek_def split: if_splits)
  then show ?thesis using False by (auto simp: progress_def)
qed

lemma pos_progress:
  "f_pos f < p \<Longrightarrow> f_pos f < length (f_data f) \<Longrightarrow> ((f\<lparr>f_pos := p\<rparr>, g), (f, g)) \<in> progress"
  by (auto simp: progress_def)

lemma get_loop_returns:
  "\<exists>r. rec_get_loop maxsize flags buf f g = Some r
       \<and> (case r of (type, buf', f', g') \<Rightarrow> type \<ge> 0 \<longrightarrow> ((f', g'), (f, g)) \<in> progress)"
  (is "\<exists>r. _ \<and> ?ok r f g")
proof (induction "(f, g)" arbitrary: f g buf rule: wf_induct_rule [OF wf_progress])
  case 1
  obtain type buf1 f1 where one: "rec_read_one maxsize buf f = (type, buf1, f1)" by (metis prod_cases3)
  show ?case
  proof (cases "type < 0")
    case True
    then show ?thesis by (subst rec_get_loop.simps) (simp add: one)
  next
    case False
    then obtain p where p: "f1 = f\<lparr>f_pos := p\<rparr>" "f_pos f < p" "f_pos f < length (f_data f)"
      using read_one_frame [OF one] by (metis linorder_not_less)
    have pos: "((f1, g), (f, g)) \<in> progress" using p pos_progress by simp
    have again: "\<exists>r. rec_get_loop maxsize flags buf1 f' g' = Some r \<and> ?ok r f g" if "((f', g'), (f, g)) \<in> progress" for f' g'
      using 1 [OF that, of buf1] progress_trans [OF _ that] by (auto split: prod.splits)
    obtain r f2 g2 where goto: "rec_goto f1 buf1 g = (r, f2, g2)" by (metis prod_cases3)
    have jump: "r \<noteq> REC_TYPE_ERROR \<Longrightarrow> ((f2, g2), (f, g)) \<in> progress"
      using goto_progress [where f = f and p = p and r = r] goto p by simp
    have seek: "vstream_fseek (int (length (f_data f1))) f1 = (b, f3) \<Longrightarrow> ((f3, g), (f, g)) \<in> progress" for b f3
      using p pos by (auto simp: vstream_fseek_def progress_def split: if_splits)
    have err: "r = REC_TYPE_ERROR \<Longrightarrow> r < 0" by (simp add: REC_TYPE_ERROR_def)
    show ?thesis
      by (subst rec_get_loop.simps)
        (use False one pos again [OF pos] again [OF jump] goto err seek in
          \<open>auto simp: REC_TYPE_ERROR_def split: prod.splits bool.splits\<close>)
  qed
qed

text \<open>
  A reader of a whole file, as in the daemons and the \<^verbatim>\<open>postcat\<close> command: get records until the end of
  the file or an error. The result is the list of records, and what ended it.
\<close>

partial_function (option) rec_read_all :: "int \<Rightarrow> string \<Rightarrow> vfile \<Rightarrow> goto_state \<Rightarrow> ((int \<times> string) list \<times> int) option" where
  "rec_read_all maxsize buf f g =
     (case rec_get maxsize buf f g of
        Ret (type, buf, f, g) \<Rightarrow>
          if type < 0 then Some ([], type)
          else Option.bind (rec_read_all maxsize buf f g) (\<lambda>(recs, final). Some ((type, buf) # recs, final))
      | _ \<Rightarrow> None)"

lemma read_all_returns:
  assumes "maxsize \<ge> 0"
  shows "\<exists>recs final. rec_read_all maxsize buf f g = Some (recs, final) \<and> final < 0"
proof (induction "(f, g)" arbitrary: f g buf rule: wf_induct_rule [OF wf_progress])
  case 1
  obtain type buf' f' g' where r: "rec_get_loop maxsize REC_FLAG_DEFAULT buf f g = Some (type, buf', f', g')"
    "type \<ge> 0 \<Longrightarrow> ((f', g'), (f, g)) \<in> progress"
    using get_loop_returns [of maxsize REC_FLAG_DEFAULT buf f g] by (auto split: prod.splits)
  then have "rec_get maxsize buf f g = Ret (type, buf', f', g')" using assms by (simp add: rec_get_def rec_get_raw_def)
  then show ?case
    using 1 [of f' g' buf'] r(2) by (subst rec_read_all.simps) (cases "type < 0"; auto)
qed

section \<open>Reading back what was written\<close>

lemma and_127: "x AND 127 = x mod 128" for x :: nat
proof -
  have "x AND 127 = take_bit 7 x" by (simp add: take_bit_eq_mask mask_eq_exp_minus_1)
  then show ?thesis by (simp add: take_bit_eq_mod)
qed

lemma and_127_int: "x AND 127 = x mod 128" for x :: int
proof -
  have "x AND 127 = take_bit 7 x" by (simp add: take_bit_eq_mask mask_eq_exp_minus_1)
  then show ?thesis by (simp add: take_bit_eq_mod)
qed

lemma and_128: "x AND 128 = 0 \<longleftrightarrow> even (x div 128)" for x :: int
  using and_exp_eq_0_iff_not_bit [of x 7] by (simp add: bit_iff_odd)

lemma or_128: "k < 128 \<Longrightarrow> k OR 128 = k + (128 :: nat)"
proof -
  assume k: "k < 128"
  have "\<not> bit k n \<or> \<not> bit (128 :: nat) n" for n
  proof (cases "n = 7")
    case True
    then show ?thesis using k by (simp add: bit_iff_odd)
  next
    case False
    have "(128 :: nat) = 2 ^ 7" by simp
    then show ?thesis using False by (metis bit_exp_iff)
  qed
  then show ?thesis by (simp add: disjunctive_add)
qed

lemma len_byte_last: "m < 128 \<Longrightarrow> rec_len_bytes m = [char_of m]"
  by (subst rec_len_bytes.simps) (simp add: Let_def and_127 drop_bit_eq_div)

lemma len_byte_more: "128 \<le> m \<Longrightarrow> rec_len_bytes m = char_of (m mod 128 + 128) # rec_len_bytes (m div 128)"
  by (subst rec_len_bytes.simps) (simp add: Let_def and_127 drop_bit_eq_div or_128)

lemma add_shifted: "0 \<le> len \<Longrightarrow> len < 2 ^ shift \<Longrightarrow> len OR push_bit shift k = len + push_bit shift k" for len k :: int
proof -
  assume "0 \<le> len" "len < 2 ^ shift"
  then have "take_bit shift len = len" by (simp add: take_bit_int_eq_self)
  then have "\<not> bit len n \<or> \<not> bit (push_bit shift k) n" for n
    by (metis bit_push_bit_iff bit_take_bit_iff linorder_not_less)
  then show ?thesis by (simp add: disjunctive_add)
qed

lemma getc_at: "f_data f = pre @ c # post \<Longrightarrow> f_pos f = length pre \<Longrightarrow> vstream_getc f = (Some c, f\<lparr>f_pos := f_pos f + 1\<rparr>)"
  by (simp add: vstream_getc_def)

lemma get_len_bytes:
  assumes "f_data f = pre @ rec_len_bytes m @ post" "f_pos f = length pre"
    and "0 \<le> len" "len < 2 ^ shift" "int m * 2 ^ shift + len < 2147483648" "shift < 32"
  shows "rec_get_len shift len f = (Some (int m * 2 ^ shift + len), f\<lparr>f_pos := length (pre @ rec_len_bytes m)\<rparr>)"
  using assms
proof (induction m arbitrary: f pre shift len rule: rec_len_bytes.induct)
  case (1 m)
  let ?k = "int (m mod 128)"
  have "?k * 2 ^ shift \<le> int m * 2 ^ shift" by (intro mult_right_mono) simp_all
  moreover have "0 \<le> ?k * 2 ^ shift" by simp
  moreover have "int m * 2 ^ shift < 2147483648" using "1.prems"(3,5) by linarith
  ultimately have fits: "to_int (push_bit shift ?k) = push_bit shift ?k"
    unfolding to_int_eq_iff fits_int_def INT_MIN_def INT_MAX_def push_bit_eq_mult by linarith
  note add = add_shifted [OF "1.prems"(3,4), of ?k]
  show ?case
  proof (cases "m < 128")
    case True
    then have "vstream_getc f = (Some (char_of m), f\<lparr>f_pos := f_pos f + 1\<rparr>)"
      using "1.prems" by (intro getc_at [of f pre _ post]) (simp_all add: len_byte_last)
    then show ?thesis
      using "1.prems" True fits add
      by (subst rec_get_len.simps) (simp add: Let_def and_127_int and_128 len_byte_last push_bit_eq_mult of_nat_mod)
  next
    case False
    let ?c = "char_of (m mod 128 + 128) :: char" and ?len = "len + ?k * 2 ^ shift"
    let ?f = "f\<lparr>f_pos := f_pos f + 1\<rparr>"
    have "int m = 128 * int (m div 128) + ?k" by (simp add: zdiv_int zmod_int)
    then have split: "int m * 2 ^ shift + len = int (m div 128) * 2 ^ (shift + 7) + ?len"
      by (simp add: power_add algebra_simps)
    have getc: "vstream_getc f = (Some ?c, ?f)"
      using "1.prems" False by (intro getc_at [of f pre _ "rec_len_bytes (m div 128) @ post"]) (simp_all add: len_byte_more)
    have "shift + 7 < 32"
    proof (rule ccontr)
      assume "\<not> shift + 7 < 32"
      then have "(2 :: int) ^ 25 \<le> 2 ^ shift" by (intro power_increasing) simp_all
      moreover have "128 * 2 ^ shift \<le> int m * 2 ^ shift" using False by (intro mult_right_mono) simp_all
      ultimately show False using "1.prems"(3,5) by simp
    qed
    moreover have "0 \<le> ?len" "?len < 2 ^ (shift + 7)"
    proof -
      have "?k * 2 ^ shift \<le> 127 * 2 ^ shift" by (intro mult_right_mono) auto
      moreover have "(2 :: int) ^ (shift + 7) = 128 * 2 ^ shift" by (simp add: power_add)
      ultimately show "?len < 2 ^ (shift + 7)" using "1.prems"(4) by linarith
      show "0 \<le> ?len" using "1.prems"(3) by simp
    qed
    moreover have "128 \<le> m" "drop_bit 7 m \<noteq> 0" using False by (simp_all add: drop_bit_eq_div)
    ultimately have rest: "rec_get_len (shift + 7) ?len ?f
        = (Some (int (m div 128) * 2 ^ (shift + 7) + ?len), ?f\<lparr>f_pos := length ((pre @ [?c]) @ rec_len_bytes (m div 128))\<rparr>)"
      using "1.IH" [OF refl refl, of ?f "pre @ [?c]" ?len "shift + 7"] "1.prems"(1,2,5) split
      by (simp add: len_byte_more drop_bit_eq_div)
    have "len OR to_int (push_bit shift (int (char_code ?c) AND 127)) = ?len" "int (char_code ?c) AND 128 \<noteq> 0"
      using add fits by (simp_all add: and_127_int and_128 push_bit_eq_mult of_nat_mod)
    then show ?thesis
      using rest split "1.prems"(6) False
      by (subst rec_get_len.simps) (simp add: Let_def getc len_byte_more)
  qed
qed

lemma fwrite_append:
  assumes "f_pos f = length (f_data f)" "length (f_data f) + length cs \<le> f_limit f"
  shows "vstream_fwrite cs f = (True, f\<lparr>f_data := f_data f @ cs, f_pos := length (f_data f @ cs)\<rparr>)"
  using assms
proof (induction cs arbitrary: f)
  case (Cons c cs)
  then show ?case using Cons.IH [of "f\<lparr>f_data := f_data f @ [c], f_pos := f_pos f + 1\<rparr>"]
    by (simp add: vstream_putc_def Let_def)
qed simp

text \<open>The bytes of a record.\<close>

definition rec_bytes :: "int \<Rightarrow> string \<Rightarrow> string" where
  "rec_bytes type data = char_of (nat type) # rec_len_bytes (length data) @ data"

lemma rec_put_append:
  assumes "0 \<le> type" "type \<le> 255" "f_pos f = length (f_data f)"
    and "length (f_data f) + length (rec_bytes type data) \<le> f_limit f"
  shows "rec_put type data f
    = Ret (type, f\<lparr>f_data := f_data f @ rec_bytes type data, f_pos := length (f_data f @ rec_bytes type data)\<rparr>)"
proof -
  let ?head = "char_of (nat type) # rec_len_bytes (length data)"
  let ?f = "f\<lparr>f_data := f_data f @ ?head, f_pos := length (f_data f @ ?head)\<rparr>"
  have "vstream_fwrite ?head f = (True, ?f)"
    using assms by (intro fwrite_append) (simp_all add: rec_bytes_def)
  moreover have "vstream_fwrite data ?f = (True, ?f\<lparr>f_data := f_data ?f @ data, f_pos := length (f_data ?f @ data)\<rparr>)"
    using assms by (intro fwrite_append) (simp_all add: rec_bytes_def)
  ultimately show ?thesis using assms(1,2) by (simp add: rec_put_def rec_bytes_def)
qed

lemma read_one_bytes:
  assumes "f_data f = pre @ rec_bytes type data @ post" "f_pos f = length pre"
    and "0 \<le> type" "type \<le> 255" "int (length data) < 2147483648" "maxsize \<le> 0 \<or> int (length data) \<le> maxsize"
  shows "rec_read_one maxsize buf f = (type, data, f\<lparr>f_pos := length (pre @ rec_bytes type data)\<rparr>)"
proof -
  let ?c = "char_of (nat type) :: char"
  let ?f = "f\<lparr>f_pos := f_pos f + 1\<rparr>"
  have "vstream_getc f = (Some ?c, ?f)"
    using assms(1,2) by (intro getc_at [of f pre _ "rec_len_bytes (length data) @ data @ post"]) (simp_all add: rec_bytes_def)
  moreover have "rec_get_len 0 0 ?f = (Some (int (length data)), ?f\<lparr>f_pos := length ((pre @ [?c]) @ rec_len_bytes (length data))\<rparr>)"
    using get_len_bytes [of ?f "pre @ [?c]" "length data" "data @ post" 0 0] assms by (simp add: rec_bytes_def)
  moreover have "drop (Suc (length pre + length (rec_len_bytes (length data)))) (f_data f) = data @ post"
    using assms(1) by (simp add: rec_bytes_def)
  ultimately show ?thesis
    using assms(3-6) by (auto simp: rec_read_one_def vstream_fread_def rec_bytes_def Let_def)
qed

lemma len_count: "rec_len_count n = length (rec_len_bytes n)"
  by (induction n rule: rec_len_bytes.induct) (subst rec_len_bytes.simps, subst rec_len_count.simps, simp add: Let_def)

lemma len_bytes_small: "n < 128 \<Longrightarrow> length (rec_len_bytes n) = 1"
  by (simp add: len_byte_last)

lemma len_bytes_large: "128 \<le> n \<Longrightarrow> length (rec_len_bytes n) \<ge> 2"
  using len_byte_more [of n] by (cases "rec_len_bytes (n div 128)") (auto simp: rec_len_bytes.simps [of "n div 128"] Let_def split: if_splits)

lemma rec_bytes_length: "length (rec_bytes type data) = REC_SPACE_NEED (length data)"
  by (simp add: rec_bytes_def REC_SPACE_NEED_def len_count)

section \<open>Properties\<close>



text \<open>
  C30: A record that was appended with \<^verbatim>\<open>rec_put()\<close> occupies the space that
  \<^verbatim>\<open>REC_SPACE_NEED()\<close> computes, and reading at its place returns its type and data and leaves
  the position behind it, provided that the length fits in 31 bits.
\<close>

theorem record_roundtrip:
  assumes "0 \<le> type" "type \<le> 255" "f_pos f = length (f_data f)"
    and "length (f_data f) + REC_SPACE_NEED (length data) \<le> f_limit f"
    and "int (length data) < 2147483648" "maxsize = 0 \<or> int (length data) \<le> maxsize" "0 \<le> maxsize"
  shows "\<exists>f'. rec_put type data f = Ret (type, f')
    \<and> length (f_data f') = length (f_data f) + REC_SPACE_NEED (length data)
    \<and> rec_get_raw maxsize 0 buf (f'\<lparr>f_pos := length (f_data f)\<rparr>) g = Ret (type, data, f', g)"
proof -
  let ?f = "f\<lparr>f_data := f_data f @ rec_bytes type data, f_pos := length (f_data f @ rec_bytes type data)\<rparr>"
  have "rec_put type data f = Ret (type, ?f)" using assms by (intro rec_put_append) (simp_all add: rec_bytes_length)
  moreover have "rec_read_one maxsize buf (?f\<lparr>f_pos := length (f_data f)\<rparr>)
      = (type, data, (?f\<lparr>f_pos := length (f_data f)\<rparr>)\<lparr>f_pos := length (f_data f @ rec_bytes type data)\<rparr>)"
    using assms by (intro read_one_bytes [where post = "[]"]) auto
  then have "rec_get_raw maxsize 0 buf (?f\<lparr>f_pos := length (f_data f)\<rparr>) g = Ret (type, data, ?f, g)"
    using assms(7) by (simp add: rec_get_raw_def rec_get_loop.simps)
  ultimately show ?thesis by (auto simp: rec_bytes_length)
qed

theorem record_roundtrip_witness:
  "\<exists>f'. rec_put 78 ''hello'' \<lparr>f_data = [], f_pos = 0, f_limit = 100, f_seekable = True, f_path = 0\<rparr> = Ret (78, f')
    \<and> length (f_data f') = 0 + REC_SPACE_NEED (length ''hello'')
    \<and> rec_get_raw 0 0 [] (f'\<lparr>f_pos := 0\<rparr>) \<lparr>saved_path = None, saved_offset = 0, reverse_count = 0\<rparr>
      = Ret (78, ''hello'', f', \<lparr>saved_path = None, saved_offset = 0, reverse_count = 0\<rparr>)"
  using record_roundtrip [of 78 "\<lparr>f_data = [], f_pos = 0, f_limit = 100, f_seekable = True, f_path = 0\<rparr>" "''hello''" 0 "[]"
      "\<lparr>saved_path = None, saved_offset = 0, reverse_count = 0\<rparr>"]
  by (simp add: REC_SPACE_NEED_def len_count len_bytes_small)

text \<open>
  A padding record occupies the requested space (of at least three bytes) when fewer than 130
  bytes are asked for; a larger one occupies more than that, because its length takes more than one byte.
\<close>

theorem rec_pad_size:
  assumes "0 \<le> type" "type \<le> 255" "f_pos f = length (f_data f)"
    and "length (f_data f) + REC_SPACE_NEED (nat len - 2) \<le> f_limit f" "3 \<le> len"
  shows "\<exists>f' n. rec_pad type len f = Ret (type, f') \<and> length (f_data f') = length (f_data f) + n
    \<and> (if len < 130 then int n = len else int n > len)"
proof -
  let ?data = "replicate (nat (len - 2) - 1) (CHR '' '') @ ''0''"
  let ?f = "f\<lparr>f_data := f_data f @ rec_bytes type ?data, f_pos := length (f_data f @ rec_bytes type ?data)\<rparr>"
  have w: "length ?data = nat len - 2" using assms(5) by simp
  have "rec_put type ?data f = Ret (type, ?f)"
    using assms w by (intro rec_put_append) (simp_all only: rec_bytes_length)
  then have "rec_pad type len f = Ret (type, ?f)" using assms(5) by (simp add: rec_pad_def Let_def)
  moreover have "if len < 130 then int (length (rec_bytes type ?data)) = len else int (length (rec_bytes type ?data)) > len"
  proof (cases "len < 130")
    case True
    then have "length (rec_len_bytes (nat len - 2)) = 1" using assms(5) by (intro len_bytes_small) linarith
    then show ?thesis unfolding rec_bytes_length w REC_SPACE_NEED_def len_count using True assms(5) by simp
  next
    case False
    then have "length (rec_len_bytes (nat len - 2)) \<ge> 2" by (intro len_bytes_large) linarith
    then show ?thesis unfolding rec_bytes_length w REC_SPACE_NEED_def len_count using False by simp
  qed
  ultimately show ?thesis by fastforce
qed

theorem rec_pad_size_witness:
  "\<exists>f' n. rec_pad 119 130 \<lparr>f_data = [], f_pos = 0, f_limit = 1000, f_seekable = True, f_path = 0\<rparr> = Ret (119, f')
     \<and> length (f_data f') = length (f_data \<lparr>f_data = [], f_pos = 0, f_limit = 1000, f_seekable = True, f_path = 0\<rparr>) + n
     \<and> (if 130 < (130 :: int) then int n = 130 else int n > 130)"
  by (rule rec_pad_size) (simp_all add: REC_SPACE_NEED_def rec_len_count.simps drop_bit_eq_div)

text \<open>
  Changing the type of a record in place, as is done to mark a recipient as delivered, changes
  nothing else in the file.
\<close>

theorem rec_put_type_in_place:
  assumes "f_data f = pre @ rec_bytes type data @ post" "0 \<le> type'" "type' \<le> 255"
    and "f_seekable f" "length pre < f_limit f"
  shows "rec_put_type type' (int (length pre)) f
    = Ret (type', f\<lparr>f_data := pre @ rec_bytes type' data @ post, f_pos := length pre + 1\<rparr>)"
  using assms by (simp add: rec_put_type_def vstream_fseek_def vstream_putc_def rec_bytes_def Let_def)

theorem rec_put_type_in_place_witness:
  "rec_put_type 68 (int (length ''xy'')) \<lparr>f_data = ''xy'' @ rec_bytes 82 ''u'' @ [], f_pos = 0, f_limit = 9, f_seekable = True, f_path = 0\<rparr>
    = Ret (68, \<lparr>f_data = ''xy'' @ rec_bytes 68 ''u'' @ [], f_pos = 3, f_limit = 9, f_seekable = True, f_path = 0\<rparr>)"
  using rec_put_type_in_place [of "\<lparr>f_data = ''xy'' @ rec_bytes 82 ''u'' @ [], f_pos = 0, f_limit = 9, f_seekable = True, f_path = 0\<rparr>"
      "''xy''" 82 "''u''" "[]" 68] by simp

end
