(* ===== verification/Events.thy ===== *)
theory Events
  imports Postfix_Prelude "HOL-Library.Word"
begin

text \<open>
  The event manager (\<^verbatim>\<open>src/src/util/events.c\<close>), in its version for kernel-based event filters:
  timer requests in a queue that is sorted by time, and read/write requests in bit masks and a table
  of call-back functions. The operating system is a parameter: the clock, the limit on open files, the
  success of filter updates, and the descriptors that are ready. Call-back functions are a parameter
  too: given the state of the event manager and of the application, a call-back yields the new state of
  the application and the requests that it makes. Accesses to the masks and to the table
  have a bounds check here, whose failure is a panic.
\<close>

unbundle bit_operations_syntax

section \<open>Bit masks of descriptors\<close>

type_synonym event_mask = "8 word list"

definition EVENT_MASK_NBBY :: nat where "EVENT_MASK_NBBY = 8"

definition EVENT_MASK_FD_BYTE :: "nat \<Rightarrow> event_mask \<Rightarrow> 8 word" where
  "EVENT_MASK_FD_BYTE fd msk = msk ! (fd div EVENT_MASK_NBBY)"

definition EVENT_MASK_FD_BIT :: "nat \<Rightarrow> 8 word" where
  "EVENT_MASK_FD_BIT fd = push_bit (fd mod EVENT_MASK_NBBY) 1"

definition EVENT_MASK_BYTES_NEEDED :: "nat \<Rightarrow> nat" where
  "EVENT_MASK_BYTES_NEEDED len = (len + (EVENT_MASK_NBBY - 1)) div EVENT_MASK_NBBY"

definition EVENT_MASK_ALLOC :: "nat \<Rightarrow> event_mask" where
  "EVENT_MASK_ALLOC bit_len = replicate (EVENT_MASK_BYTES_NEEDED bit_len) 0"

definition EVENT_MASK_REALLOC :: "event_mask \<Rightarrow> nat \<Rightarrow> event_mask" where
  "EVENT_MASK_REALLOC msk bit_len =
     (let byte_len = EVENT_MASK_BYTES_NEEDED bit_len
      in take byte_len msk @ replicate (byte_len - length msk) 0)"

definition EVENT_MASK_SET :: "nat \<Rightarrow> event_mask \<Rightarrow> event_mask" where
  "EVENT_MASK_SET fd msk =
     msk[fd div EVENT_MASK_NBBY := EVENT_MASK_FD_BYTE fd msk OR EVENT_MASK_FD_BIT fd]"

definition EVENT_MASK_ISSET :: "nat \<Rightarrow> event_mask \<Rightarrow> bool" where
  "EVENT_MASK_ISSET fd msk \<longleftrightarrow> EVENT_MASK_FD_BYTE fd msk AND EVENT_MASK_FD_BIT fd \<noteq> 0"

definition EVENT_MASK_CLR :: "nat \<Rightarrow> event_mask \<Rightarrow> event_mask" where
  "EVENT_MASK_CLR fd msk =
     msk[fd div EVENT_MASK_NBBY := EVENT_MASK_FD_BYTE fd msk AND NOT (EVENT_MASK_FD_BIT fd)]"

text \<open>The set that a mask stands for.\<close>

definition mask_set :: "event_mask \<Rightarrow> nat set" where
  "mask_set msk = {fd. fd div 8 < length msk \<and> bit (msk ! (fd div 8)) (fd mod 8)}"

lemma isset_bit: "EVENT_MASK_ISSET fd msk \<longleftrightarrow> bit (msk ! (fd div 8)) (fd mod 8)"
proof -
  have "EVENT_MASK_FD_BIT fd = 2 ^ (fd mod 8)"
    by (simp add: EVENT_MASK_FD_BIT_def EVENT_MASK_NBBY_def push_bit_eq_mult)
  then show ?thesis
    using and_exp_eq_0_iff_not_bit [of "msk ! (fd div 8)" "fd mod 8"]
    by (simp add: EVENT_MASK_ISSET_def EVENT_MASK_FD_BYTE_def EVENT_MASK_NBBY_def)
qed

lemma isset_iff: "fd div 8 < length msk \<Longrightarrow> EVENT_MASK_ISSET fd msk \<longleftrightarrow> fd \<in> mask_set msk"
  by (simp add: isset_bit mask_set_def)

lemma bit_fd_bit: "bit (EVENT_MASK_FD_BIT fd) n \<longleftrightarrow> n = fd mod 8"
  by (auto simp: EVENT_MASK_FD_BIT_def EVENT_MASK_NBBY_def bit_exp_iff push_bit_eq_mult possible_bit_def)

lemma same_fd: "fd div 8 = fd' div 8 \<Longrightarrow> fd mod 8 = fd' mod 8 \<longleftrightarrow> fd = fd'" for fd fd' :: nat
  by (metis div_mult_mod_eq)

lemma set_mask:
  assumes "fd div 8 < length msk"
  shows "mask_set (EVENT_MASK_SET fd msk) = insert fd (mask_set msk)"
proof (rule set_eqI)
  fix x
  show "x \<in> mask_set (EVENT_MASK_SET fd msk) \<longleftrightarrow> x \<in> insert fd (mask_set msk)"
    using assms same_fd [of x fd] unfolding mask_set_def EVENT_MASK_SET_def EVENT_MASK_FD_BYTE_def EVENT_MASK_NBBY_def
    by (cases "x div 8 = fd div 8") (auto simp: bit_or_iff bit_fd_bit)
qed

lemma clr_mask:
  assumes "fd div 8 < length msk"
  shows "mask_set (EVENT_MASK_CLR fd msk) = mask_set msk - {fd}"
proof (rule set_eqI)
  fix x
  show "x \<in> mask_set (EVENT_MASK_CLR fd msk) \<longleftrightarrow> x \<in> mask_set msk - {fd}"
    using assms same_fd [of x fd] unfolding mask_set_def EVENT_MASK_CLR_def EVENT_MASK_FD_BYTE_def EVENT_MASK_NBBY_def
    by (cases "x div 8 = fd div 8") (auto simp: bit_and_iff bit_not_iff bit_fd_bit)
qed

lemma mask_length [simp]:
  "length (EVENT_MASK_SET fd msk) = length msk" "length (EVENT_MASK_CLR fd msk) = length msk"
  by (simp_all add: EVENT_MASK_SET_def EVENT_MASK_CLR_def)

lemma alloc_mask [simp]: "mask_set (EVENT_MASK_ALLOC n) = {}" "length (EVENT_MASK_ALLOC n) = EVENT_MASK_BYTES_NEEDED n"
  by (auto simp: mask_set_def EVENT_MASK_ALLOC_def)

lemma realloc_mask:
  assumes "length msk \<le> EVENT_MASK_BYTES_NEEDED n"
  shows "mask_set (EVENT_MASK_REALLOC msk n) = mask_set msk" "length (EVENT_MASK_REALLOC msk n) = EVENT_MASK_BYTES_NEEDED n"
proof -
  have *: "EVENT_MASK_REALLOC msk n = msk @ replicate (EVENT_MASK_BYTES_NEEDED n - length msk) 0"
    using assms by (simp add: EVENT_MASK_REALLOC_def Let_def)
  show "length (EVENT_MASK_REALLOC msk n) = EVENT_MASK_BYTES_NEEDED n" using assms by (simp add: *)
  show "mask_set (EVENT_MASK_REALLOC msk n) = mask_set msk"
  proof (rule set_eqI)
    fix x
    show "x \<in> mask_set (EVENT_MASK_REALLOC msk n) \<longleftrightarrow> x \<in> mask_set msk"
      by (cases "x div 8 < length msk") (auto simp: mask_set_def * nth_append)
  qed
qed

lemma bytes_needed: "fd < n \<Longrightarrow> fd div 8 < EVENT_MASK_BYTES_NEEDED n"
  unfolding EVENT_MASK_BYTES_NEEDED_def EVENT_MASK_NBBY_def by simp

section \<open>State\<close>

text \<open>A timer is identified by its call-back function and context, together the key.\<close>

record 'k ev_timer =
  tm_when :: int
  tm_key :: 'k
  tm_instance :: int

record ('k, 'c) events =
  event_present :: int
  event_timers :: "'k ev_timer list"
  event_loop_instance :: int
  event_rmask :: event_mask
  event_wmask :: event_mask
  event_xmask :: event_mask
  event_fdlimit :: int
  event_fdtable :: "'c option list"
  event_fdslots :: nat
  event_max_fd :: int
  event_nested :: int

text \<open>What a call sees of the operating system.\<close>

datatype filter_op = Reg_init | Reg_add_read | Reg_add_write | Reg_del

record ev_env =
  env_time :: int
  env_open_limit :: int
  env_reg :: "filter_op \<Rightarrow> bool"

definition EVENT_ALLOC_INCR :: nat where "EVENT_ALLOC_INCR = 10"

definition EVENT_INIT_NEEDED :: "('k, 'c) events \<Rightarrow> bool" where
  "EVENT_INIT_NEEDED s \<longleftrightarrow> event_present s = 0"

section \<open>Operations\<close>

definition event_init :: "ev_env \<Rightarrow> ('k, 'c) events \<Rightarrow> ('k, 'c) events outcome" where
  "event_init env s =
     (if \<not> EVENT_INIT_NEEDED s then Panic ''event_init''
      else if env_open_limit env < 0 then Panic ''event_init''
      else if \<not> env_reg env Reg_init then Panic ''event_init''
      else
        let m = EVENT_MASK_ALLOC EVENT_ALLOC_INCR;
            s = s\<lparr>event_fdlimit := env_open_limit env, event_fdslots := EVENT_ALLOC_INCR,
                  event_fdtable := replicate EVENT_ALLOC_INCR None,
                  event_rmask := m, event_wmask := m, event_xmask := m,
                  event_timers := [], event_present := env_time env\<rparr>
        in if EVENT_INIT_NEEDED s then Panic ''event_init'' else Ret s)"

definition init_if_needed :: "ev_env \<Rightarrow> ('k, 'c) events \<Rightarrow> ('k, 'c) events outcome" where
  "init_if_needed env s = (if EVENT_INIT_NEEDED s then event_init env s else Ret s)"

definition event_extend :: "nat \<Rightarrow> ('k, 'c) events \<Rightarrow> ('k, 'c) events" where
  "event_extend fd s =
     (let old_slots = event_fdslots s;
          new_slots = (if event_fdslots s > fd div 2 then 2 * old_slots else fd + EVENT_ALLOC_INCR)
      in s\<lparr>event_fdtable := take new_slots (event_fdtable s) @ replicate (new_slots - old_slots) None,
           event_fdslots := new_slots,
           event_rmask := EVENT_MASK_REALLOC (event_rmask s) new_slots,
           event_wmask := EVENT_MASK_REALLOC (event_wmask s) new_slots,
           event_xmask := EVENT_MASK_REALLOC (event_xmask s) new_slots\<rparr>)"

text \<open>The descriptor is within the masks and the table.\<close>

definition fd_in_bounds :: "nat \<Rightarrow> ('k, 'c) events \<Rightarrow> bool" where
  "fd_in_bounds fd s \<longleftrightarrow> fd div 8 < length (event_rmask s) \<and> fd div 8 < length (event_wmask s)
     \<and> fd div 8 < length (event_xmask s) \<and> fd < length (event_fdtable s)"

definition event_enable_read :: "ev_env \<Rightarrow> int \<Rightarrow> 'c \<Rightarrow> ('k, 'c) events \<Rightarrow> ('k, 'c) events outcome" where
  "event_enable_read env fd callback s =
     obind (init_if_needed env s) (\<lambda>s.
       if fd < 0 \<or> fd \<ge> event_fdlimit s then Panic ''event_enable_read''
       else
         let n = nat fd; s = (if fd \<ge> int (event_fdslots s) then event_extend n s else s)
         in obind (oguard (fd_in_bounds n s) ''out of bounds'') (\<lambda>_.
            if EVENT_MASK_ISSET n (event_wmask s) then Panic ''event_enable_read''
            else obind
              (if \<not> EVENT_MASK_ISSET n (event_rmask s) then
                 let s = s\<lparr>event_xmask := EVENT_MASK_SET n (event_xmask s), event_rmask := EVENT_MASK_SET n (event_rmask s)\<rparr>;
                     s = (if event_max_fd s < fd then s\<lparr>event_max_fd := fd\<rparr> else s)
                 in if env_reg env Reg_add_read then Ret s else Panic ''event_enable_read''
               else Ret s)
              (\<lambda>s. Ret (s\<lparr>event_fdtable := (event_fdtable s)[n := Some callback]\<rparr>))))"

definition event_enable_write :: "ev_env \<Rightarrow> int \<Rightarrow> 'c \<Rightarrow> ('k, 'c) events \<Rightarrow> ('k, 'c) events outcome" where
  "event_enable_write env fd callback s =
     obind (init_if_needed env s) (\<lambda>s.
       if fd < 0 \<or> fd \<ge> event_fdlimit s then Panic ''event_enable_write''
       else
         let n = nat fd; s = (if fd \<ge> int (event_fdslots s) then event_extend n s else s)
         in obind (oguard (fd_in_bounds n s) ''out of bounds'') (\<lambda>_.
            if EVENT_MASK_ISSET n (event_rmask s) then Panic ''event_enable_write''
            else obind
              (if \<not> EVENT_MASK_ISSET n (event_wmask s) then
                 let s = s\<lparr>event_xmask := EVENT_MASK_SET n (event_xmask s), event_wmask := EVENT_MASK_SET n (event_wmask s)\<rparr>;
                     s = (if event_max_fd s < fd then s\<lparr>event_max_fd := fd\<rparr> else s)
                 in if env_reg env Reg_add_write then Ret s else Panic ''event_enable_write''
               else Ret s)
              (\<lambda>s. Ret (s\<lparr>event_fdtable := (event_fdtable s)[n := Some callback]\<rparr>))))"

definition event_disable_readwrite :: "ev_env \<Rightarrow> int \<Rightarrow> ('k, 'c) events \<Rightarrow> ('k, 'c) events outcome" where
  "event_disable_readwrite env fd s =
     obind (init_if_needed env s) (\<lambda>s.
       if fd < 0 \<or> fd \<ge> event_fdlimit s then Panic ''event_disable_readwrite''
       else if fd \<ge> int (event_fdslots s) then Ret s
       else
         let n = nat fd
         in obind (oguard (fd_in_bounds n s) ''out of bounds'') (\<lambda>_.
            if (EVENT_MASK_ISSET n (event_rmask s) \<or> EVENT_MASK_ISSET n (event_wmask s)) \<and> \<not> env_reg env Reg_del
            then Panic ''event_disable_readwrite''
            else Ret (s\<lparr>event_xmask := EVENT_MASK_CLR n (event_xmask s), event_rmask := EVENT_MASK_CLR n (event_rmask s),
                       event_wmask := EVENT_MASK_CLR n (event_wmask s),
                       event_fdtable := (event_fdtable s)[n := None]\<rparr>)))"

text \<open>
  Timer requests: an existing request with the same key is taken out of the queue; the request goes
  before the first one with a later time, that is, behind those for the same time.
\<close>

definition timer_remove :: "'k \<Rightarrow> 'k ev_timer list \<Rightarrow> 'k ev_timer list" where
  "timer_remove key ts =
     (case List.extract (\<lambda>t. tm_key t = key) ts of None \<Rightarrow> ts | Some (before, _, behind) \<Rightarrow> before @ behind)"

fun timer_insert :: "'k ev_timer \<Rightarrow> 'k ev_timer list \<Rightarrow> 'k ev_timer list" where
  "timer_insert t [] = [t]"
| "timer_insert t (x # xs) = (if tm_when t < tm_when x then t # x # xs else x # timer_insert t xs)"

definition event_request_timer :: "ev_env \<Rightarrow> 'k \<Rightarrow> int \<Rightarrow> ('k, 'c) events \<Rightarrow> (int \<times> ('k, 'c) events) outcome" where
  "event_request_timer env key delay s =
     obind (init_if_needed env s) (\<lambda>s.
       if delay < 0 then Panic ''event_request_timer''
       else
         let s = s\<lparr>event_present := env_time env\<rparr>;
             timer = \<lparr>tm_when = event_present s + delay, tm_key = key, tm_instance = event_loop_instance s\<rparr>
         in Ret (tm_when timer, s\<lparr>event_timers := timer_insert timer (timer_remove key (event_timers s))\<rparr>))"

text \<open>The result is the time that was left, or \<open>-1\<close> if there was no such request.\<close>

definition event_cancel_timer :: "ev_env \<Rightarrow> 'k \<Rightarrow> ('k, 'c) events \<Rightarrow> (int \<times> ('k, 'c) events) outcome" where
  "event_cancel_timer env key s =
     obind (init_if_needed env s) (\<lambda>s.
       case List.extract (\<lambda>t. tm_key t = key) (event_timers s) of
         None \<Rightarrow> Ret (-1, s)
       | Some (before, timer, behind) \<Rightarrow>
           Ret (if tm_when timer - event_present s < 0 then 0 else tm_when timer - event_present s,
                s\<lparr>event_timers := before @ behind\<rparr>))"

section \<open>Requests made by call-back functions\<close>

datatype ('k, 'c) ev_op =
    Op_request ev_env 'k int
  | Op_cancel ev_env 'k
  | Op_enable_read ev_env int 'c
  | Op_enable_write ev_env int 'c
  | Op_disable ev_env int

fun run_op :: "('k, 'c) ev_op \<Rightarrow> ('k, 'c) events \<Rightarrow> ('k, 'c) events outcome" where
  "run_op (Op_request env key delay) s = obind (event_request_timer env key delay s) (\<lambda>(_, s). Ret s)"
| "run_op (Op_cancel env key) s = obind (event_cancel_timer env key s) (\<lambda>(_, s). Ret s)"
| "run_op (Op_enable_read env fd callback) s = event_enable_read env fd callback s"
| "run_op (Op_enable_write env fd callback) s = event_enable_write env fd callback s"
| "run_op (Op_disable env fd) s = event_disable_readwrite env fd s"

fun run_ops :: "('k, 'c) ev_op list \<Rightarrow> ('k, 'c) events \<Rightarrow> ('k, 'c) events outcome" where
  "run_ops [] s = Ret s"
| "run_ops (oper # opers) s = obind (run_op oper s) (run_ops opers)"

section \<open>The event loop\<close>

text \<open>The requests that were not made by a call-back of the current call of the event loop.\<close>

definition old_timers :: "('k, 'c) events \<Rightarrow> 'k ev_timer list" where
  "old_timers s = filter (\<lambda>t. tm_instance t \<noteq> event_loop_instance s) (event_timers s)"

lemma extract_parts: "List.extract P xs = Some (as, x, bs) \<Longrightarrow> xs = as @ x # bs \<and> P x"
  by (auto simp: extract_Some_iff)

lemma filter_insert: "\<not> P t \<Longrightarrow> filter P (timer_insert t ts) = filter P ts"
  by (induction ts) auto

lemma filter_remove: "length (filter P (timer_remove key ts)) \<le> length (filter P ts)"
  by (auto simp: timer_remove_def split: option.splits dest!: extract_parts)

lemma event_init_frame:
  "event_init env s = Ret s' \<Longrightarrow> event_timers s' = [] \<and> event_loop_instance s' = event_loop_instance s"
  by (auto simp: event_init_def Let_def split: if_splits)

lemma init_frame:
  "init_if_needed env s = Ret s' \<Longrightarrow> (event_timers s' = [] \<or> event_timers s' = event_timers s) \<and> event_loop_instance s' = event_loop_instance s"
  by (auto simp: init_if_needed_def dest: event_init_frame split: if_splits)

lemma extend_frame [simp]:
  "event_timers (event_extend fd s) = event_timers s" "event_loop_instance (event_extend fd s) = event_loop_instance s"
  "event_present (event_extend fd s) = event_present s" "event_fdlimit (event_extend fd s) = event_fdlimit s"
  "event_max_fd (event_extend fd s) = event_max_fd s" "event_nested (event_extend fd s) = event_nested s"
  by (simp_all add: event_extend_def Let_def)

lemma enable_frame:
  "event_enable_read env fd c s = Ret s' \<Longrightarrow> (event_timers s' = [] \<or> event_timers s' = event_timers s) \<and> event_loop_instance s' = event_loop_instance s"
  "event_enable_write env fd c s = Ret s' \<Longrightarrow> (event_timers s' = [] \<or> event_timers s' = event_timers s) \<and> event_loop_instance s' = event_loop_instance s"
  "event_disable_readwrite env fd s = Ret s' \<Longrightarrow> (event_timers s' = [] \<or> event_timers s' = event_timers s) \<and> event_loop_instance s' = event_loop_instance s"
  by (auto simp: event_enable_read_def event_enable_write_def event_disable_readwrite_def Let_def dest!: init_frame split: if_splits)

lemma cancel_state:
  "event_cancel_timer env key s = Ret (l, s') \<Longrightarrow>
   \<exists>s1. init_if_needed env s = Ret s1 \<and> s' = s1\<lparr>event_timers := timer_remove key (event_timers s1)\<rparr>"
  by (auto simp: event_cancel_timer_def timer_remove_def split: option.splits)

lemma run_op_old:
  "run_op oper s = Ret s' \<Longrightarrow> event_loop_instance s' = event_loop_instance s \<and> length (old_timers s') \<le> length (old_timers s)"
proof (cases oper)
  case (Op_request env key delay)
  moreover assume "run_op oper s = Ret s'"
  ultimately obtain s1 where s1: "init_if_needed env s = Ret s1"
    and s': "s' = s1\<lparr>event_present := env_time env, event_timers := timer_insert
        \<lparr>tm_when = env_time env + delay, tm_key = key, tm_instance = event_loop_instance s1\<rparr> (timer_remove key (event_timers s1))\<rparr>"
    by (auto simp: event_request_timer_def Let_def split: if_splits)
  have "length (filter P (timer_remove key (event_timers s1))) \<le> length (filter P (event_timers s))" for P
    using init_frame [OF s1] filter_remove [of P key "event_timers s1"] by auto
  then show ?thesis using init_frame [OF s1] by (simp add: s' old_timers_def filter_insert)
next
  case (Op_cancel env key)
  moreover assume "run_op oper s = Ret s'"
  ultimately obtain s1 where s1: "init_if_needed env s = Ret s1" "s' = s1\<lparr>event_timers := timer_remove key (event_timers s1)\<rparr>"
    by (auto dest: cancel_state)
  have "length (filter P (timer_remove key (event_timers s1))) \<le> length (filter P (event_timers s))" for P
    using init_frame [OF s1(1)] filter_remove [of P key "event_timers s1"] by auto
  then show ?thesis using init_frame [OF s1(1)] by (simp add: s1 old_timers_def)
qed (auto simp: old_timers_def dest!: enable_frame)

lemma run_ops_old:
  "run_ops opers s = Ret s' \<Longrightarrow> event_loop_instance s' = event_loop_instance s \<and> length (old_timers s') \<le> length (old_timers s)"
proof (induction opers arbitrary: s)
  case (Cons oper opers)
  then obtain s1 where "run_op oper s = Ret s1" "run_ops opers s1 = Ret s'" by auto
  then show ?case using Cons.IH [of s1] run_op_old [of oper s s1] by auto
qed simp

lemma old_step:
  assumes "event_timers s = timer # rest" "tm_instance timer \<noteq> event_loop_instance s"
    and "run_ops opers (s\<lparr>event_timers := rest\<rparr>) = Ret s'"
  shows "length (old_timers s') < length (old_timers s)"
  using assms run_ops_old [OF assms(3)] by (auto simp: old_timers_def)

lemma obind_fundef_cong [fundef_cong]:
  "m = m' \<Longrightarrow> (\<And>x. m' = Ret x \<Longrightarrow> f x = f' x) \<Longrightarrow> obind m f = obind m' f'"
  by (cases m') auto

type_synonym ('k, 'c, 'a) timer_callback = "'k \<Rightarrow> ('k, 'c) events \<Rightarrow> 'a \<Rightarrow> 'a \<times> ('k, 'c) ev_op list"

text \<open>
  Deliver timer events. The loop looks up the first timer again after every call-back, and stops when it
  finds a request that was made during this call of the event loop. It ends because call-backs can
  only remove other requests, or make requests that are not delivered now.
\<close>

function event_timer_loop :: "('k, 'c, 'a) timer_callback \<Rightarrow> ('k, 'c) events \<Rightarrow> 'a \<Rightarrow> (('k, 'c) events \<times> 'a) outcome" where
  "event_timer_loop tcb s a =
     (case event_timers s of
        [] \<Rightarrow> Ret (s, a)
      | timer # rest \<Rightarrow>
          if tm_when timer > event_present s \<or> tm_instance timer = event_loop_instance s then Ret (s, a)
          else
            let s = s\<lparr>event_timers := rest\<rparr>; (a, opers) = tcb (tm_key timer) s a
            in obind (run_ops opers s) (\<lambda>s. event_timer_loop tcb s a))"
  by pat_completeness auto
termination
  by (relation "measure (\<lambda>(_, s, _). length (old_timers s))") (auto simp: old_step)

declare event_timer_loop.simps [simp del]

datatype ev_kind = EVENT_READ | EVENT_WRITE | EVENT_XCPT

type_synonym ('k, 'c, 'a) io_callback = "'c \<Rightarrow> ev_kind \<Rightarrow> ('k, 'c) events \<Rightarrow> 'a \<Rightarrow> 'a \<times> ('k, 'c) ev_op list"

text \<open>Deliver I/O events that are still wanted. An empty slot in the call-back table would be a null function pointer.\<close>

fun event_io_loop :: "('k, 'c, 'a) io_callback \<Rightarrow> (int \<times> ev_kind) list \<Rightarrow> ('k, 'c) events \<Rightarrow> 'a \<Rightarrow> (('k, 'c) events \<times> 'a) outcome" where
  "event_io_loop iocb [] s a = Ret (s, a)"
| "event_io_loop iocb ((fd, kind) # bps) s a =
     (if fd < 0 \<or> fd > event_max_fd s then Panic ''event_loop''
      else obind (oguard (fd_in_bounds (nat fd) s) ''out of bounds'') (\<lambda>_.
        if EVENT_MASK_ISSET (nat fd) (event_xmask s) then
          (case event_fdtable s ! nat fd of
             None \<Rightarrow> Panic ''null call-back''
           | Some callback \<Rightarrow>
               let (a, opers) = iocb callback kind s a
               in obind (run_ops opers s) (\<lambda>s. event_io_loop iocb bps s a))
        else event_io_loop iocb bps s a))"

text \<open>Waiting for events: the time when it ended and the descriptors that are ready, or a signal, or an error.\<close>

datatype wait_result = Ready int "(int \<times> ev_kind) list" | Interrupted | Failed

definition event_loop ::
  "ev_env \<Rightarrow> int \<Rightarrow> (int \<Rightarrow> wait_result) \<Rightarrow> ('k, 'c, 'a) timer_callback \<Rightarrow> ('k, 'c, 'a) io_callback
    \<Rightarrow> ('k, 'c) events \<Rightarrow> 'a \<Rightarrow> (('k, 'c) events \<times> 'a) outcome" where
  "event_loop env delay wait tcb iocb s a =
     obind (init_if_needed env s) (\<lambda>s.
       let (s, select_delay) =
             (case event_timers s of
                [] \<Rightarrow> (s, delay)
              | timer # _ \<Rightarrow>
                  let s = s\<lparr>event_present := env_time env\<rparr>; left = tm_when timer - event_present s
                  in (s, if left < 0 then 0 else if delay \<ge> 0 \<and> left > delay then delay else left))
       in case wait select_delay of
            Failed \<Rightarrow> Panic ''event_loop''
          | Interrupted \<Rightarrow> Ret (s, a)
          | Ready now bps \<Rightarrow>
              if event_nested s > 0 then Panic ''event_loop''
              else
                let s = s\<lparr>event_nested := event_nested s + 1, event_present := now,
                          event_loop_instance := event_loop_instance s + 1\<rparr>
                in obind (event_timer_loop tcb s a) (\<lambda>(s, a).
                   obind (event_io_loop iocb bps s a) (\<lambda>(s, a).
                   Ret (s\<lparr>event_nested := event_nested s - 1\<rparr>, a))))"

section \<open>Invariant\<close>

definition timers_ok :: "'k ev_timer list \<Rightarrow> bool" where
  "timers_ok ts \<longleftrightarrow> sorted (map tm_when ts) \<and> distinct (map tm_key ts)"

definition masks_ok :: "('k, 'c) events \<Rightarrow> bool" where
  "masks_ok s \<longleftrightarrow> length (event_fdtable s) = event_fdslots s
     \<and> length (event_rmask s) = EVENT_MASK_BYTES_NEEDED (event_fdslots s)
     \<and> length (event_wmask s) = EVENT_MASK_BYTES_NEEDED (event_fdslots s)
     \<and> length (event_xmask s) = EVENT_MASK_BYTES_NEEDED (event_fdslots s)
     \<and> mask_set (event_xmask s) = mask_set (event_rmask s) \<union> mask_set (event_wmask s)
     \<and> mask_set (event_rmask s) \<inter> mask_set (event_wmask s) = {}
     \<and> (\<forall>fd \<in> mask_set (event_xmask s). int fd \<le> event_max_fd s \<and> fd < event_fdslots s \<and> event_fdtable s ! fd \<noteq> None)
     \<and> event_max_fd s < int (event_fdslots s)"

definition events_ok :: "('k, 'c) events \<Rightarrow> bool" where
  "events_ok s \<longleftrightarrow> \<not> EVENT_INIT_NEEDED s \<and> timers_ok (event_timers s) \<and> masks_ok s
     \<and> (\<forall>t \<in> set (event_timers s). tm_instance t \<le> event_loop_instance s)"

text \<open>What the interface asks for.\<close>

fun legal_op :: "('k, 'c) ev_op \<Rightarrow> ('k, 'c) events \<Rightarrow> bool" where
  "legal_op (Op_request env key delay) s \<longleftrightarrow> delay \<ge> 0 \<and> env_time env \<noteq> 0"
| "legal_op (Op_cancel env key) s \<longleftrightarrow> True"
| "legal_op (Op_enable_read env fd c) s \<longleftrightarrow> 0 \<le> fd \<and> fd < event_fdlimit s \<and> nat fd \<notin> mask_set (event_wmask s) \<and> env_reg env Reg_add_read"
| "legal_op (Op_enable_write env fd c) s \<longleftrightarrow> 0 \<le> fd \<and> fd < event_fdlimit s \<and> nat fd \<notin> mask_set (event_rmask s) \<and> env_reg env Reg_add_write"
| "legal_op (Op_disable env fd) s \<longleftrightarrow> 0 \<le> fd \<and> fd < event_fdlimit s \<and> env_reg env Reg_del"

lemma init_done [simp]: "\<not> EVENT_INIT_NEEDED s \<Longrightarrow> init_if_needed env s = Ret s"
  by (simp add: init_if_needed_def)

lemma timer_remove_simps:
  "timer_remove key [] = []"
  "timer_remove key (x # xs) = (if tm_key x = key then xs else x # timer_remove key xs)"
  by (auto simp: timer_remove_def extract_Nil_code extract_Cons_code split: option.splits)

lemma remove_filter: "distinct (map tm_key ts) \<Longrightarrow> timer_remove key ts = filter (\<lambda>t. tm_key t \<noteq> key) ts"
proof (induction ts)
  case (Cons x xs)
  have "filter (\<lambda>t. tm_key t \<noteq> key) xs = xs" if "tm_key x = key"
    using Cons.prems that by (intro filter_True) (metis distinct.simps(2) image_eqI list.set_map list.simps(9))
  then show ?case using Cons by (simp add: timer_remove_simps)
qed (simp add: timer_remove_simps)

lemma insert_set: "set (timer_insert t ts) = insert t (set ts)"
  by (induction ts) auto

lemma insert_split: "\<exists>as bs. timer_insert t ts = as @ t # bs \<and> ts = as @ bs \<and> (bs \<noteq> [] \<longrightarrow> tm_when t < tm_when (hd bs)) \<and> (\<forall>a \<in> set as. tm_when a \<le> tm_when t)"
proof (induction ts)
  case (Cons x xs)
  then obtain as bs where *: "timer_insert t xs = as @ t # bs" "xs = as @ bs" "bs \<noteq> [] \<longrightarrow> tm_when t < tm_when (hd bs)"
    "\<forall>a \<in> set as. tm_when a \<le> tm_when t" by blast
  show ?case
  proof (cases "tm_when t < tm_when x")
    case True
    then show ?thesis by (intro exI [of _ "[]"] exI [of _ "x # xs"]) simp
  next
    case False
    then show ?thesis using * by (intro exI [of _ "x # as"] exI [of _ bs]) auto
  qed
qed (intro exI [of _ "[]"], simp)

lemma insert_timers_ok:
  assumes "timers_ok ts" "tm_key t \<notin> tm_key ` set ts"
  shows "timers_ok (timer_insert t ts)"
proof -
  obtain as bs where *: "timer_insert t ts = as @ t # bs" "ts = as @ bs" "bs \<noteq> [] \<longrightarrow> tm_when t < tm_when (hd bs)"
    "\<forall>a \<in> set as. tm_when a \<le> tm_when t" using insert_split by blast
  have "\<forall>b \<in> set bs. tm_when t \<le> tm_when b"
    using assms(1) * by (cases bs) (auto simp: timers_ok_def sorted_append)
  then show ?thesis using assms * by (auto simp: timers_ok_def sorted_append)
qed

lemma filter_timers_ok: "timers_ok ts \<Longrightarrow> timers_ok (filter P ts)"
  by (simp add: timers_ok_def sorted_filter distinct_map_filter)

lemma request_ok:
  assumes "events_ok s" "delay \<ge> 0" "env_time env \<noteq> 0"
  shows "returns (event_request_timer env key delay s) (\<lambda>(when, s'). events_ok s' \<and> when = env_time env + delay \<and> event_max_fd s' = event_max_fd s)"
proof -
  have t: "timers_ok (event_timers s)" "masks_ok s" "\<not> EVENT_INIT_NEEDED s" using assms by (auto simp: events_ok_def)
  have "timers_ok (timer_insert t (filter (\<lambda>t. tm_key t \<noteq> key) (event_timers s)))" if "tm_key t = key" for t
    using that by (intro insert_timers_ok filter_timers_ok t) auto
  then show ?thesis
    using assms t by (simp add: event_request_timer_def Let_def events_ok_def EVENT_INIT_NEEDED_def remove_filter timers_ok_def masks_ok_def insert_set)
qed

lemma cancel_ok:
  assumes "events_ok s"
  shows "returns (event_cancel_timer env key s) (\<lambda>(_, s'). events_ok s' \<and> event_max_fd s' = event_max_fd s)"
proof -
  have t: "timers_ok (event_timers s)" "masks_ok s" "\<not> EVENT_INIT_NEEDED s"
    "\<forall>t \<in> set (event_timers s). tm_instance t \<le> event_loop_instance s" using assms by (auto simp: events_ok_def)
  have "timers_ok (as @ bs)" if "event_timers s = as @ x # bs" for as x bs
    using t(1) that by (auto simp: timers_ok_def sorted_append)
  then show ?thesis
    using t by (auto simp: event_cancel_timer_def events_ok_def EVENT_INIT_NEEDED_def masks_ok_def split: option.splits dest!: extract_parts)
qed

lemma bytes_needed_mono: "m \<le> n \<Longrightarrow> EVENT_MASK_BYTES_NEEDED m \<le> EVENT_MASK_BYTES_NEEDED n"
  by (simp add: EVENT_MASK_BYTES_NEEDED_def EVENT_MASK_NBBY_def div_le_mono)

text \<open>Extending the tables makes room for the descriptor and keeps all requests.\<close>

lemma extend_ok:
  assumes "masks_ok s" "event_fdslots s \<le> fd"
  shows "masks_ok (event_extend fd s)" "fd < event_fdslots (event_extend fd s)"
    "mask_set (event_rmask (event_extend fd s)) = mask_set (event_rmask s)"
    "mask_set (event_wmask (event_extend fd s)) = mask_set (event_wmask s)"
proof -
  define n where "n = (if event_fdslots s > fd div 2 then 2 * event_fdslots s else fd + EVENT_ALLOC_INCR)"
  have n: "fd < n" "event_fdslots s \<le> n" using assms(2) by (auto simp: n_def EVENT_ALLOC_INCR_def)
  have ext: "event_extend fd s = s\<lparr>event_fdtable := take n (event_fdtable s) @ replicate (n - event_fdslots s) None,
      event_fdslots := n, event_rmask := EVENT_MASK_REALLOC (event_rmask s) n,
      event_wmask := EVENT_MASK_REALLOC (event_wmask s) n, event_xmask := EVENT_MASK_REALLOC (event_xmask s) n\<rparr>"
    by (simp add: event_extend_def n_def Let_def)
  have len: "length (event_rmask s) \<le> EVENT_MASK_BYTES_NEEDED n" "length (event_wmask s) \<le> EVENT_MASK_BYTES_NEEDED n"
    "length (event_xmask s) \<le> EVENT_MASK_BYTES_NEEDED n"
    using assms(1) [unfolded masks_ok_def] bytes_needed_mono [OF n(2)] by simp_all
  have masks: "mask_set (EVENT_MASK_REALLOC (event_rmask s) n) = mask_set (event_rmask s)"
    "mask_set (EVENT_MASK_REALLOC (event_wmask s) n) = mask_set (event_wmask s)"
    "mask_set (EVENT_MASK_REALLOC (event_xmask s) n) = mask_set (event_xmask s)"
    "length (EVENT_MASK_REALLOC (event_rmask s) n) = EVENT_MASK_BYTES_NEEDED n"
    "length (EVENT_MASK_REALLOC (event_wmask s) n) = EVENT_MASK_BYTES_NEEDED n"
    "length (EVENT_MASK_REALLOC (event_xmask s) n) = EVENT_MASK_BYTES_NEEDED n"
    using realloc_mask [OF len(1)] realloc_mask [OF len(2)] realloc_mask [OF len(3)] by simp_all
  have tab: "length (event_fdtable s) = event_fdslots s" "event_max_fd s < int (event_fdslots s)"
    "\<forall>fd \<in> mask_set (event_xmask s). int fd \<le> event_max_fd s \<and> fd < event_fdslots s \<and> event_fdtable s ! fd \<noteq> None"
    "mask_set (event_xmask s) = mask_set (event_rmask s) \<union> mask_set (event_wmask s)"
    "mask_set (event_rmask s) \<inter> mask_set (event_wmask s) = {}"
    using assms(1) [unfolded masks_ok_def] by blast+
  let ?table = "take n (event_fdtable s) @ replicate (n - event_fdslots s) None"
  have table: "length ?table = n" "i < event_fdslots s \<Longrightarrow> ?table ! i = event_fdtable s ! i" for i
    using tab(1) n(2) by (simp_all add: nth_append)
  have used: "int i \<le> event_max_fd s \<and> i < n \<and> ?table ! i \<noteq> None" if "i \<in> mask_set (event_xmask s)" for i
    using bspec [OF tab(3) that] table(2) [of i] n(2) by (metis order_less_le_trans)
  show "masks_ok (event_extend fd s)"
    unfolding masks_ok_def ext using table(1) masks tab(2,5) n(2) used tab(4) [symmetric] by simp
  show "fd < event_fdslots (event_extend fd s)" using n by (simp add: ext)
  show "mask_set (event_rmask (event_extend fd s)) = mask_set (event_rmask s)"
    "mask_set (event_wmask (event_extend fd s)) = mask_set (event_wmask s)" using masks by (simp_all add: ext)
qed

lemma masks_in_bounds: "masks_ok s \<Longrightarrow> fd < event_fdslots s \<Longrightarrow> fd_in_bounds fd s"
  using bytes_needed [of fd "event_fdslots s"] by (simp add: masks_ok_def fd_in_bounds_def)

lemma bounds_isset:
  "fd_in_bounds fd s \<Longrightarrow> EVENT_MASK_ISSET fd (event_rmask s) \<longleftrightarrow> fd \<in> mask_set (event_rmask s)"
  "fd_in_bounds fd s \<Longrightarrow> EVENT_MASK_ISSET fd (event_wmask s) \<longleftrightarrow> fd \<in> mask_set (event_wmask s)"
  "fd_in_bounds fd s \<Longrightarrow> EVENT_MASK_ISSET fd (event_xmask s) \<longleftrightarrow> fd \<in> mask_set (event_xmask s)"
  by (simp_all add: fd_in_bounds_def isset_iff)

lemma slot_ready:
  assumes "masks_ok s" "0 \<le> fd"
  defines "s' \<equiv> if fd \<ge> int (event_fdslots s) then event_extend (nat fd) s else s"
  shows "masks_ok s'" "nat fd < event_fdslots s'" "fd_in_bounds (nat fd) s'"
    "mask_set (event_rmask s') = mask_set (event_rmask s)" "mask_set (event_wmask s') = mask_set (event_wmask s)"
proof -
  have *: "event_fdslots s \<le> nat fd" if "fd \<ge> int (event_fdslots s)" using that by simp
  show m: "masks_ok s'" "nat fd < event_fdslots s'"
    "mask_set (event_rmask s') = mask_set (event_rmask s)" "mask_set (event_wmask s') = mask_set (event_wmask s)"
    using extend_ok [OF assms(1) *] assms(1,2) unfolding s'_def by (simp_all split: if_split) linarith
  show "fd_in_bounds (nat fd) s'" using m by (intro masks_in_bounds)
qed

lemma slot_state:
  "EVENT_INIT_NEEDED (if b then event_extend n s else s) = EVENT_INIT_NEEDED s"
  "event_timers (if b then event_extend n s else s) = event_timers s"
  "event_max_fd (if b then event_extend n s else s) = event_max_fd s"
  by (simp_all add: EVENT_INIT_NEEDED_def)

text \<open>The effect of a request on the tables, for a descriptor that has a slot.\<close>

lemma read_masks_ok:
  assumes "masks_ok s" "n < event_fdslots s" "n \<notin> mask_set (event_wmask s)" "event_max_fd s \<le> m" "int n \<le> m" "m < int (event_fdslots s)"
  shows "masks_ok (s\<lparr>event_xmask := EVENT_MASK_SET n (event_xmask s), event_rmask := EVENT_MASK_SET n (event_rmask s),
    event_max_fd := m, event_fdtable := (event_fdtable s)[n := Some c]\<rparr>)"
proof -
  note m = assms(1) [unfolded masks_ok_def]
  have "fd_in_bounds n s" using masks_in_bounds assms(1,2) .
  then have r: "mask_set (EVENT_MASK_SET n (event_rmask s)) = insert n (mask_set (event_rmask s))"
    "mask_set (EVENT_MASK_SET n (event_xmask s)) = insert n (mask_set (event_rmask s) \<union> mask_set (event_wmask s))"
    using m by (simp_all add: fd_in_bounds_def set_mask)
  have used: "int i \<le> m \<and> i < event_fdslots s \<and> (event_fdtable s)[n := Some c] ! i \<noteq> None"
    if "i = n \<or> i \<in> mask_set (event_rmask s) \<or> i \<in> mask_set (event_wmask s)" for i
  proof (cases "i = n")
    case True
    then show ?thesis using assms m by simp
  next
    case False
    then have "int i \<le> event_max_fd s \<and> i < event_fdslots s \<and> event_fdtable s ! i \<noteq> None" using that m by blast
    then show ?thesis using False assms(4) by simp
  qed
  show ?thesis unfolding masks_ok_def using m r used assms by simp
qed

lemma write_masks_ok:
  assumes "masks_ok s" "n < event_fdslots s" "n \<notin> mask_set (event_rmask s)" "event_max_fd s \<le> m" "int n \<le> m" "m < int (event_fdslots s)"
  shows "masks_ok (s\<lparr>event_xmask := EVENT_MASK_SET n (event_xmask s), event_wmask := EVENT_MASK_SET n (event_wmask s),
    event_max_fd := m, event_fdtable := (event_fdtable s)[n := Some c]\<rparr>)"
proof -
  let ?swap = "\<lambda>s. s\<lparr>event_rmask := event_wmask s, event_wmask := event_rmask s\<rparr>"
  have swap: "masks_ok (?swap t) = masks_ok t" for t :: "('k, 'c) events" by (auto simp: masks_ok_def Un_commute Int_commute)
  have "masks_ok (?swap s)" using assms(1) swap by blast
  then have "masks_ok ((?swap s)\<lparr>event_xmask := EVENT_MASK_SET n (event_xmask (?swap s)), event_rmask := EVENT_MASK_SET n (event_rmask (?swap s)),
      event_max_fd := m, event_fdtable := (event_fdtable (?swap s))[n := Some c]\<rparr>)"
    using assms by (intro read_masks_ok) simp_all
  then show ?thesis by (simp add: masks_ok_def Un_commute Int_commute)
qed

lemma update_not_None: "xs ! i \<noteq> None \<Longrightarrow> xs[n := Some c] ! i \<noteq> None"
  by (cases "n < length xs") (auto simp: nth_list_update list_update_beyond)

lemma table_masks_ok:
  assumes "masks_ok s"
  shows "masks_ok (s\<lparr>event_fdtable := (event_fdtable s)[n := Some c]\<rparr>)"
  using assms update_not_None [of "event_fdtable s" _ n c] unfolding masks_ok_def by simp

lemma clear_masks_ok:
  assumes "masks_ok s" "n < event_fdslots s"
  shows "masks_ok (s\<lparr>event_xmask := EVENT_MASK_CLR n (event_xmask s), event_rmask := EVENT_MASK_CLR n (event_rmask s),
    event_wmask := EVENT_MASK_CLR n (event_wmask s), event_fdtable := (event_fdtable s)[n := None]\<rparr>)"
proof -
  note m = assms(1) [unfolded masks_ok_def]
  have b: "fd_in_bounds n s" using masks_in_bounds assms .
  then have r: "mask_set (EVENT_MASK_CLR n (event_rmask s)) = mask_set (event_rmask s) - {n}"
    "mask_set (EVENT_MASK_CLR n (event_wmask s)) = mask_set (event_wmask s) - {n}"
    "mask_set (EVENT_MASK_CLR n (event_xmask s)) = (mask_set (event_rmask s) \<union> mask_set (event_wmask s)) - {n}"
    using m by (simp_all add: fd_in_bounds_def clr_mask)
  have used: "int i \<le> event_max_fd s \<and> i < event_fdslots s \<and> (event_fdtable s)[n := None] ! i \<noteq> None"
    if "i \<in> (mask_set (event_rmask s) \<union> mask_set (event_wmask s)) - {n}" for i
  proof -
    have "int i \<le> event_max_fd s \<and> i < event_fdslots s \<and> event_fdtable s ! i \<noteq> None" using that m by blast
    then show ?thesis using that by simp
  qed
  have x: "(mask_set (event_rmask s) \<union> mask_set (event_wmask s)) - {n} = (mask_set (event_rmask s) - {n}) \<union> (mask_set (event_wmask s) - {n})"
    "(mask_set (event_rmask s) - {n}) \<inter> (mask_set (event_wmask s) - {n}) = {}" using m by blast+
  have "\<forall>i \<in> mask_set (EVENT_MASK_CLR n (event_xmask s)). int i \<le> event_max_fd s \<and> i < event_fdslots s \<and> (event_fdtable s)[n := None] ! i \<noteq> None"
    using used r(3) by blast
  then show ?thesis unfolding masks_ok_def using m r(1,2) r(3) [unfolded x(1)] x(2) by simp
qed

lemma events_ok_upd:
  "events_ok s \<Longrightarrow> masks_ok s' \<Longrightarrow> event_timers s' = event_timers s \<Longrightarrow> event_present s' = event_present s
   \<Longrightarrow> event_loop_instance s' = event_loop_instance s \<Longrightarrow> events_ok s'"
  by (simp add: events_ok_def EVENT_INIT_NEEDED_def)

definition keeps_ok :: "('k, 'c) events \<Rightarrow> ('k, 'c) events \<Rightarrow> bool" where
  "keeps_ok s s' \<longleftrightarrow> events_ok s' \<and> event_max_fd s \<le> event_max_fd s'"

lemma keeps_ok_trans: "keeps_ok s1 s2 \<Longrightarrow> keeps_ok s2 s3 \<Longrightarrow> keeps_ok s1 s3"
  by (auto simp: keeps_ok_def)

lemma enable_read_ok:
  assumes ok: "events_ok s" and fd: "0 \<le> fd" "fd < event_fdlimit s" "nat fd \<notin> mask_set (event_wmask s)" and reg: "env_reg env Reg_add_read"
  shows "returns (event_enable_read env fd c s) (keeps_ok s)"
proof -
  define s1 where "s1 = (if fd \<ge> int (event_fdslots s) then event_extend (nat fd) s else s)"
  have m: "masks_ok s" "\<not> EVENT_INIT_NEEDED s" using ok by (simp_all add: events_ok_def)
  note r = slot_ready [OF m(1) fd(1), folded s1_def]
  have same: "event_timers s1 = event_timers s" "event_present s1 = event_present s" "event_max_fd s1 = event_max_fd s"
    "event_loop_instance s1 = event_loop_instance s"
    by (simp_all add: s1_def)
  have max: "event_max_fd s1 < int (event_fdslots s1)" using r(1) by (simp add: masks_ok_def)
  have w: "\<not> EVENT_MASK_ISSET (nat fd) (event_wmask s1)" using fd r bounds_isset by blast
  show ?thesis
  proof (cases "EVENT_MASK_ISSET (nat fd) (event_rmask s1)")
    case True
    then have "event_enable_read env fd c s = Ret (s1\<lparr>event_fdtable := (event_fdtable s1)[nat fd := Some c]\<rparr>)"
      using m(2) fd r(3) w by (simp add: event_enable_read_def Let_def flip: s1_def)
    moreover have "events_ok (s1\<lparr>event_fdtable := (event_fdtable s1)[nat fd := Some c]\<rparr>)"
      using table_masks_ok [OF r(1)] same by (intro events_ok_upd [OF ok]) simp_all
    ultimately show ?thesis using same by (simp add: keeps_ok_def)
  next
    case False
    let ?s = "s1\<lparr>event_xmask := EVENT_MASK_SET (nat fd) (event_xmask s1), event_rmask := EVENT_MASK_SET (nat fd) (event_rmask s1),
      event_max_fd := max (event_max_fd s1) fd, event_fdtable := (event_fdtable s1)[nat fd := Some c]\<rparr>"
    have "event_enable_read env fd c s = Ret ?s"
      using False m(2) fd r(3) w reg by (simp add: event_enable_read_def Let_def max_def flip: s1_def)
    moreover have "masks_ok ?s" using r fd max by (intro read_masks_ok) auto
    then have "events_ok ?s" using same by (intro events_ok_upd [OF ok]) simp_all
    ultimately show ?thesis using same by (simp add: keeps_ok_def)
  qed
qed

lemma enable_write_ok:
  assumes ok: "events_ok s" and fd: "0 \<le> fd" "fd < event_fdlimit s" "nat fd \<notin> mask_set (event_rmask s)" and reg: "env_reg env Reg_add_write"
  shows "returns (event_enable_write env fd c s) (keeps_ok s)"
proof -
  define s1 where "s1 = (if fd \<ge> int (event_fdslots s) then event_extend (nat fd) s else s)"
  have m: "masks_ok s" "\<not> EVENT_INIT_NEEDED s" using ok by (simp_all add: events_ok_def)
  note r = slot_ready [OF m(1) fd(1), folded s1_def]
  have same: "event_timers s1 = event_timers s" "event_present s1 = event_present s" "event_max_fd s1 = event_max_fd s"
    "event_loop_instance s1 = event_loop_instance s"
    by (simp_all add: s1_def)
  have max: "event_max_fd s1 < int (event_fdslots s1)" using r(1) by (simp add: masks_ok_def)
  have w: "\<not> EVENT_MASK_ISSET (nat fd) (event_rmask s1)" using fd r bounds_isset by blast
  show ?thesis
  proof (cases "EVENT_MASK_ISSET (nat fd) (event_wmask s1)")
    case True
    then have "event_enable_write env fd c s = Ret (s1\<lparr>event_fdtable := (event_fdtable s1)[nat fd := Some c]\<rparr>)"
      using m(2) fd r(3) w by (simp add: event_enable_write_def Let_def flip: s1_def)
    moreover have "events_ok (s1\<lparr>event_fdtable := (event_fdtable s1)[nat fd := Some c]\<rparr>)"
      using table_masks_ok [OF r(1)] same by (intro events_ok_upd [OF ok]) simp_all
    ultimately show ?thesis using same by (simp add: keeps_ok_def)
  next
    case False
    let ?s = "s1\<lparr>event_xmask := EVENT_MASK_SET (nat fd) (event_xmask s1), event_wmask := EVENT_MASK_SET (nat fd) (event_wmask s1),
      event_max_fd := max (event_max_fd s1) fd, event_fdtable := (event_fdtable s1)[nat fd := Some c]\<rparr>"
    have "event_enable_write env fd c s = Ret ?s"
      using False m(2) fd r(3) w reg by (simp add: event_enable_write_def Let_def max_def flip: s1_def)
    moreover have "masks_ok ?s" using r fd max by (intro write_masks_ok) auto
    then have "events_ok ?s" using same by (intro events_ok_upd [OF ok]) simp_all
    ultimately show ?thesis using same by (simp add: keeps_ok_def)
  qed
qed

lemma disable_ok:
  assumes ok: "events_ok s" and fd: "0 \<le> fd" "fd < event_fdlimit s" and reg: "env_reg env Reg_del"
  shows "returns (event_disable_readwrite env fd s) (keeps_ok s)"
proof -
  have m: "masks_ok s" "\<not> EVENT_INIT_NEEDED s" using ok by (simp_all add: events_ok_def)
  show ?thesis
  proof (cases "fd \<ge> int (event_fdslots s)")
    case True
    then show ?thesis using m fd ok by (simp add: event_disable_readwrite_def keeps_ok_def)
  next
    case False
    then have n: "nat fd < event_fdslots s" using fd by linarith
    have "events_ok (s\<lparr>event_xmask := EVENT_MASK_CLR (nat fd) (event_xmask s), event_rmask := EVENT_MASK_CLR (nat fd) (event_rmask s),
        event_wmask := EVENT_MASK_CLR (nat fd) (event_wmask s), event_fdtable := (event_fdtable s)[nat fd := None]\<rparr>)"
      using clear_masks_ok [OF m(1) n] by (intro events_ok_upd [OF ok]) simp_all
    then show ?thesis
      using False m fd reg masks_in_bounds [OF m(1) n] by (simp add: event_disable_readwrite_def Let_def keeps_ok_def)
  qed
qed

section \<open>The event loop keeps the invariant\<close>

lemma run_op_ok: "events_ok s \<Longrightarrow> legal_op oper s \<Longrightarrow> returns (run_op oper s) (keeps_ok s)"
proof (cases oper)
  case (Op_request env key delay)
  moreover assume "events_ok s" "legal_op oper s"
  ultimately show ?thesis using request_ok [of s delay env key]
    by (auto simp: returns_obind keeps_ok_def elim!: returns_mono)
next
  case (Op_cancel env key)
  moreover assume "events_ok s"
  ultimately show ?thesis using cancel_ok [of s env key]
    by (auto simp: returns_obind keeps_ok_def elim!: returns_mono)
qed (simp_all add: enable_read_ok enable_write_ok disable_ok)

fun legal_ops :: "('k, 'c) ev_op list \<Rightarrow> ('k, 'c) events \<Rightarrow> bool" where
  "legal_ops [] s \<longleftrightarrow> True"
| "legal_ops (oper # opers) s \<longleftrightarrow> legal_op oper s \<and> (case run_op oper s of Ret s \<Rightarrow> legal_ops opers s | _ \<Rightarrow> True)"

lemma run_ops_ok: "events_ok s \<Longrightarrow> legal_ops opers s \<Longrightarrow> returns (run_ops opers s) (keeps_ok s)"
proof (induction opers arbitrary: s)
  case (Cons oper opers)
  then obtain s1 where s1: "run_op oper s = Ret s1" "keeps_ok s s1"
    using run_op_ok [of s oper] by (auto simp: returns_def)
  then have "returns (run_ops opers s1) (keeps_ok s1)" using Cons.IH [of s1] Cons.prems(2) by (simp add: keeps_ok_def [of s])
  then show ?case using s1 keeps_ok_trans by (auto elim!: returns_mono)
qed (simp add: keeps_ok_def)

text \<open>Call-back functions that use the interface correctly.\<close>

definition callbacks_legal :: "('k, 'c, 'a) timer_callback \<Rightarrow> ('k, 'c, 'a) io_callback \<Rightarrow> bool" where
  "callbacks_legal tcb iocb \<longleftrightarrow>
     (\<forall>s a. events_ok s \<longrightarrow> (\<forall>key. legal_ops (snd (tcb key s a)) s) \<and> (\<forall>c kind. legal_ops (snd (iocb c kind s a)) s))"

lemma tail_ok: "events_ok s \<Longrightarrow> event_timers s = timer # rest \<Longrightarrow> events_ok (s\<lparr>event_timers := rest\<rparr>)"
  by (auto simp: events_ok_def timers_ok_def masks_ok_def EVENT_INIT_NEEDED_def)

lemma timer_loop_ok:
  assumes "callbacks_legal tcb iocb" "events_ok s"
  shows "returns (event_timer_loop tcb s a) (\<lambda>(s', _). keeps_ok s s')"
  using assms
proof (induction tcb s a rule: event_timer_loop.induct)
  case (1 tcb s a)
  show ?case
  proof (cases "event_timers s")
    case Nil
    then show ?thesis using "1.prems" by (subst event_timer_loop.simps) (simp add: keeps_ok_def)
  next
    case (Cons timer rest)
    let ?s = "s\<lparr>event_timers := rest\<rparr>"
    show ?thesis
    proof (cases "tm_when timer > event_present s \<or> tm_instance timer = event_loop_instance s")
      case True
      then show ?thesis using Cons "1.prems" by (subst event_timer_loop.simps) (simp add: keeps_ok_def)
    next
      case False
      obtain a' opers where cb: "tcb (tm_key timer) ?s a = (a', opers)" by fastforce
      have ok: "events_ok ?s" using tail_ok "1.prems" Cons by blast
      then have "legal_ops opers ?s" using "1.prems" cb by (metis callbacks_legal_def snd_conv)
      then obtain s1 where s1: "run_ops opers ?s = Ret s1" "keeps_ok ?s s1"
        using run_ops_ok [OF ok] by (auto simp: returns_def)
      have "returns (event_timer_loop tcb s1 a') (\<lambda>(s', _). keeps_ok s1 s')"
        using "1.IH" [OF Cons False refl refl cb [symmetric] s1(1)] "1.prems" s1(2) by (auto simp: keeps_ok_def)
      moreover have "keeps_ok s s1" using s1(2) by (simp add: keeps_ok_def)
      ultimately show ?thesis
        using Cons False cb s1 keeps_ok_trans
        by (subst event_timer_loop.simps) (auto simp: Let_def elim!: returns_mono)
    qed
  qed
qed

definition ready_fds :: "(int \<times> ev_kind) list \<Rightarrow> ('k, 'c) events \<Rightarrow> bool" where
  "ready_fds bps s \<longleftrightarrow> (\<forall>(fd, _) \<in> set bps. 0 \<le> fd \<and> fd \<le> event_max_fd s)"

lemma ready_fds_mono: "ready_fds bps s \<Longrightarrow> keeps_ok s s' \<Longrightarrow> ready_fds bps s'"
  by (fastforce simp: ready_fds_def keeps_ok_def)

lemma io_loop_ok:
  assumes "callbacks_legal tcb iocb" "events_ok s" "ready_fds bps s"
  shows "returns (event_io_loop iocb bps s a) (\<lambda>(s', _). keeps_ok s s')"
  using assms(2,3)
proof (induction bps arbitrary: s a)
  case (Cons bp bps)
  obtain fd kind where bp: "bp = (fd, kind)" by fastforce
  have fd: "0 \<le> fd" "fd \<le> event_max_fd s" and rest: "ready_fds bps s" using Cons.prems(2) by (auto simp: ready_fds_def bp)
  have m: "masks_ok s" using Cons.prems(1) by (simp add: events_ok_def)
  then have "nat fd < event_fdslots s" using fd by (simp add: masks_ok_def nat_less_iff)
  then have b: "fd_in_bounds (nat fd) s" by (rule masks_in_bounds [OF m])
  show ?case
  proof (cases "nat fd \<in> mask_set (event_xmask s)")
    case False
    then show ?thesis using Cons fd b rest by (simp add: bp bounds_isset)
  next
    case True
    then obtain c where c: "event_fdtable s ! nat fd = Some c" using m [unfolded masks_ok_def] by blast
    obtain a' opers where cb: "iocb c kind s a = (a', opers)" by fastforce
    then have "legal_ops opers s" using assms(1) Cons.prems(1) by (metis callbacks_legal_def snd_conv)
    then obtain s1 where s1: "run_ops opers s = Ret s1" "keeps_ok s s1"
      using run_ops_ok [OF Cons.prems(1)] by (auto simp: returns_def)
    then have "returns (event_io_loop iocb bps s1 a') (\<lambda>(s', _). keeps_ok s1 s')"
      using Cons.IH [of s1 a'] ready_fds_mono [OF rest] by (simp add: keeps_ok_def)
    then show ?thesis
      using True c cb s1 fd b keeps_ok_trans by (auto simp: bp bounds_isset elim!: returns_mono)
  qed
qed (simp add: keeps_ok_def)

section \<open>Due timers are delivered\<close>

text \<open>
  The clock does not run backwards: every request is made at a time not before \<open>start\<close>, when the
  event loop began to deliver timer events.
\<close>

fun op_since :: "int \<Rightarrow> ('k, 'c) ev_op \<Rightarrow> bool" where
  "op_since start (Op_request env key delay) \<longleftrightarrow> start \<le> env_time env"
| "op_since start _ \<longleftrightarrow> True"

text \<open>
  A request that was due at the start, and is still to be delivered, is before every request that was
  made since.
\<close>

definition due_first :: "int \<Rightarrow> int \<Rightarrow> 'k ev_timer list \<Rightarrow> bool" where
  "due_first start inst ts \<longleftrightarrow>
     sorted_wrt (\<lambda>t u. tm_instance t = inst \<longrightarrow> tm_instance u \<noteq> inst \<longrightarrow> tm_when u > start) ts"

lemma due_first_filter: "due_first start inst ts \<Longrightarrow> due_first start inst (filter P ts)"
  by (simp add: due_first_def sorted_wrt_filter)

lemma due_first_insert:
  assumes "due_first start inst ts" "timers_ok ts" "tm_instance t = inst" "start \<le> tm_when t"
  shows "due_first start inst (timer_insert t ts)"
proof -
  obtain as bs where *: "timer_insert t ts = as @ t # bs" "ts = as @ bs" "bs \<noteq> [] \<longrightarrow> tm_when t < tm_when (hd bs)"
    using insert_split by blast
  have "\<forall>b \<in> set bs. tm_when t < tm_when b"
    using assms(2) *(2,3) by (cases bs) (auto simp: timers_ok_def sorted_append)
  then show ?thesis using assms(1,3,4) * by (auto simp: due_first_def sorted_wrt_append)
qed

definition loop_inv :: "int \<Rightarrow> ('k, 'c) events \<Rightarrow> bool" where
  "loop_inv start s \<longleftrightarrow> start \<le> event_present s \<and> due_first start (event_loop_instance s) (event_timers s)"

lemma run_op_loop_inv:
  assumes "events_ok s" "loop_inv start s" "op_since start oper" "run_op oper s = Ret s'"
  shows "loop_inv start s'"
proof -
  have ok: "timers_ok (event_timers s)" "\<not> EVENT_INIT_NEEDED s" using assms(1) by (auto simp: events_ok_def)
  have inv: "start \<le> event_present s" "due_first start (event_loop_instance s) (event_timers s)" using assms(2) by (auto simp: loop_inv_def)
  show ?thesis
  proof (cases oper)
    case (Op_request env key delay)
    have "due_first start (event_loop_instance s) (timer_insert t (filter (\<lambda>t. tm_key t \<noteq> key) (event_timers s)))"
      if "tm_instance t = event_loop_instance s" "start \<le> tm_when t" for t
      using that by (intro due_first_insert due_first_filter filter_timers_ok ok inv)
    then show ?thesis
      using Op_request assms(3,4) ok by (auto simp: event_request_timer_def Let_def loop_inv_def remove_filter timers_ok_def split: if_splits)
  next
    case (Op_cancel env key)
    then have "s' = s\<lparr>event_timers := filter (\<lambda>t. tm_key t \<noteq> key) (event_timers s)\<rparr>"
      using assms(4) ok by (auto simp: timers_ok_def remove_filter dest!: cancel_state)
    then show ?thesis using inv by (simp add: loop_inv_def due_first_filter)
  next
    case (Op_enable_read env fd c)
    then show ?thesis using assms(4) inv ok
      by (auto simp: event_enable_read_def Let_def loop_inv_def split: if_splits)
  next
    case (Op_enable_write env fd c)
    then show ?thesis using assms(4) inv ok
      by (auto simp: event_enable_write_def Let_def loop_inv_def split: if_splits)
  next
    case (Op_disable env fd)
    then show ?thesis using assms(4) inv ok
      by (auto simp: event_disable_readwrite_def Let_def loop_inv_def split: if_splits)
  qed
qed

lemma run_ops_loop_inv:
  assumes "events_ok s" "loop_inv start s" "list_all (op_since start) opers" "legal_ops opers s" "run_ops opers s = Ret s'"
  shows "loop_inv start s'"
  using assms
proof (induction opers arbitrary: s)
  case (Cons oper opers)
  then obtain s1 where s1: "run_op oper s = Ret s1" "run_ops opers s1 = Ret s'" by auto
  then have "events_ok s1" using run_op_ok [of s oper] Cons.prems by (simp add: keeps_ok_def)
  then show ?case using Cons.IH [of s1] Cons.prems s1 run_op_loop_inv [of s start oper s1] by simp
qed simp

definition none_due :: "int \<Rightarrow> ('k, 'c) events \<Rightarrow> bool" where
  "none_due start s \<longleftrightarrow> (\<forall>t \<in> set (event_timers s). tm_when t > start \<or> tm_instance t = event_loop_instance s)"

lemma timer_loop_due:
  assumes "callbacks_legal tcb iocb" "events_ok s" "loop_inv start s" "\<And>key s a. list_all (op_since start) (snd (tcb key s a))"
    and "event_timer_loop tcb s a = Ret (s', a')"
  shows "none_due start s'"
  using assms
proof (induction tcb s a rule: event_timer_loop.induct)
  case (1 tcb s a)
  show ?case
  proof (cases "event_timers s")
    case Nil
    then show ?thesis using "1.prems"(5) by (subst (asm) event_timer_loop.simps) (simp add: none_due_def)
  next
    case (Cons timer rest)
    let ?s = "s\<lparr>event_timers := rest\<rparr>"
    show ?thesis
    proof (cases "tm_when timer > event_present s \<or> tm_instance timer = event_loop_instance s")
      case True
      have "s' = s" using True Cons "1.prems"(5) by (subst (asm) event_timer_loop.simps) simp
      moreover have "none_due start s"
        using True Cons "1.prems"(2,3) by (auto simp: none_due_def loop_inv_def due_first_def events_ok_def timers_ok_def)
      ultimately show ?thesis by simp
    next
      case False
      obtain a1 opers where cb: "tcb (tm_key timer) ?s a = (a1, opers)" by fastforce
      have ok: "events_ok ?s" using tail_ok "1.prems"(2) Cons by blast
      have inv: "loop_inv start ?s" using "1.prems"(3) Cons by (simp add: loop_inv_def due_first_def)
      have legal: "legal_ops opers ?s" using "1.prems"(1) ok cb by (metis callbacks_legal_def snd_conv)
      then obtain s1 where s1: "run_ops opers ?s = Ret s1" "events_ok s1"
        using run_ops_ok [OF ok] by (auto simp: returns_def keeps_ok_def)
      have "list_all (op_since start) opers" using "1.prems"(4) cb by (metis snd_conv)
      then have "loop_inv start s1" using run_ops_loop_inv [OF ok inv _ legal s1(1)] by blast
      moreover have "event_timer_loop tcb s1 a1 = Ret (s', a')"
        using "1.prems"(5) Cons False cb s1 by (subst (asm) event_timer_loop.simps) (simp add: Let_def)
      ultimately show ?thesis
        using "1.IH" [OF Cons False refl refl cb [symmetric] s1(1)] "1.prems"(1,4) s1(2) by blast
    qed
  qed
qed

lemma remove_subset: "set (timer_remove key ts) \<subseteq> set ts"
  by (induction ts) (auto simp: timer_remove_simps)

lemma run_op_none_due: "run_op oper s = Ret s' \<Longrightarrow> none_due start s \<Longrightarrow> none_due start s'"
proof (cases oper)
  case (Op_request env key delay)
  moreover assume "run_op oper s = Ret s'" "none_due start s"
  ultimately obtain s1 where "init_if_needed env s = Ret s1" "event_loop_instance s' = event_loop_instance s1"
    "event_timers s' = timer_insert \<lparr>tm_when = env_time env + delay, tm_key = key, tm_instance = event_loop_instance s1\<rparr>
       (timer_remove key (event_timers s1))"
    by (auto simp: event_request_timer_def Let_def split: if_splits)
  then show ?thesis
    using \<open>none_due start s\<close> init_frame [of env s s1] remove_subset [of key "event_timers s1"]
    by (simp add: none_due_def insert_set) (metis empty_iff empty_set in_mono)
next
  case (Op_cancel env key)
  moreover assume "run_op oper s = Ret s'" "none_due start s"
  ultimately obtain s1 where "init_if_needed env s = Ret s1" "s' = s1\<lparr>event_timers := timer_remove key (event_timers s1)\<rparr>"
    by (auto dest: cancel_state)
  then show ?thesis
    using \<open>none_due start s\<close> remove_subset [of key "event_timers s1"] init_frame [of env s s1]
    by (simp add: none_due_def) (metis empty_iff empty_set in_mono)
qed (fastforce simp: none_due_def dest!: enable_frame)+

lemma run_ops_none_due: "run_ops opers s = Ret s' \<Longrightarrow> none_due start s \<Longrightarrow> none_due start s'"
  by (induction opers arbitrary: s) (auto dest: run_op_none_due)

lemma run_op_nested: "run_op oper s = Ret s' \<Longrightarrow> event_nested s' = event_nested s"
  by (cases oper) (auto simp: event_request_timer_def event_enable_read_def event_enable_write_def event_disable_readwrite_def
      init_if_needed_def event_init_def Let_def split: if_splits dest!: cancel_state)

lemma run_ops_nested: "run_ops opers s = Ret s' \<Longrightarrow> event_nested s' = event_nested s"
  by (induction opers arbitrary: s) (auto dest: run_op_nested)

text \<open>What the requests and the removal of a timer keep, the loops keep.\<close>

lemma io_loop_keeps:
  assumes opers: "\<And>opers s s'. run_ops opers s = Ret s' \<Longrightarrow> P s \<Longrightarrow> P s'"
  shows "event_io_loop iocb bps s a = Ret (s', a') \<Longrightarrow> P s \<Longrightarrow> P s'"
proof (induction bps arbitrary: s a)
  case (Cons bp bps)
  obtain fd kind where bp: "bp = (fd, kind)" by fastforce
  show ?case
  proof (cases "EVENT_MASK_ISSET (nat fd) (event_xmask s)")
    case False
    then show ?thesis using Cons by (auto simp: bp obind_oguard split: if_splits)
  next
    case True
    then obtain c where c: "event_fdtable s ! nat fd = Some c"
      using Cons.prems(1) by (auto simp: bp obind_oguard split: if_splits option.splits)
    obtain a1 os where cb: "iocb c kind s a = (a1, os)" by fastforce
    then obtain s1 where s1: "run_ops os s = Ret s1" "event_io_loop iocb bps s1 a1 = Ret (s', a')"
      using True c Cons.prems(1) by (auto simp: bp obind_oguard split: if_splits)
    then show ?thesis using Cons.IH opers Cons.prems(2) by blast
  qed
qed simp

lemma timer_loop_keeps:
  assumes opers: "\<And>opers s s'. run_ops opers s = Ret s' \<Longrightarrow> P s \<Longrightarrow> P s'"
    and detach: "\<And>s timer rest. event_timers s = timer # rest \<Longrightarrow> P s \<Longrightarrow> P (s\<lparr>event_timers := rest\<rparr>)"
  shows "event_timer_loop tcb s a = Ret (s', a') \<Longrightarrow> P s \<Longrightarrow> P s'"
proof (induction tcb s a rule: event_timer_loop.induct)
  case (1 tcb s a)
  show ?case
  proof (cases "event_timers s = [] \<or> tm_when (hd (event_timers s)) > event_present s
      \<or> tm_instance (hd (event_timers s)) = event_loop_instance s")
    case True
    then show ?thesis using "1.prems" by (subst (asm) event_timer_loop.simps) (auto split: list.splits)
  next
    case False
    then obtain timer rest where t: "event_timers s = timer # rest" "\<not> (tm_when timer > event_present s \<or> tm_instance timer = event_loop_instance s)"
      by (cases "event_timers s") auto
    obtain a1 os where cb: "tcb (tm_key timer) (s\<lparr>event_timers := rest\<rparr>) a = (a1, os)" by fastforce
    obtain s1 where s1: "run_ops os (s\<lparr>event_timers := rest\<rparr>) = Ret s1" "event_timer_loop tcb s1 a1 = Ret (s', a')"
      using "1.prems"(1) t cb by (subst (asm) event_timer_loop.simps) (auto simp: Let_def)
    then show ?thesis
      using "1.IH" [OF t refl refl cb [symmetric] s1(1) s1(2)] opers detach [OF t(1)] "1.prems"(2) by blast
  qed
qed

lemma loops_nested:
  "event_timer_loop tcb s a = Ret (s', a') \<Longrightarrow> event_nested s' = event_nested s"
  "event_io_loop iocb bps s a = Ret (s', a') \<Longrightarrow> event_nested s' = event_nested s"
  using timer_loop_keeps [where P = "\<lambda>x. event_nested x = event_nested s"] io_loop_keeps [where P = "\<lambda>x. event_nested x = event_nested s"]
    run_ops_nested by fastforce+

lemma io_loop_none_due: "event_io_loop iocb bps s a = Ret (s', a') \<Longrightarrow> none_due start s \<Longrightarrow> none_due start s'"
  by (rule io_loop_keeps [of "none_due start", OF run_ops_none_due])

section \<open>The contract of a timer service\<close>

text \<open>
  The clients of the event manager see the pending timer requests as a map from the call-back and its
  context to a time.
\<close>

datatype 'k timer_call = Set_timer 'k int | Cancel_timer 'k

fun timer_calls :: "('k \<Rightarrow> int \<Rightarrow> 's \<Rightarrow> 's outcome) \<Rightarrow> ('k \<Rightarrow> 's \<Rightarrow> 's outcome) \<Rightarrow> 'k timer_call list \<Rightarrow> 's \<Rightarrow> 's outcome" where
  "timer_calls request cancel [] s = Ret s"
| "timer_calls request cancel (Set_timer k delay # calls) s = obind (request k delay s) (timer_calls request cancel calls)"
| "timer_calls request cancel (Cancel_timer k # calls) s = obind (cancel k s) (timer_calls request cancel calls)"

fun map_calls :: "int \<Rightarrow> 'k timer_call list \<Rightarrow> ('k \<rightharpoonup> int) \<Rightarrow> ('k \<rightharpoonup> int)" where
  "map_calls now [] m = m"
| "map_calls now (Set_timer k delay # calls) m = map_calls now calls (m(k \<mapsto> now + delay))"
| "map_calls now (Cancel_timer k # calls) m = map_calls now calls (m(k := None))"

fun delays_ok :: "'k timer_call list \<Rightarrow> bool" where
  "delays_ok [] \<longleftrightarrow> True"
| "delays_ok (Set_timer k delay # calls) \<longleftrightarrow> delay \<ge> 0 \<and> delays_ok calls"
| "delays_ok (Cancel_timer k # calls) \<longleftrightarrow> delays_ok calls"

locale timer_service =
  fixes ok :: "'s \<Rightarrow> bool"
    and now :: int
    and pending :: "'s \<Rightarrow> 'k \<Rightarrow> int option"
    and request :: "'k \<Rightarrow> int \<Rightarrow> 's \<Rightarrow> 's outcome"
    and cancel :: "'k \<Rightarrow> 's \<Rightarrow> 's outcome"
  assumes request_law: "ok s \<Longrightarrow> delay \<ge> 0 \<Longrightarrow>
      returns (request k delay s) (\<lambda>s'. ok s' \<and> pending s' = (pending s)(k \<mapsto> now + delay))"
    and cancel_law: "ok s \<Longrightarrow> returns (cancel k s) (\<lambda>s'. ok s' \<and> pending s' = (pending s)(k := None))"
begin

lemma calls_simulate:
  "ok s \<Longrightarrow> delays_ok calls \<Longrightarrow>
   returns (timer_calls request cancel calls s) (\<lambda>s'. ok s' \<and> pending s' = map_calls now calls (pending s))"
proof (induction calls arbitrary: s)
  case (Cons call calls)
  show ?case
  proof (cases call)
    case (Set_timer k delay)
    then obtain s1 where "request k delay s = Ret s1" "ok s1" "pending s1 = (pending s)(k \<mapsto> now + delay)"
      using request_law [of s delay k] Cons.prems by (auto simp: returns_def)
    then show ?thesis using Cons.IH [of s1] Cons.prems(2) by (simp only: Set_timer timer_calls.simps obind.simps map_calls.simps delays_ok.simps)
  next
    case (Cancel_timer k)
    then obtain s1 where "cancel k s = Ret s1" "ok s1" "pending s1 = (pending s)(k := None)"
      using cancel_law [of s k] Cons.prems by (auto simp: returns_def)
    then show ?thesis using Cons.IH [of s1] Cons.prems(2) by (simp only: Cancel_timer timer_calls.simps obind.simps map_calls.simps delays_ok.simps)
  qed
qed simp

end

definition timer_map :: "('k, 'c) events \<Rightarrow> 'k \<rightharpoonup> int" where
  "timer_map s = map_of (map (\<lambda>t. (tm_key t, tm_when t)) (event_timers s))"

definition ev_request :: "ev_env \<Rightarrow> 'k \<Rightarrow> int \<Rightarrow> ('k, 'c) events \<Rightarrow> ('k, 'c) events outcome" where
  "ev_request env key delay s = obind (event_request_timer env key delay s) (\<lambda>(_, s). Ret s)"

definition ev_cancel :: "ev_env \<Rightarrow> 'k \<Rightarrow> ('k, 'c) events \<Rightarrow> ('k, 'c) events outcome" where
  "ev_cancel env key s = obind (event_cancel_timer env key s) (\<lambda>(_, s). Ret s)"

lemma map_of_filter_key: "map_of (map (\<lambda>t. (tm_key t, tm_when t)) (filter (\<lambda>t. tm_key t \<noteq> key) ts))
    = (map_of (map (\<lambda>t. (tm_key t, tm_when t)) ts))(key := None)"
  by (induction ts) (auto simp: fun_eq_iff)

lemma map_of_insert: "tm_key t \<notin> tm_key ` set ts \<Longrightarrow>
   map_of (map (\<lambda>t. (tm_key t, tm_when t)) (timer_insert t ts)) = (map_of (map (\<lambda>t. (tm_key t, tm_when t)) ts))(tm_key t \<mapsto> tm_when t)"
  by (induction ts) (auto simp: fun_upd_twist)

interpretation ev: timer_service "\<lambda>s. events_ok s \<and> env_time env \<noteq> 0" "env_time env" timer_map "ev_request env" "ev_cancel env" for env
proof
  fix s :: "('a, 'b) events" and delay :: int and k :: 'a
  assume ok: "events_ok s \<and> env_time env \<noteq> 0"
  then have d: "distinct (map tm_key (event_timers s))" "\<not> EVENT_INIT_NEEDED s" by (auto simp: events_ok_def timers_ok_def)
  {
    assume "delay \<ge> 0"
    then obtain w s' where s': "event_request_timer env k delay s = Ret (w, s')" "events_ok s'"
      using request_ok [of s delay env k] ok by (auto simp: returns_def)
    moreover have "map_of (map (\<lambda>t. (tm_key t, tm_when t)) (timer_insert t (filter (\<lambda>t. tm_key t \<noteq> k) (event_timers s))))
        = (timer_map s)(k \<mapsto> tm_when t)" if "tm_key t = k" for t
    proof -
      have "tm_key t \<notin> tm_key ` set (filter (\<lambda>t. tm_key t \<noteq> k) (event_timers s))" using that by auto
      from map_of_insert [OF this] that show ?thesis by (simp add: map_of_filter_key timer_map_def)
    qed
    ultimately have "timer_map s' = (timer_map s)(k \<mapsto> env_time env + delay)"
      using d \<open>delay \<ge> 0\<close> by (auto simp: event_request_timer_def Let_def timer_map_def remove_filter)
    then show "returns (ev_request env k delay s) (\<lambda>s'. (events_ok s' \<and> env_time env \<noteq> 0) \<and> timer_map s' = (timer_map s)(k \<mapsto> env_time env + delay))"
      using s' ok by (simp add: ev_request_def)
  }
  obtain w s' where s': "event_cancel_timer env k s = Ret (w, s')" "events_ok s'"
    using cancel_ok [of s env k] ok by (auto simp: returns_def)
  then have "timer_map s' = (timer_map s)(k := None)"
    using d by (auto simp: timer_map_def remove_filter map_of_filter_key dest!: cancel_state)
  then show "returns (ev_cancel env k s) (\<lambda>s'. (events_ok s' \<and> env_time env \<noteq> 0) \<and> timer_map s' = (timer_map s)(k := None))"
    using s' ok by (simp add: ev_cancel_def)
qed

section \<open>Properties\<close>

text \<open>
  C32: The event manager stays within its masks and tables: any legal sequence of requests (descriptors below
  the limit, no read and write request for the same one, no negative delay) returns, and leaves
  the timers sorted, with one request per key, and a call-back for every enabled descriptor.
\<close>

theorem event_requests_safe:
  assumes "events_ok s" "legal_ops opers s"
  shows "returns (run_ops opers s) events_ok"
  using run_ops_ok [OF assms] by (rule returns_mono) (simp add: keeps_ok_def)

text \<open>A state right after initialization, and an environment, for examples.\<close>

definition demo_ev_env :: ev_env where
  "demo_ev_env = \<lparr>env_time = 100, env_open_limit = 1000, env_reg = (\<lambda>_. True)\<rparr>"

definition demo_events :: "(nat, nat) events" where
  "demo_events =
     (let m = EVENT_MASK_ALLOC EVENT_ALLOC_INCR
      in \<lparr>event_present = 100, event_timers = [], event_loop_instance = 0, event_rmask = m, event_wmask = m, event_xmask = m,
          event_fdlimit = 1000, event_fdtable = replicate EVENT_ALLOC_INCR None, event_fdslots = EVENT_ALLOC_INCR,
          event_max_fd = -1, event_nested = 0\<rparr>)"

lemma demo_events_init:
  "event_init demo_ev_env (demo_events\<lparr>event_present := 0, event_fdtable := [], event_fdslots := 0\<rparr>) = Ret demo_events"
  by (simp add: event_init_def demo_ev_env_def demo_events_def EVENT_INIT_NEEDED_def Let_def)

lemma demo_events_ok: "events_ok demo_events"
  by (simp add: events_ok_def demo_events_def timers_ok_def masks_ok_def EVENT_INIT_NEEDED_def Let_def)

theorem event_requests_safe_witness:
  "returns (run_ops [Op_request demo_ev_env 1 5, Op_cancel demo_ev_env 2] demo_events) events_ok"
proof -
  have "legal_ops [Op_request demo_ev_env 1 5, Op_cancel demo_ev_env 2] demo_events"
    by (simp add: demo_ev_env_def split: outcome.splits)
  from event_requests_safe [OF demo_events_ok this] show ?thesis .
qed


lemma demo_timer_ok: "events_ok (demo_events\<lparr>event_timers := [\<lparr>tm_when = 100, tm_key = 7, tm_instance = 0\<rparr>]\<rparr>)"
  using demo_events_ok by (simp add: events_ok_def timers_ok_def masks_ok_def EVENT_INIT_NEEDED_def) (simp add: demo_events_def Let_def)


end
