(* ===== verification/Spec2Isabelle.thy ===== *)
theory Spec2Isabelle
  imports Qmgr_List Qmgr_Slots Qmgr_Limit Master_Ent Codec Htable Queue_File Events
begin

text \<open>
  \<^bold>\<open>A verification library of the Postfix mail system.\<close>

  Postfix is a set of cooperating daemons. The development is about its core: the process manager \<^verbatim>\<open>master\<close>, which
  starts and watches all other daemons, the queue manager
  \<^verbatim>\<open>qmgr\<close>, which decides what is delivered where and when, and the libraries that they and the other
  daemons stand on. All paths below are relative to \<^verbatim>\<open>src/src\<close>.

  \<^bold>\<open>The program and its model.\<close> A message in the active queue (\<^verbatim>\<open>QMGR_MESSAGE\<close>) has one job
  per delivery transport (\<^verbatim>\<open>QMGR_JOB\<close>); a job has one peer per destination (\<^verbatim>\<open>QMGR_PEER\<close>);
  a peer has entries, each one a delivery request (\<^verbatim>\<open>QMGR_ENTRY\<close>). A transport
  (\<^verbatim>\<open>QMGR_TRANSPORT\<close>) has a list of jobs, from which the preemptive scheduler selects, and one
  queue per destination (\<^verbatim>\<open>QMGR_QUEUE\<close>), whose window limits the number of simultaneous
  deliveries. These structures refer to each other by pointers; the model keeps each kind in a store from addresses to
  records, in one state record \<open>qmgr\<close>, together with the pending timers. Operations are functions
  on this state. \<open>Panic\<close> stands for \<^verbatim>\<open>msg_panic()\<close> and \<^verbatim>\<open>msg_fatal()\<close>, \<open>Diverge\<close>
  for a loop that does not end.

  The process manager has a list of services (\<^verbatim>\<open>MASTER_SERV\<close>), a table of child processes
  (\<^verbatim>\<open>MASTER_PROC\<close>) and, through the event manager, timers and descriptors that are watched; the record \<open>master\<close> has all of them.

  \<^bold>\<open>Theories.\<close>
  \<^item> \<open>Postfix_Prelude\<close>: results of operations, invariants of transition systems (locale
    \<open>transition_system\<close>), lemmas on lists. \<open>C_Lib\<close>: the C library on characters and numbers.
  \<^item> \<open>Qmgr_List\<close>: the list macros of \<^verbatim>\<open>qmgr/qmgr.h\<close> over a pointer store; they refine lists, which the
    other theories use.
  \<^item> \<open>Qmgr_State\<close>: the structures of \<^verbatim>\<open>qmgr/qmgr.h\<close>. \<open>Qmgr_Queue\<close>: \<^verbatim>\<open>qmgr_queue.c\<close> with
    the concurrency feedback, and \<^verbatim>\<open>qmgr_enable.c\<close>. \<open>Qmgr_Peer\<close>: \<^verbatim>\<open>qmgr_peer.c\<close> and the selection part of
    \<^verbatim>\<open>qmgr_entry.c\<close>. \<open>Qmgr_Job\<close>: \<^verbatim>\<open>qmgr_job.c\<close>; \<open>Qmgr_Sched\<close>, \<open>Qmgr_Order\<close> and \<open>Qmgr_Slots\<close>
    prove its properties. \<open>Qmgr_Entry\<close>: \<^verbatim>\<open>qmgr_entry.c\<close>. \<open>Qmgr_Message\<close>: the assignment of
    recipients in \<^verbatim>\<open>qmgr_message.c\<close>. \<open>Qmgr_Machine\<close>: the queue manager as a transition system.
    \<open>Qmgr_Transport\<close>: \<^verbatim>\<open>qmgr_transport.c\<close>, \<^verbatim>\<open>qmgr_feedback.c\<close>, \<^verbatim>\<open>qmgr_error.c\<close>. \<open>Qmgr_Deliver\<close>:
    \<^verbatim>\<open>qmgr_deliver.c\<close> and \<^verbatim>\<open>qmgr_defer.c\<close>.
  \<^item> \<open>Qmgr_Active\<close>: the life of message files, \<^verbatim>\<open>qmgr.c\<close>, \<^verbatim>\<open>qmgr_active.c\<close>, \<^verbatim>\<open>qmgr_scan.c\<close>, \<^verbatim>\<open>qmgr_move.c\<close>, the
    allocation of messages in \<^verbatim>\<open>qmgr_message.c\<close>, \<^verbatim>\<open>global/mail_queue.c\<close>, \<^verbatim>\<open>mail_open_ok.c\<close> and \<^verbatim>\<open>master/mail_flow.c\<close>. Its state
    \<open>mailq\<close> has the scheduler's state as one field, and the files in the queue directories, the pending requests to
    the bounce service and the directory scans beside it. \<open>Qmgr_Spool\<close>: every operation keeps message files or disposes of them
    at the end. \<open>Qmgr_Cycle\<close>: the spool as a transition system. \<open>Qmgr_Limit\<close>: the limits of the main loop.
  \<^item> \<open>Master\<close>: the process manager, \<^verbatim>\<open>master/master_avail.c\<close>, \<^verbatim>\<open>master_spawn.c\<close>, \<^verbatim>\<open>master_status.c\<close>, \<^verbatim>\<open>master_wakeup.c\<close>,
    \<^verbatim>\<open>master_service.c\<close>, \<^verbatim>\<open>master_listen.c\<close> and \<^verbatim>\<open>master_conf.c\<close>. \<open>Master_Proc\<close>: its invariant, and how the operations on processes keep it.
    \<open>Master_Machine\<close>: services as a whole, reloads, and the process manager as a transition system. \<open>Master_Ent\<close>: the reader of \<^verbatim>\<open>master.cf\<close>, \<^verbatim>\<open>master_ent.c\<close>, with
    \<^verbatim>\<open>util/readlline.c\<close>, \<^verbatim>\<open>mystrtok.c\<close>, \<^verbatim>\<open>balpar.c\<close>, \<^verbatim>\<open>extpar.c\<close>, \<^verbatim>\<open>host_port.c\<close> and \<^verbatim>\<open>global/match_service.c\<close>.
  \<^item> \<open>Mail_Conf\<close>: typed configuration parameters, \<^verbatim>\<open>global/mail_conf_int.c\<close>, \<^verbatim>\<open>_time.c\<close>, \<^verbatim>\<open>_str.c\<close>,
    \<^verbatim>\<open>_bool.c\<close> and \<^verbatim>\<open>conv_time.c\<close>. \<open>Mac_Expand\<close>: the expansion of \<open>$name\<close> in their values,
    \<^verbatim>\<open>util/mac_parse.c\<close>, \<^verbatim>\<open>mac_expand.c\<close> and \<^verbatim>\<open>dict_eval()\<close>.
  \<^item> \<open>Htable\<close>: \<^verbatim>\<open>util/htable.c\<close> and \<^verbatim>\<open>global/been_here.c\<close>; locale \<open>string_table\<close>.
  \<^item> \<open>Events\<close>: \<^verbatim>\<open>util/events.c\<close>; locale \<open>timer_service\<close>, interpreted there on the event manager and below
    on the timers of the queue manager.
  \<^item> \<open>Codec\<close>: \<^verbatim>\<open>util/hex_code.c\<close>, \<^verbatim>\<open>hex_quote.c\<close>, \<^verbatim>\<open>base64_code.c\<close>, \<^verbatim>\<open>base32_code.c\<close> and
    \<^verbatim>\<open>global/xtext.c\<close>; locales \<open>codec\<close> and \<open>escape_code\<close>.
  \<^item> \<open>Wire\<close>: \<^verbatim>\<open>util/netstring.c\<close> and \<^verbatim>\<open>global/off_cvt.c\<close>. \<open>Queue_File\<close>: \<^verbatim>\<open>global/record.c\<close>.

  \<^bold>\<open>What is shown.\<close>
  \<^item> Queue manager: in every reachable state no enabled operation panics or loops; the concurrency limit of every
    destination is respected; no entry, peer or queue pointer dangles; a destination that is not
    ready has the timer that makes it ready. The scheduler conserves recipient slots, chooses the best candidate
    for preemption, and charges preempted jobs for what was used. The transport that is selected is the first
    suitable one, and can be allocated; the countdown that decides on this is exact as long as no window has shrunk below the deliveries in progress.
  \<^item> Message files: no file is lost before all its recipients are done, whatever I/O errors and restarts there are; deferred mail
    stays out of the active queue for its backoff time; a request for a queue scan is not lost; the main loop keeps the
    active queue within its limit; draining the active queue ends and leaves no transport out.
  \<^item> Process manager: in every reachable state each event is handled without a panic; process counters are exact and process limits
    are respected; a service is watched exactly when a process could be started for it and none is available, and a throttled service
    has the timer that ends this; a reload installs exactly the configured services, also when they are read from any text of
    \<^verbatim>\<open>master.cf\<close>, and a file of entries for local services is read as it was written; the wait for the processes of a service ends with them.
  \<^item> Event manager: requests stay within its tables; a call of the event loop delivers every timer event that is due and
    ends; it implements the timers that the queue manager relies on.
  \<^item> Libraries: hash tables refine maps; the duplicate filter is exact up to its limit; queue file records, netstrings, and
    all encodings can be read back; the reader of queue files ends on every input; configuration
    parameters obey their limits and are stable; numbers are converted without overflow; macro expansion ends, except for
    what is said below, and obeys its filter.
  \<^item> Several theorems are about defects: negative concurrency limits, a transport that is passed over, a rate lock that is kept,
    an idle queue that is never discarded, a padding record that is too large, base 32 text that is accepted with
    anything after it, an iterator that reads beyond its array, a macro expansion without end.

  \<^bold>\<open>Parameters and hypotheses.\<close> Code outside the model is a parameter: in the scheduler, \<^verbatim>\<open>qmgr_active_done()\<close>
  (with the hypothesis \<open>disposes\<close>: it returns and keeps the invariant) and \<^verbatim>\<open>qmgr_message_realloc()\<close>; in \<open>Qmgr_Active\<close>, where these two are
  modelled, reading, sorting and resolving the recipients of a message (with the hypothesis \<open>reader_ok\<close>: they move no message file and
  free no message), I/O errors, locks and directory listings; connections to delivery agents, the conversion of decimal fractions, Unicode case folding, the clock, the kernel's event filter, and the call-back functions
  of the event manager; in the process manager, the syntax and the addresses of hosts, new descriptors and process ids, which are not in use, and \<^verbatim>\<open>waitpid()\<close>, which reports child processes only. Floating point numbers of the concurrency feedback are rational numbers.

  \<^bold>\<open>Bounds.\<close> The selection loop of the scheduler has the fuel \<open>Suc (length job_list)\<close>, since every round but the last one passes
  or retires a job; feedback loops, which could loop forever with a zero step, are \<open>while_option\<close>, and are shown to end. The loop that
  frees the jobs of a message has the number of jobs as its fuel; the loop that drains the active queue has two rounds per transport, and is
  shown to end. The recursion of \<^verbatim>\<open>qmgr_active_done()\<close> has the room on the process stack as its fuel, a parameter. The recursion of macro expansion has the room on the process stack as
  its fuel, which is a parameter; 102 nested calls suffice without relational expressions. The reader of queue files is a \<open>partial_function\<close>,
  and is shown to return. Machine integers are kept at their width where they can overflow: configuration numbers, time units, record
  lengths, netstring lengths, bytes and hash values; counters of the queue manager are unbounded integers.

  \<^bold>\<open>Not modelled.\<close> Reading a queue file into a message and resolving recipients
  (\<^verbatim>\<open>qmgr_message_read()\<close>, \<^verbatim>\<open>qmgr_message_resolve()\<close>), the bounce and defer clients, a process that is interrupted between two file
  operations of one event, and all daemons
  other than \<^verbatim>\<open>master\<close> and \<^verbatim>\<open>qmgr\<close> (\<^verbatim>\<open>smtpd\<close>, \<^verbatim>\<open>smtp\<close>, \<^verbatim>\<open>cleanup\<close>, \<^verbatim>\<open>local\<close> and so on), which are mostly network or file I/O; the
  TLS and SASL glue; the command-line tools. Next in the plan are address and host name
  syntax, access lists and \<^verbatim>\<open>anvil\<close>.
\<close>

section \<open>The timers of the queue manager\<close>

text \<open>
  The queue manager model keeps its pending timers as a map. Both this map and the sorted queue of the
  event manager satisfy the contract of a timer service.
\<close>

interpretation qmgr_timers: timer_service "\<lambda>s. event_now s = now" now timers
  "\<lambda>tm delay s. Ret (Qmgr_State.event_request_timer tm delay s)" "\<lambda>tm s. Ret (Qmgr_State.event_cancel_timer tm s)" for now
  by unfold_locales simp_all

text \<open>
  C33: The event manager implements the timers that the queue manager relies on: after any
  sequence of requests and cancellations at the same time, its timer queue stands for the queue manager's map.
\<close>

theorem qmgr_timers_implemented:
  assumes "events_ok e" "timer_map e = timers s" "env_time env = event_now s" "event_now s \<noteq> 0" "delays_ok calls"
  shows "\<exists>s' e'. timer_calls (\<lambda>tm delay s. Ret (Qmgr_State.event_request_timer tm delay s))
        (\<lambda>tm s. Ret (Qmgr_State.event_cancel_timer tm s)) calls s = Ret s'
    \<and> timer_calls (ev_request env) (ev_cancel env) calls e = Ret e' \<and> events_ok e' \<and> timer_map e' = timers s'"
  using ev.calls_simulate [of e env calls] qmgr_timers.calls_simulate [of s "event_now s" calls] assms
  by (auto simp: returns_def)

theorem qmgr_timers_implemented_witness:
  "\<exists>s' e'. timer_calls (\<lambda>tm delay s. Ret (Qmgr_State.event_request_timer tm delay s))
        (\<lambda>tm s. Ret (Qmgr_State.event_cancel_timer tm s))
        [Set_timer (Tm_queue_resume 1) 5, Cancel_timer (Tm_queue_resume 2)] (qmgr_initial\<lparr>event_now := 100\<rparr>) = Ret s'
    \<and> timer_calls (ev_request demo_ev_env) (ev_cancel demo_ev_env)
        [Set_timer (Tm_queue_resume 1) 5, Cancel_timer (Tm_queue_resume 2)]
        (\<lparr>event_present = 100, event_timers = [], event_loop_instance = 0, event_rmask = event_rmask demo_events,
          event_wmask = event_wmask demo_events, event_xmask = event_xmask demo_events, event_fdlimit = 1000,
          event_fdtable = event_fdtable demo_events, event_fdslots = event_fdslots demo_events,
          event_max_fd = -1, event_nested = 0\<rparr>) = Ret e'
    \<and> events_ok e' \<and> timer_map e' = timers s'"
  by (rule qmgr_timers_implemented)
    (simp_all add: demo_ev_env_def timer_map_def events_ok_def timers_ok_def masks_ok_def EVENT_INIT_NEEDED_def demo_events_def
      qmgr_initial_def Let_def)

section \<open>The timers of the process manager\<close>

interpretation master_tm: timer_service "\<lambda>m. master_time m = now" now master_timers
  "\<lambda>tm delay m. Ret (request_timer tm delay m)" "\<lambda>tm m. Ret (cancel_timer tm m)" for now
  by unfold_locales (simp_all add: request_timer_def cancel_timer_def)

text \<open>The event manager implements the timers of the process manager, too.\<close>

theorem master_timers_implemented:
  assumes "events_ok e" "timer_map e = master_timers m" "env_time env = master_time m" "master_time m \<noteq> 0" "delays_ok calls"
  shows "\<exists>m' e'. timer_calls (\<lambda>tm delay m. Ret (request_timer tm delay m)) (\<lambda>tm m. Ret (cancel_timer tm m)) calls m = Ret m'
    \<and> timer_calls (ev_request env) (ev_cancel env) calls e = Ret e' \<and> events_ok e' \<and> timer_map e' = master_timers m'"
  using ev.calls_simulate [of e env calls] master_tm.calls_simulate [of m "master_time m" calls] assms
  by (auto simp: returns_def)

end
